(* ===== verification/Prelude.thy ===== *)
theory Prelude
  imports
    Main
    "HOL-Library.Signed_Division"
    "HOL-Library.Product_Lexorder"
    "HOL-Library.Word"
begin

text \<open>
  Shared vocabulary of the development: Go's instants, durations and truncating integer
  division, the three SQL statement shapes the store uses (update, delete and count over the
  rows that satisfy a condition), SQLite's choice of a new rowid, and the error values of
  \<^verbatim>\<open>internal/store\<close>.
  The collections \<open>time_defs\<close>, \<open>go_arith\<close> and \<open>sql_simps\<close> carry the component proofs.
\<close>

named_theorems time_defs \<open>definitions of the clock arithmetic\<close>
named_theorems go_arith \<open>Go's truncating division on the non-negative integers\<close>
named_theorems sql_simps \<open>rewriting of the statement shapes\<close>

section \<open>Instants and durations\<close>

text \<open>
  A \<^verbatim>\<open>time.Time\<close> is an instant, held as nanoseconds since the Unix epoch; a
  \<^verbatim>\<open>time.Duration\<close> is a count of nanoseconds. The zero \<^verbatim>\<open>time.Time{}\<close> is midnight of
  1 January of the year 1. \<^verbatim>\<open>Time.Sub\<close> saturates at the bounds of \<^verbatim>\<open>int64\<close>.
\<close>

type_synonym time = int
type_synonym duration = int

definition second :: duration where "second = 1000000000"
definition minute :: duration where "minute = 60 * second"
definition hourDur :: duration where "hourDur = 3600 * second"

definition zeroTime :: time where "zeroTime = -62135596800 * second"

definition isZero :: "time \<Rightarrow> bool" where "isZero t \<longleftrightarrow> t = zeroTime"

definition unixSec :: "time \<Rightarrow> int" where "unixSec t = t div second"

definition fromUnix :: "int \<Rightarrow> time" where "fromUnix s = s * second"

definition maxDuration :: duration where "maxDuration = 2 ^ 63 - 1"
definition minDuration :: duration where "minDuration = - (2 ^ 63)"

definition subTime :: "time \<Rightarrow> time \<Rightarrow> duration" where
  "subTime t u = max minDuration (min maxDuration (t - u))"

definition addTime :: "time \<Rightarrow> duration \<Rightarrow> time" where "addTime t d = t + d"

definition truncTime :: "time \<Rightarrow> duration \<Rightarrow> time" where
  "truncTime t d = t - (t - zeroTime) mod d"

lemmas [time_defs] = second_def minute_def hourDur_def zeroTime_def unixSec_def fromUnix_def
  maxDuration_def minDuration_def subTime_def addTime_def truncTime_def

lemma unixSec_fromUnix [simp]: "unixSec (fromUnix s) = s"
  by (simp add: time_defs)

lemma fromUnix_le [simp]: "fromUnix a \<le> fromUnix b \<longleftrightarrow> a \<le> b"
  by (simp add: time_defs)

lemma fromUnix_less [simp]: "fromUnix a < fromUnix b \<longleftrightarrow> a < b"
  by (simp add: time_defs)

lemma fromUnix_eq [simp]: "fromUnix a = fromUnix b \<longleftrightarrow> a = b"
  by (simp add: time_defs)

lemma unixSec_mono: "t \<le> u \<Longrightarrow> unixSec t \<le> unixSec u"
  by (simp add: time_defs zdiv_mono1)

lemma fromUnix_unixSec_le: "fromUnix (unixSec t) \<le> t"
  by (simp add: time_defs)

lemma unixSec_add_seconds: "unixSec (t + n * second) = unixSec t + n"
  by (simp add: time_defs)

lemma subTime_less_iff:
  "minDuration < d \<Longrightarrow> d \<le> maxDuration \<Longrightarrow> subTime t u < d \<longleftrightarrow> t - u < d"
  by (auto simp: subTime_def minDuration_def)

lemma subTime_ge_iff:
  "minDuration < d \<Longrightarrow> d \<le> maxDuration \<Longrightarrow> d \<le> subTime t u \<longleftrightarrow> d \<le> t - u"
  by (auto simp: subTime_def minDuration_def)

section \<open>Integer division\<close>

text \<open>Go's \<^verbatim>\<open>/\<close> and \<^verbatim>\<open>%\<close> truncate towards zero; on non-negative values they are
  \<open>div\<close> and \<open>mod\<close>.\<close>

lemma sdiv_nonneg [go_arith]: "0 \<le> a \<Longrightarrow> 0 < b \<Longrightarrow> a sdiv b = a div (b :: int)"
  by (auto simp: signed_divide_int_def sgn_if)

lemma smod_nonneg [go_arith]: "0 \<le> a \<Longrightarrow> 0 < b \<Longrightarrow> a smod b = a mod (b :: int)"
  by (auto simp: signed_modulo_int_def sgn_if)

lemma int_div_interval:
  fixes n k c :: int
  assumes "0 < k"
  shows "n div k = c \<longleftrightarrow> c * k \<le> n \<and> n < (c + 1) * k"
proof
  assume "n div k = c"
  then have "n = c * k + n mod k" using div_mult_mod_eq [of n k] by simp
  moreover have "0 \<le> n mod k" "n mod k < k" using assms by simp_all
  ultimately show "c * k \<le> n \<and> n < (c + 1) * k" unfolding distrib_right by linarith
next
  assume "c * k \<le> n \<and> n < (c + 1) * k"
  then show "n div k = c" using assms int_div_pos_eq [of n k c "n - c * k"] by (simp add: algebra_simps)
qed

text \<open>Indexing a slice panics out of range.\<close>

definition go_nth :: "'a list \<Rightarrow> int \<Rightarrow> 'a option" where
  "go_nth xs i = (if 0 \<le> i \<and> i < int (length xs) then Some (xs ! nat i) else None)"

section \<open>Rows\<close>

definition update_where :: "('r \<Rightarrow> bool) \<Rightarrow> ('r \<Rightarrow> 'r) \<Rightarrow> 'r list \<Rightarrow> 'r list" where
  "update_where p f rs = map (\<lambda>r. if p r then f r else r) rs"

definition delete_where :: "('r \<Rightarrow> bool) \<Rightarrow> 'r list \<Rightarrow> 'r list" where
  "delete_where p rs = filter (\<lambda>r. \<not> p r) rs"

definition count_where :: "('r \<Rightarrow> bool) \<Rightarrow> 'r list \<Rightarrow> int" where
  "count_where p rs = int (length (filter p rs))"

text \<open>A rowid table without \<^verbatim>\<open>AUTOINCREMENT\<close> gives a new row the largest rowid plus one.\<close>

definition next_rowid :: "int list \<Rightarrow> int" where
  "next_rowid ids = fold max ids 0 + 1"

lemma update_where_simps [sql_simps]:
  "update_where p f [] = []"
  "update_where p f (r # rs) = (if p r then f r else r) # update_where p f rs"
  by (simp_all add: update_where_def)

lemma delete_where_simps [sql_simps]:
  "delete_where p [] = []"
  "delete_where p (r # rs) = (if p r then delete_where p rs else r # delete_where p rs)"
  by (simp_all add: delete_where_def)

lemma count_where_simps [sql_simps]:
  "count_where p [] = 0"
  "count_where p (r # rs) = (if p r then 1 else 0) + count_where p rs"
  by (simp_all add: count_where_def)

lemma set_delete_where [simp]: "set (delete_where p rs) = {r \<in> set rs. \<not> p r}"
  by (simp add: delete_where_def)

lemma set_update_where [simp]:
  "set (update_where p f rs) = {r \<in> set rs. \<not> p r} \<union> f ` {r \<in> set rs. p r}"
  by (auto simp: update_where_def)

lemma update_where_origin:
  assumes "x \<in> set (update_where p f rs)"
  obtains r where "r \<in> set rs" "x = r \<or> x = f r \<and> p r"
  using assms by (auto simp: update_where_def split: if_splits)

lemma length_update_where [simp]: "length (update_where p f rs) = length rs"
  by (simp add: update_where_def)

lemma map_update_where_same:
  "(\<And>r. g (f r) = g r) \<Longrightarrow> map g (update_where p f rs) = map g rs"
  by (simp add: update_where_def)

lemma count_where_zero: "count_where p rs = 0 \<longleftrightarrow> (\<forall>r \<in> set rs. \<not> p r)"
  by (simp add: count_where_def filter_empty_conv)

lemma count_where_nonneg [simp]: "0 \<le> count_where p rs"
  by (simp add: count_where_def)

lemma count_where_le: "count_where p rs \<le> int (length rs)"
  by (simp add: count_where_def)

lemma count_where_append [simp]: "count_where p (xs @ ys) = count_where p xs + count_where p ys"
  by (simp add: count_where_def)

lemma update_where_none: "\<forall>r \<in> set rs. \<not> p r \<Longrightarrow> update_where p f rs = rs"
  by (simp add: update_where_def map_idI)

lemma find_append:
  "find p (xs @ ys) = (case find p xs of Some x \<Rightarrow> Some x | None \<Rightarrow> find p ys)"
  by (induction xs) auto

lemma fold_max_ge: "(a :: int) \<le> fold max xs a"
  by (induction xs arbitrary: a) (auto intro: order_trans [OF max.cobounded2])

lemma fold_max_mem: "x \<in> set xs \<Longrightarrow> (x :: int) \<le> fold max xs a"
proof (induction xs arbitrary: a)
  case (Cons y ys)
  then show ?case
    using order_trans [OF max.cobounded1 fold_max_ge [of "max y a" ys]] by auto
qed simp

lemma next_rowid_greater: "i \<in> set ids \<Longrightarrow> i < next_rowid ids"
  using fold_max_mem [of i ids 0] by (simp add: next_rowid_def)

lemma next_rowid_pos: "0 < next_rowid ids"
  using fold_max_ge [of 0 ids] by (simp add: next_rowid_def)

lemma next_rowid_fresh: "next_rowid ids \<notin> set ids"
  using next_rowid_greater by blast

section \<open>Errors of the store\<close>

text \<open>
  \<open>ErrNotFound\<close> and \<open>ErrIncidentOpen\<close> are the store's own errors. \<open>ErrConstraint\<close> is a
  statement the schema refuses, \<open>ErrDriver\<close> any other failure of the driver: an I/O error, a
  busy database, a cancelled context. \<open>ErrPanic\<close> stands for a run-time panic of the Go code
  (an index out of range).
\<close>

datatype store_err = ErrNotFound | ErrIncidentOpen | ErrConstraint | ErrDriver | ErrPanic

type_synonym 'a result = "store_err + 'a"

definition affected :: "int \<Rightarrow> unit result" where
  "affected n = (if n = 0 then Inl ErrNotFound else Inr ())"

lemma affected_Inr [simp]: "affected n = Inr () \<longleftrightarrow> n \<noteq> 0"
  by (simp add: affected_def)

lemma affected_Inl [simp]: "affected n = Inl e \<longleftrightarrow> n = 0 \<and> e = ErrNotFound"
  by (auto simp: affected_def)

end
