(* ===== verification/Go_Strings.thy ===== *)
theory Go_Strings
  imports Prelude "HOL-Library.Sublist"
begin

text \<open>
  What the program uses of Go's \<^verbatim>\<open>strings\<close>, \<^verbatim>\<open>strconv\<close>, \<^verbatim>\<open>unicode\<close> and \<^verbatim>\<open>unicode/utf8\<close>. A Go string
  is a sequence of bytes, so it is a \<open>string\<close>, a list of 8-bit characters. Functions that look at
  runes decode UTF-8 as the Go runtime does: an invalid byte is the replacement rune of width one.
  The last section shows that decoding and writing out the runes are inverse on valid text and that
  a printed number reads back.
\<close>

named_theorems go_string \<open>definitions of the library's string functions\<close>

section \<open>Bytes\<close>

definition byte :: "char \<Rightarrow> nat" where "byte c = of_char c"

definition isDigit :: "char \<Rightarrow> bool" where "isDigit c \<longleftrightarrow> 48 \<le> byte c \<and> byte c \<le> 57"

lemma byte_less [simp]: "byte c < 256"
  by (simp add: byte_def)

lemma byte_eq_iff: "byte c = byte c' \<longleftrightarrow> c = c'"
  by (simp add: byte_def)

lemma byte_char_of [simp]: "n < 256 \<Longrightarrow> byte (char_of n) = n"
  by (simp add: byte_def)

section \<open>Runes\<close>

definition runeError :: nat where "runeError = 0xFFFD"

definition cont :: "nat \<Rightarrow> bool" where "cont b \<longleftrightarrow> 0x80 \<le> b \<and> b \<le> 0xBF"

text \<open>The first rune of a string and the number of its bytes. The second byte's range depends on the
  first, which leaves out overlong forms, surrogates and values over \<open>0x10FFFF\<close>.\<close>

fun decodeRune :: "nat list \<Rightarrow> nat \<times> nat" where
  "decodeRune [] = (runeError, 0)"
| "decodeRune (b # bs) =
     (if b < 0x80 then (b, 1)
      else (case bs of
        [] \<Rightarrow> (runeError, 1)
      | b1 # bs1 \<Rightarrow>
          if 0xC2 \<le> b \<and> b \<le> 0xDF then (if cont b1 then ((b - 0xC0) * 64 + (b1 - 0x80), 2) else (runeError, 1))
          else (case bs1 of
            [] \<Rightarrow> (runeError, 1)
          | b2 # bs2 \<Rightarrow>
              if 0xE0 \<le> b \<and> b \<le> 0xEF
              then (if (if b = 0xE0 then 0xA0 else 0x80) \<le> b1 \<and> b1 \<le> (if b = 0xED then 0x9F else 0xBF) \<and> cont b2
                    then ((b - 0xE0) * 4096 + (b1 - 0x80) * 64 + (b2 - 0x80), 3) else (runeError, 1))
              else (case bs2 of
                [] \<Rightarrow> (runeError, 1)
              | b3 # _ \<Rightarrow>
                  if 0xF0 \<le> b \<and> b \<le> 0xF4 \<and> (if b = 0xF0 then 0x90 else 0x80) \<le> b1 \<and>
                     b1 \<le> (if b = 0xF4 then 0x8F else 0xBF) \<and> cont b2 \<and> cont b3
                  then ((b - 0xF0) * 262144 + (b1 - 0x80) * 4096 + (b2 - 0x80) * 64 + (b3 - 0x80), 4)
                  else (runeError, 1)))))"

definition firstRune :: "string \<Rightarrow> nat \<times> nat" where
  "firstRune s = decodeRune (map byte (take 4 s))"

lemma decodeRune_width: "bs \<noteq> [] \<Longrightarrow> 0 < snd (decodeRune bs) \<and> snd (decodeRune bs) \<le> length bs"
  by (cases bs rule: decodeRune.cases) (auto split: list.splits)

lemma firstRune_width: "s \<noteq> [] \<Longrightarrow> 0 < snd (firstRune s) \<and> snd (firstRune s) \<le> length s"
  using decodeRune_width [of "map byte (take 4 s)"] by (auto simp: firstRune_def)

text \<open>A string as its runes, each with the bytes it stands for.\<close>

function runes :: "string \<Rightarrow> (nat \<times> string) list" where
  "runes s = (if s = [] then [] else
     let (r, n) = firstRune s in (r, take n s) # runes (drop n s))"
  by pat_completeness auto
termination
proof (relation "measure length")
  fix s :: string and x r n
  assume s: "s \<noteq> []" "x = firstRune s" "(r, n) = x"
  then have "snd (firstRune s) = n" by (metis snd_conv)
  then show "(drop n s, s) \<in> measure length" using firstRune_width [OF s(1)] s(1) by simp
qed simp

declare runes.simps [simp del]

lemma runes_Nil [simp]: "runes [] = []"
  by (simp add: runes.simps)

definition runeCount :: "string \<Rightarrow> nat" where "runeCount s = length (runes s)"

definition runeBytes :: "(nat \<times> string) list \<Rightarrow> string" where "runeBytes rs = concat (map snd rs)"

lemma runeBytes_runes [simp]: "runeBytes (runes s) = s"
proof (induction s rule: runes.induct)
  case (1 s)
  then show ?case by (subst runes.simps) (auto simp: runeBytes_def split: prod.split)
qed

section \<open>Classes of runes\<close>

definition isSpace :: "nat \<Rightarrow> bool" where
  "isSpace r \<longleftrightarrow> (9 \<le> r \<and> r \<le> 13) \<or> r = 32 \<or> r = 0x85 \<or> r = 0xA0 \<or> r = 0x1680 \<or> (0x2000 \<le> r \<and> r \<le> 0x200A) \<or>
     r = 0x2028 \<or> r = 0x2029 \<or> r = 0x202F \<or> r = 0x205F \<or> r = 0x3000"

definition isControl :: "nat \<Rightarrow> bool" where
  "isControl r \<longleftrightarrow> r \<le> 0x1F \<or> (0x7F \<le> r \<and> r \<le> 0x9F)"

text \<open>The class \<^verbatim>\<open>Cf\<close> (format characters) of Unicode 15.\<close>

definition formatRanges :: "(nat \<times> nat) list" where
  "formatRanges = [(0xAD, 0xAD), (0x600, 0x605), (0x61C, 0x61C), (0x6DD, 0x6DD), (0x70F, 0x70F), (0x890, 0x891),
     (0x8E2, 0x8E2), (0x180E, 0x180E), (0x200B, 0x200F), (0x202A, 0x202E), (0x2060, 0x2064), (0x2066, 0x206F),
     (0xFEFF, 0xFEFF), (0xFFF9, 0xFFFB), (0x110BD, 0x110BD), (0x110CD, 0x110CD), (0x13430, 0x1343F),
     (0x1BCA0, 0x1BCA3), (0x1D173, 0x1D17A), (0xE0001, 0xE0001), (0xE0020, 0xE007F)]"

definition isFormat :: "nat \<Rightarrow> bool" where
  "isFormat r \<longleftrightarrow> list_ex (\<lambda>(lo, hi). lo \<le> r \<and> r \<le> hi) formatRanges"

section \<open>Cutting and searching\<close>

definition trimRunes :: "(nat \<Rightarrow> bool) \<Rightarrow> (nat \<times> string) list \<Rightarrow> (nat \<times> string) list" where
  "trimRunes f rs = rev (dropWhile (f \<circ> fst) (rev (dropWhile (f \<circ> fst) rs)))"

definition TrimSpace :: "string \<Rightarrow> string" where
  "TrimSpace s = runeBytes (trimRunes isSpace (runes s))"

definition containsFunc :: "string \<Rightarrow> (nat \<Rightarrow> bool) \<Rightarrow> bool" where
  "containsFunc s f \<longleftrightarrow> list_ex (f \<circ> fst) (runes s)"

text \<open>\<^verbatim>\<open>strings.Cut\<close> and \<^verbatim>\<open>strings.Split\<close> with a separator of one byte.\<close>

definition cutAt :: "char \<Rightarrow> string \<Rightarrow> string \<times> string \<times> bool" where
  "cutAt c s = (takeWhile (\<lambda>x. x \<noteq> c) s, drop 1 (dropWhile (\<lambda>x. x \<noteq> c) s), c \<in> set s)"

fun splitAt :: "char \<Rightarrow> string \<Rightarrow> string list" where
  "splitAt c [] = [[]]"
| "splitAt c (x # xs) =
     (if x = c then [] # splitAt c xs
      else (case splitAt c xs of p # ps \<Rightarrow> (x # p) # ps | [] \<Rightarrow> [[x]]))"

text \<open>\<^verbatim>\<open>strings.Contains\<close>: the second string occurs in the first.\<close>

fun containsStr :: "string \<Rightarrow> string \<Rightarrow> bool" where
  "containsStr [] sub \<longleftrightarrow> sub = []"
| "containsStr (x # xs) sub \<longleftrightarrow> prefix sub (x # xs) \<or> containsStr xs sub"

text \<open>\<^verbatim>\<open>strings.CutPrefix\<close>\<close>

definition cutPrefix :: "string \<Rightarrow> string \<Rightarrow> string \<times> bool" where
  "cutPrefix s p = (if prefix p s then (drop (length p) s, True) else (s, False))"

section \<open>Numbers\<close>

definition decVal :: "string \<Rightarrow> int" where
  "decVal ds = foldl (\<lambda>n c. 10 * n + int (byte c - 48)) 0 ds"

definition minInt :: int where "minInt = - (2 ^ 63)"
definition maxInt :: int where "maxInt = 2 ^ 63 - 1"

definition Atoi :: "string \<Rightarrow> int option" where
  "Atoi s =
     (let neg = (s \<noteq> [] \<and> hd s = CHR ''-'');
          ds = (if s \<noteq> [] \<and> (hd s = CHR ''-'' \<or> hd s = CHR ''+'') then tl s else s);
          n = (if neg then - decVal ds else decVal ds)
      in if ds = [] \<or> \<not> list_all isDigit ds \<or> n < minInt \<or> maxInt < n then None else Some n)"

text \<open>\<^verbatim>\<open>strconv.ParseUint(s, 10, bits)\<close>\<close>

definition ParseUint :: "string \<Rightarrow> nat \<Rightarrow> int option" where
  "ParseUint s bits = (if s = [] \<or> \<not> list_all isDigit s \<or> 2 ^ bits \<le> decVal s then None else Some (decVal s))"

definition digitChar :: "nat \<Rightarrow> char" where "digitChar n = char_of (48 + n)"

fun showNat :: "nat \<Rightarrow> string" where
  "showNat n = (if n < 10 then [digitChar n] else showNat (n div 10) @ [digitChar (n mod 10)])"

declare showNat.simps [simp del]

definition Itoa :: "int \<Rightarrow> string" where
  "Itoa n = (if n < 0 then CHR ''-'' # showNat (nat (- n)) else showNat (nat n))"

section \<open>Laws\<close>

lemma isDigit_digitChar [simp]: "n < 10 \<Longrightarrow> isDigit (digitChar n)"
  by (simp add: isDigit_def digitChar_def)

lemma byte_digitChar [simp]: "n < 10 \<Longrightarrow> byte (digitChar n) = 48 + n"
  by (simp add: digitChar_def)

lemma decVal_snoc [simp]: "decVal (ds @ [c]) = 10 * decVal ds + int (byte c - 48)"
  by (simp add: decVal_def)

lemma decVal_Nil [simp]: "decVal [] = 0"
  by (simp add: decVal_def)

lemma decVal_nonneg [simp]: "0 \<le> decVal ds"
  by (induction ds rule: rev_induct) simp_all

lemma showNat_digits [simp]: "showNat n \<noteq> []" "list_all isDigit (showNat n)" "decVal (showNat n) = int n"
proof -
  have "showNat n \<noteq> [] \<and> list_all isDigit (showNat n) \<and> decVal (showNat n) = int n"
  proof (induction n rule: showNat.induct)
    case (1 n)
    show ?case
    proof (cases "n < 10")
      case True
      then show ?thesis by (simp add: showNat.simps [of n] decVal_def)
    next
      case False
      then have "showNat n = showNat (n div 10) @ [digitChar (n mod 10)]" by (subst showNat.simps) simp
      moreover have "10 * int (n div 10) + int (n mod 10) = int n" by presburger
      ultimately show ?thesis using 1 [OF False] by simp
    qed
  qed
  then show "showNat n \<noteq> []" "list_all isDigit (showNat n)" "decVal (showNat n) = int n" by auto
qed

lemma isDigit_not_sign: "isDigit c \<Longrightarrow> c \<noteq> CHR ''-'' \<and> c \<noteq> CHR ''+''"
  by (auto simp: isDigit_def byte_def)

lemma Atoi_digits:
  assumes "ds \<noteq> []" and "list_all isDigit ds" and "decVal ds \<le> maxInt"
  shows "Atoi ds = Some (decVal ds)"
proof -
  have "isDigit (hd ds)" using assms(1,2) by (cases ds) auto
  then show ?thesis using assms isDigit_not_sign [of "hd ds"] by (auto simp: Atoi_def Let_def minInt_def) (smt (verit) decVal_nonneg)
qed

lemma Atoi_Itoa: "minInt \<le> n \<Longrightarrow> n \<le> maxInt \<Longrightarrow> Atoi (Itoa n) = Some n"
  by (auto simp: Itoa_def Atoi_digits) (simp add: Atoi_def Let_def)

lemma Itoa_digits: "0 \<le> n \<Longrightarrow> list_all isDigit (Itoa n) \<and> Itoa n \<noteq> []"
  by (simp add: Itoa_def)

lemma splitAt_not_Nil [simp]: "splitAt c s \<noteq> []"
  by (induction s) (auto split: list.splits)

lemma splitAt_append: "c \<notin> set p \<Longrightarrow> splitAt c (p @ c # s) = p # splitAt c s"
  by (induction p) auto

lemma splitAt_single: "c \<notin> set p \<Longrightarrow> splitAt c p = [p]"
  by (induction p) auto

lemma splitAt_pieces: "p \<in> set (splitAt c s) \<Longrightarrow> c \<notin> set p \<and> set p \<subseteq> set s"
  by (induction s arbitrary: p) (fastforce split: if_splits list.splits)+

lemma takeWhile_upto: "c \<notin> set p \<Longrightarrow> takeWhile (\<lambda>x. x \<noteq> c) (p @ c # s) = p"
  by (induction p) auto

lemma containsStr_iff: "containsStr s sub \<longleftrightarrow> (\<exists>a b. s = a @ sub @ b)"
proof (induction s)
  case (Cons x xs)
  have "(\<exists>a b. x # xs = a @ sub @ b) \<longleftrightarrow> prefix sub (x # xs) \<or> (\<exists>a b. xs = a @ sub @ b)"
    by (auto simp: prefix_def Cons_eq_append_conv)
  then show ?case using Cons by simp
qed auto

subsection \<open>Decoding and writing runes\<close>

text \<open>Bytes that decode to one rune whatever follows.\<close>

definition whole :: "nat \<times> string \<Rightarrow> bool" where
  "whole x \<longleftrightarrow> snd x \<noteq> [] \<and> (\<forall>t. firstRune (snd x @ t) = (fst x, length (snd x)))"

lemma runes_append: "whole x \<Longrightarrow> runes (snd x @ t) = x # runes t"
  by (subst runes.simps) (auto simp: whole_def)

lemma runes_runeBytes: "list_all whole rs \<Longrightarrow> runes (runeBytes rs) = rs"
  by (induction rs) (auto simp: runeBytes_def runes_append)

lemma whole_ascii: "byte c < 0x80 \<Longrightarrow> whole (byte c, [c])"
  by (simp add: whole_def firstRune_def)

text \<open>A rune that is not the replacement of an invalid byte does not depend on what follows it.\<close>

lemma decodeRune_local:
  assumes "decodeRune bs = (r, n)" and "r \<noteq> runeError"
  shows "decodeRune (take n bs @ t) = (r, n)"
  using assms by (cases bs rule: decodeRune.cases) (auto split: list.splits if_splits)

lemma firstRune_local:
  assumes "firstRune s = (r, n)" and "r \<noteq> runeError"
  shows "firstRune (take n s @ t) = (r, n)"
proof -
  have d: "decodeRune (map byte (take 4 s)) = (r, n)" using assms(1) by (simp add: firstRune_def)
  then have "s \<noteq> []" using assms(2) by auto
  then have n: "n \<le> 4" using decodeRune_width [of "map byte (take 4 s)"] d by simp
  have "map byte (take 4 (take n s @ t)) = take n (map byte (take 4 s)) @ map byte (take (4 - n) t)"
    using n firstRune_width [of s] assms(1) \<open>s \<noteq> []\<close> by (auto simp: take_map min_def)
  then show ?thesis using decodeRune_local [OF d assms(2)] by (simp add: firstRune_def)
qed

lemma runes_whole: "x \<in> set (runes s) \<Longrightarrow> fst x \<noteq> runeError \<Longrightarrow> whole x"
proof (induction s rule: runes.induct)
  case (1 s)
  obtain r n where f: "firstRune s = (r, n)" by fastforce
  show ?case
  proof (cases "s = []")
    case False
    then have "x = (r, take n s) \<or> x \<in> set (runes (drop n s))"
      using "1.prems"(1) f by (subst (asm) runes.simps) simp
    then show ?thesis
    proof
      assume x: "x = (r, take n s)"
      then show ?thesis
        using firstRune_local [OF f] firstRune_width [OF False] f "1.prems"(2) by (auto simp: whole_def)
    next
      assume "x \<in> set (runes (drop n s))"
      then show ?thesis using "1.IH" [OF False f [symmetric] refl] "1.prems"(2) by simp
    qed
  qed (use "1.prems" in simp)
qed

subsection \<open>ASCII text\<close>

definition ascii :: "string \<Rightarrow> bool" where "ascii s \<longleftrightarrow> list_all (\<lambda>c. byte c < 0x80) s"

lemma runes_ascii: "ascii s \<Longrightarrow> runes s = map (\<lambda>c. (byte c, [c])) s"
proof (induction s)
  case (Cons c s)
  then show ?case using runes_append [OF whole_ascii, of c s] by (simp add: ascii_def)
qed simp

lemma isDigit_ascii: "list_all isDigit s \<Longrightarrow> ascii s"
  by (induction s) (auto simp: ascii_def isDigit_def)

lemma isDigit_not_space: "isDigit c \<Longrightarrow> \<not> isSpace (byte c)"
  by (auto simp: isDigit_def isSpace_def)

lemma dropWhile_ends:
  assumes "xs = [] \<or> \<not> P (hd xs) \<and> \<not> P (last xs)"
  shows "rev (dropWhile P (rev (dropWhile P xs))) = xs"
proof (cases xs)
  case (Cons x ys)
  then have "dropWhile P xs = xs" using assms by simp
  moreover have "dropWhile P (rev xs) = rev xs"
    using assms Cons by (cases "rev xs") (auto simp: hd_rev [symmetric])
  ultimately show ?thesis by simp
qed simp

lemma TrimSpace_id:
  assumes "ascii s" and "s = [] \<or> \<not> isSpace (byte (hd s)) \<and> \<not> isSpace (byte (last s))"
  shows "TrimSpace s = s"
proof -
  have "trimRunes isSpace (runes s) = runes s"
    unfolding trimRunes_def by (rule dropWhile_ends) (use assms in \<open>auto simp: runes_ascii hd_map last_map\<close>)
  then show ?thesis by (simp add: TrimSpace_def)
qed

lemma TrimSpace_digits: "list_all isDigit s \<Longrightarrow> TrimSpace s = s"
  by (rule TrimSpace_id)
    (auto simp: isDigit_ascii list_all_iff intro!: isDigit_not_space)

subsection \<open>Trimming keeps a middle part\<close>

lemma dropWhile_suffix: "\<exists>p. xs = p @ dropWhile P xs"
  by (metis takeWhile_dropWhile_id)

lemma trimRunes_subset: "set (trimRunes f rs) \<subseteq> set rs"
  unfolding trimRunes_def by (auto dest!: set_dropWhileD)

end

