(* ===== verification/Targets_Model.thy ===== *)
theory Targets_Model
  imports Prelude
begin

text \<open>
  The data of \<^verbatim>\<open>internal/check/check.go\<close>: a monitored target and the result of one
  check. A row of the \<^verbatim>\<open>targets\<close> table and the Go struct share their columns and differ
  in how they hold the two time stamps, so both extend one record of columns.
\<close>

definition KindHTTP :: string where "KindHTTP = ''http''"
definition KindTCP :: string where "KindTCP = ''tcp''"
definition KindFiveM :: string where "KindFiveM = ''fivem''"

lemmas kind_defs = KindHTTP_def KindTCP_def KindFiveM_def

record target_cols =
  ID :: int
  Name :: string
  Kind :: string
  Address :: string
  ExpectStatus :: string
  Keyword :: string
  ConnectTo :: string
  IntervalS :: int
  TimeoutMs :: int
  FailThreshold :: int
  Public :: bool
  Paused :: bool
  Sort :: int

record Target = target_cols +
  CreatedAt :: time
  UpdatedAt :: time

record target_row = target_cols +
  t_created :: int
  t_updated :: int

record Result =
  res_OK :: bool
  res_LatencyMs :: int
  res_StatusCode :: int
  res_Err :: string
  res_Players :: "int option"
  res_MaxPlayers :: "int option"
  res_Version :: string

end
