(* ===== verification/Checker.thy ===== *)
theory Checker
  imports Go_Strings Targets_Model
begin

text \<open>
  The checks of \<^verbatim>\<open>internal/check\<close>: \<^verbatim>\<open>check.go\<close>, \<^verbatim>\<open>http.go\<close>, \<^verbatim>\<open>tcp.go\<close> and \<^verbatim>\<open>fivem.go\<close>. What the network
  answers is the argument \<open>net\<close>: whether a request can be built for an address, what the HTTP client
  and the dialer return and after how long, and what the JSON decoder makes of a stream. A check asks
  each address at most once, so one function per check describes the network. An error is known by
  the tests that \<^verbatim>\<open>errText\<close> makes on its chain.
\<close>

section \<open>Errors\<close>

record go_err =
  is_blocked :: bool
  is_deadline :: bool
  is_timeout :: bool
  is_refused :: bool
  is_dns :: bool
  is_cert :: bool
  is_syntax :: bool
  is_type :: bool
  is_eof :: bool

text \<open>The German messages hold the umlaut as its two bytes.\<close>

definition ue :: string where "ue = [CHR 0xC3, CHR 0xBC]"
definition oe :: string where "oe = [CHR 0xC3, CHR 0xB6]"

definition errText :: "go_err \<Rightarrow> string" where
  "errText e =
     (if is_blocked e then ''ziel gesperrt''
      else if is_deadline e \<or> is_timeout e then ''zeit'' @ ue @ ''berschreitung''
      else if is_refused e then ''verbindung abgelehnt''
      else if is_dns e then ''name nicht aufl'' @ oe @ ''sbar''
      else if is_cert e then ''zertifikat ung'' @ ue @ ''ltig''
      else if is_syntax e \<or> is_type e \<or> is_eof e then ''antwort ung'' @ ue @ ''ltig''
      else ''verbindungsfehler'')"

section \<open>The network\<close>

text \<open>A body delivers bytes and then ends, or breaks with an error.\<close>

type_synonym stream = "string \<times> go_err option"

record response =
  rs_StatusCode :: int
  rs_Body :: stream
  rs_First :: duration

record fivemInfo =
  fi_Server :: string
  fi_MaxClients :: string

record network =
  newRequest :: "string \<Rightarrow> go_err option"
  clientDo :: "string \<Rightarrow> string \<Rightarrow> (go_err \<times> duration) + response"
  dialTCP :: "string \<Rightarrow> go_err option \<times> duration"
  decodeInfo :: "stream \<Rightarrow> go_err + fivemInfo"
  decodePlayers :: "stream \<Rightarrow> go_err + nat"
  infoTime :: duration

definition millis :: "duration \<Rightarrow> int" where "millis d = d sdiv 1000000"

text \<open>\<^verbatim>\<open>io.LimitReader\<close>: behind the limit the stream ends without an error.\<close>

definition limitReader :: "nat \<Rightarrow> stream \<Rightarrow> stream" where
  "limitReader n s = (case s of (b, e) \<Rightarrow> if n \<le> length b then (take n b, None) else (b, e))"

definition readAll :: "stream \<Rightarrow> go_err + string" where
  "readAll s = (case s of (b, None) \<Rightarrow> Inr b | (b, Some e) \<Rightarrow> Inl e)"

section \<open>Expected status codes\<close>

record statusRange =
  lo :: int
  hi :: int

definition parsePart :: "string \<Rightarrow> statusRange option" where
  "parsePart part =
     (let (l, h, isRange) = cutAt (CHR ''-'') (TrimSpace part) in
      case Atoi (TrimSpace l) of
        None \<Rightarrow> None
      | Some a \<Rightarrow>
          (case (if isRange then Atoi (TrimSpace h) else Some a) of
             None \<Rightarrow> None
           | Some b \<Rightarrow> if a < 100 \<or> 599 < b \<or> b < a then None else Some \<lparr>lo = a, hi = b\<rparr>))"

fun parseParts :: "string list \<Rightarrow> statusRange list option" where
  "parseParts [] = Some []"
| "parseParts (p # ps) =
     (case parsePart p of
        None \<Rightarrow> None
      | Some r \<Rightarrow> (case parseParts ps of None \<Rightarrow> None | Some rs \<Rightarrow> Some (r # rs)))"

definition parseStatus :: "string \<Rightarrow> statusRange list option" where
  "parseStatus s = parseParts (splitAt (CHR '','') s)"

fun statusOK :: "statusRange list \<Rightarrow> int \<Rightarrow> bool" where
  "statusOK [] code \<longleftrightarrow> False"
| "statusOK (r # rs) code \<longleftrightarrow> lo r \<le> code \<and> code \<le> hi r \<or> statusOK rs code"

section \<open>HTTP\<close>

definition maxBody :: nat where "maxBody = 2 ^ 20"

definition failed :: "int \<Rightarrow> int \<Rightarrow> string \<Rightarrow> Result" where
  "failed ms code err = \<lparr>res_OK = False, res_LatencyMs = ms, res_StatusCode = code, res_Err = err,
     res_Players = None, res_MaxPlayers = None, res_Version = []\<rparr>"

definition statusText :: "int \<Rightarrow> string" where "statusText code = ''status '' @ Itoa code"

definition checkHTTP :: "network \<Rightarrow> 'a target_cols_scheme \<Rightarrow> Result" where
  "checkHTTP net t =
     (case parseStatus (ExpectStatus t) of
        None \<Rightarrow> failed 0 0 (''statusangabe ung'' @ ue @ ''ltig'')
      | Some ranges \<Rightarrow>
          if newRequest net (Address t) \<noteq> None then failed 0 0 (''adresse ung'' @ ue @ ''ltig'')
          else (case clientDo net (ConnectTo t) (Address t) of
            Inl (e, d) \<Rightarrow> failed (millis d) 0 (errText e)
          | Inr resp \<Rightarrow>
              let res = failed (millis (rs_First resp)) (rs_StatusCode resp) [] in
              if \<not> statusOK ranges (rs_StatusCode resp) then res\<lparr>res_Err := statusText (rs_StatusCode resp)\<rparr>
              else if Keyword t \<noteq> []
              then (case readAll (limitReader maxBody (rs_Body resp)) of
                      Inl e \<Rightarrow> res\<lparr>res_Err := errText e\<rparr>
                    | Inr body \<Rightarrow> if \<not> containsStr body (Keyword t) then res\<lparr>res_Err := ''stichwort fehlt''\<rparr>
                                 else res\<lparr>res_OK := True\<rparr>)
              else res\<lparr>res_OK := True\<rparr>))"

section \<open>TCP\<close>

definition checkTCP :: "network \<Rightarrow> 'a target_cols_scheme \<Rightarrow> Result" where
  "checkTCP net t =
     (case dialTCP net (Address t) of
        (Some e, d) \<Rightarrow> failed (millis d) 0 (errText e)
      | (None, d) \<Rightarrow> (failed (millis d) 0 [])\<lparr>res_OK := True\<rparr>)"

section \<open>FiveM\<close>

definition fivemLimit :: nat where "fivemLimit = 256 * 2 ^ 10"
definition maxVersion :: nat where "maxVersion = 64"

datatype json_err = ErrStatus | ErrOther go_err

definition getJSON :: "network \<Rightarrow> string \<Rightarrow> string \<Rightarrow> (stream \<Rightarrow> go_err + 'v) \<Rightarrow> int \<times> (json_err + 'v)" where
  "getJSON net connectTo url decode =
     (case newRequest net url of
        Some e \<Rightarrow> (0, Inl (ErrOther e))
      | None \<Rightarrow>
          (case clientDo net connectTo url of
             Inl (e, _) \<Rightarrow> (0, Inl (ErrOther e))
           | Inr resp \<Rightarrow>
               if rs_StatusCode resp \<noteq> 200 then (rs_StatusCode resp, Inl ErrStatus)
               else (rs_StatusCode resp,
                 case decode (limitReader fivemLimit (rs_Body resp)) of Inl e \<Rightarrow> Inl (ErrOther e) | Inr v \<Rightarrow> Inr v)))"

text \<open>\<^verbatim>\<open>hidden\<close> of \<^verbatim>\<open>validate.go\<close>: control and format characters.\<close>

definition hidden :: "nat \<Rightarrow> bool" where "hidden r \<longleftrightarrow> isControl r \<or> isFormat r"

text \<open>\<^verbatim>\<open>strings.Map\<close> writes an invalid byte as the replacement rune.\<close>

definition mapDrop :: "(nat \<Rightarrow> bool) \<Rightarrow> (nat \<times> string) list \<Rightarrow> (nat \<times> string) list" where
  "mapDrop f rs = map (\<lambda>(r, bs). (r, if r = runeError then [CHR 0xEF, CHR 0xBF, CHR 0xBD] else bs)) (filter (\<lambda>x. \<not> f (fst x)) rs)"

definition version :: "string \<Rightarrow> string" where
  "version s =
     (let s1 = TrimSpace (runeBytes (mapDrop hidden (runes s))); r = runes s1
      in if maxVersion < length r then runeBytes (take maxVersion r) else s1)"

definition trimQuotes :: "string \<Rightarrow> string" where
  "trimQuotes s = rev (dropWhile (\<lambda>c. c = CHR 0x22) (rev (dropWhile (\<lambda>c. c = CHR 0x22) s)))"

definition checkFiveM :: "network \<Rightarrow> 'a target_cols_scheme \<Rightarrow> Result" where
  "checkFiveM net t =
     (let b = ''http://'' @ Address t; (status, r) = getJSON net (ConnectTo t) (b @ ''/info.json'') (decodeInfo net);
          res = failed (millis (infoTime net)) status []
      in case r of
           Inl ErrStatus \<Rightarrow> res\<lparr>res_Err := statusText status\<rparr>
         | Inl (ErrOther e) \<Rightarrow> res\<lparr>res_Err := errText e\<rparr>
         | Inr info \<Rightarrow>
             if fi_Server info = [] then res\<lparr>res_Err := ''antwort ung'' @ ue @ ''ltig''\<rparr>
             else res\<lparr>res_OK := True, res_Version := version (fi_Server info),
                      res_MaxPlayers := (case Atoi (trimQuotes (fi_MaxClients info)) of
                        Some n \<Rightarrow> if 0 \<le> n \<and> n \<le> 2048 then Some n else None | None \<Rightarrow> None),
                      res_Players := (case snd (getJSON net (ConnectTo t) (b @ ''/players.json'') (decodePlayers net)) of
                        Inr n \<Rightarrow> Some (int n) | Inl _ \<Rightarrow> None)\<rparr>)"

section \<open>A check\<close>

definition Run :: "network \<Rightarrow> 'a target_cols_scheme \<Rightarrow> Result" where
  "Run net t =
     (if Kind t = KindHTTP then checkHTTP net t
      else if Kind t = KindTCP then checkTCP net t
      else if Kind t = KindFiveM then checkFiveM net t
      else failed 0 0 ''unbekannte art'')"

section \<open>The notation of status codes\<close>

definition ranges_ok :: "statusRange list \<Rightarrow> bool" where
  "ranges_ok rs \<longleftrightarrow> rs \<noteq> [] \<and> (\<forall>r \<in> set rs. 100 \<le> lo r \<and> lo r \<le> hi r \<and> hi r \<le> 599)"

definition printRange :: "statusRange \<Rightarrow> string" where
  "printRange r = (if lo r = hi r then Itoa (lo r) else Itoa (lo r) @ CHR ''-'' # Itoa (hi r))"

fun printStatus :: "statusRange list \<Rightarrow> string" where
  "printStatus [] = []"
| "printStatus [r] = printRange r"
| "printStatus (r # rs) = printRange r @ CHR '','' # printStatus rs"

lemma parsePart_ok: "parsePart p = Some r \<Longrightarrow> 100 \<le> lo r \<and> lo r \<le> hi r \<and> hi r \<le> 599"
  by (auto simp: parsePart_def split: option.splits if_splits prod.splits)

lemma parseParts_ok: "parseParts ps = Some rs \<Longrightarrow> length rs = length ps \<and> (\<forall>r \<in> set rs. 100 \<le> lo r \<and> lo r \<le> hi r \<and> hi r \<le> 599)"
  by (induction ps arbitrary: rs) (auto split: option.splits dest: parsePart_ok)

lemma parseStatus_ok: "parseStatus s = Some rs \<Longrightarrow> ranges_ok rs"
  using parseParts_ok [of "splitAt (CHR '','') s" rs] by (auto simp: parseStatus_def ranges_ok_def)

lemma digits_separators: "list_all isDigit s \<Longrightarrow> CHR ''-'' \<notin> set s \<and> CHR '','' \<notin> set s"
  by (auto simp: list_all_iff isDigit_def byte_def)

lemma cutAt_none: "c \<notin> set s \<Longrightarrow> cutAt c s = (s, [], False)"
  unfolding cutAt_def by (induction s) auto

lemma cutAt_append: "c \<notin> set p \<Longrightarrow> cutAt c (p @ c # s) = (p, s, True)"
  unfolding cutAt_def by (induction p) auto

lemma parsePart_printRange:
  assumes "100 \<le> lo r" and "lo r \<le> hi r" and "hi r \<le> 599"
  shows "parsePart (printRange r) = Some r" and "CHR '','' \<notin> set (printRange r)"
proof -
  have d: "list_all isDigit (Itoa n)" "Itoa n \<noteq> []" "TrimSpace (Itoa n) = Itoa n" "CHR ''-'' \<notin> set (Itoa n)"
    "CHR '','' \<notin> set (Itoa n)" if "100 \<le> n" for n
    using Itoa_digits [of n] that digits_separators [of "Itoa n"] TrimSpace_digits [of "Itoa n"] by auto
  have n: "Atoi (Itoa n) = Some n" if "100 \<le> n" "n \<le> 599" for n
    using that by (intro Atoi_Itoa) (auto simp: minInt_def maxInt_def)
  have m: "100 \<le> hi r" "lo r \<le> 599" using assms by auto
  note lo = d [OF assms(1)] n [OF assms(1) m(2)] and hi = d [OF m(1)] n [OF m(1) assms(3)]
  have dig: "\<not> isSpace (byte (hd (Itoa (lo r))))" "\<not> isSpace (byte (last (Itoa (hi r))))"
    using lo(1,2) hi(1,2) by (auto simp: list_all_iff intro!: isDigit_not_space)
  have "ascii (Itoa (lo r) @ CHR ''-'' # Itoa (hi r))"
    using isDigit_ascii [OF lo(1)] isDigit_ascii [OF hi(1)] by (auto simp: ascii_def byte_def)
  then have trim: "TrimSpace (Itoa (lo r) @ CHR ''-'' # Itoa (hi r)) = Itoa (lo r) @ CHR ''-'' # Itoa (hi r)"
    by (rule TrimSpace_id) (use dig lo(2) hi(2) in auto)
  show "parsePart (printRange r) = Some r"
    using assms m lo hi
    by (simp add: parsePart_def printRange_def trim cutAt_none cutAt_append)
  show "CHR '','' \<notin> set (printRange r)" using lo(5) hi(5) by (simp add: printRange_def)
qed

lemma parseStatus_printStatus: "ranges_ok rs \<Longrightarrow> parseStatus (printStatus rs) = Some rs"
proof (induction rs rule: printStatus.induct)
  case (2 r)
  then show ?case
    using parsePart_printRange [of r] by (simp add: parseStatus_def ranges_ok_def splitAt_single)
next
  case (3 r r' rs)
  then have "parseStatus (printStatus (r' # rs)) = Some (r' # rs)" by (simp add: ranges_ok_def)
  then show ?case
    using parsePart_printRange [of r] "3.prems" by (simp add: parseStatus_def ranges_ok_def splitAt_append)
qed (simp add: ranges_ok_def)

text \<open>Every list of codes and ranges between 100 and 599 can be written down, codes alone and
  ranges with a dash, separated by commas, and is read back as it was; and whatever text is accepted,
  the ranges read from it are not empty, in order and within these bounds.\<close>

lemma parse_status_roundtrip:
  "(ranges_ok rs \<longrightarrow> parseStatus (printStatus rs) = Some rs) \<and> (parseStatus s = Some rs' \<longrightarrow> ranges_ok rs')"
  using parseStatus_printStatus parseStatus_ok by blast

section \<open>The verdict of a check\<close>

lemma statusOK_iff: "statusOK rs code \<longleftrightarrow> (\<exists>r \<in> set rs. lo r \<le> code \<and> code \<le> hi r)"
  by (induction rs) auto

lemma errText_nonempty [simp]: "errText e \<noteq> []"
  by (simp add: errText_def)

lemma statusText_nonempty [simp]: "statusText n \<noteq> []"
  by (simp add: statusText_def)

text \<open>The bytes of a body that are searched for the keyword, if they arrive.\<close>

definition seen_body :: "response \<Rightarrow> string option" where
  "seen_body resp = (if maxBody \<le> length (fst (rs_Body resp)) then Some (take maxBody (fst (rs_Body resp)))
     else if snd (rs_Body resp) = None then Some (fst (rs_Body resp)) else None)"

lemma readAll_limit:
  "readAll (limitReader maxBody (rs_Body resp)) =
     (case seen_body resp of Some b \<Rightarrow> Inr b | None \<Rightarrow> Inl (the (snd (rs_Body resp))))"
  by (auto simp: readAll_def limitReader_def seen_body_def split: prod.splits option.splits)

text \<open>C25: An HTTP target is up exactly when its status codes are well-formed, a request can be built
  for its address, the server answers with a code that one of the ranges contains, and, if a keyword
  is set, it occurs within the first MiB of a body that arrived that far. Whatever happens, a result
  is either a success without an error text or a failure with one.\<close>

theorem http_verdict:
  "(res_OK (checkHTTP net t) \<longleftrightarrow>
      (\<exists>rs resp. parseStatus (ExpectStatus t) = Some rs \<and> newRequest net (Address t) = None \<and>
         clientDo net (ConnectTo t) (Address t) = Inr resp \<and>
         (\<exists>r \<in> set rs. lo r \<le> rs_StatusCode resp \<and> rs_StatusCode resp \<le> hi r) \<and>
         (Keyword t = [] \<or> (\<exists>a b. seen_body resp = Some (a @ Keyword t @ b))))) \<and>
   (res_OK (checkHTTP net t) \<longleftrightarrow> res_Err (checkHTTP net t) = [])"
proof (cases "parseStatus (ExpectStatus t)")
  case (Some rs)
  show ?thesis
  proof (cases "newRequest net (Address t) = None")
    case True
    show ?thesis
    proof (cases "clientDo net (ConnectTo t) (Address t)")
      case (Inl e)
      then show ?thesis using Some True by (auto simp: checkHTTP_def failed_def split: prod.splits)
    next
      case (Inr resp)
      then show ?thesis
        using Some True
        by (auto simp: checkHTTP_def failed_def statusOK_iff readAll_limit containsStr_iff Let_def
            split: option.splits)
    qed
  qed (use Some in \<open>simp add: checkHTTP_def failed_def\<close>)
qed (simp add: checkHTTP_def failed_def)

lemma whole_error: "whole (runeError, [CHR 0xEF, CHR 0xBF, CHR 0xBD])"
  by (simp add: whole_def firstRune_def byte_def runeError_def cont_def)

lemma mapDrop_whole: "list_all whole (mapDrop f (runes s))"
  by (auto simp: mapDrop_def list_all_iff whole_error dest: runes_whole)

lemma mapDrop_visible: "x \<in> set (mapDrop f rs) \<Longrightarrow> \<not> f (fst x)"
  by (auto simp: mapDrop_def)

lemma runes_version:
  "runes (version s) = take maxVersion (trimRunes isSpace (mapDrop hidden (runes s)))"
proof -
  let ?rs = "trimRunes isSpace (mapDrop hidden (runes s))"
  have "list_all whole ?rs"
    using mapDrop_whole [of hidden s] trimRunes_subset [of isSpace "mapDrop hidden (runes s)"]
    by (auto simp: list_all_iff)
  moreover from this have "list_all whole (take maxVersion ?rs)"
    by (metis append_take_drop_id list_all_append)
  ultimately have all: "runes (runeBytes ?rs) = ?rs" "runes (runeBytes (take maxVersion ?rs)) = take maxVersion ?rs"
    by (simp_all add: runes_runeBytes)
  have "TrimSpace (runeBytes (mapDrop hidden (runes s))) = runeBytes ?rs"
    by (simp add: TrimSpace_def runes_runeBytes mapDrop_whole)
  then show ?thesis using all by (simp add: version_def Let_def)
qed

lemma version_clean: "runeCount (version s) \<le> 64 \<and> \<not> containsFunc (version s) hidden"
proof -
  have "set (runes (version s)) \<subseteq> set (mapDrop hidden (runes s))"
    unfolding runes_version by (rule order_trans [OF set_take_subset trimRunes_subset])
  then have "\<forall>x \<in> set (runes (version s)). \<not> hidden (fst x)" using mapDrop_visible by blast
  then show ?thesis
    by (simp add: runeCount_def containsFunc_def list_ex_iff) (simp add: runes_version maxVersion_def)
qed

text \<open>What every result of a check satisfies.\<close>

definition result_ok :: "Result \<Rightarrow> bool" where
  "result_ok r \<longleftrightarrow>
     (res_OK r \<longleftrightarrow> res_Err r = []) \<and> (\<forall>n. res_Players r = Some n \<longrightarrow> 0 \<le> n) \<and>
     (\<forall>n. res_MaxPlayers r = Some n \<longrightarrow> 0 \<le> n \<and> n \<le> 2048) \<and>
     runeCount (res_Version r) \<le> 64 \<and> \<not> containsFunc (res_Version r) hidden"

lemma result_ok_plain:
  "res_Players r = None \<Longrightarrow> res_MaxPlayers r = None \<Longrightarrow> res_Version r = [] \<Longrightarrow> result_ok r \<longleftrightarrow> (res_OK r \<longleftrightarrow> res_Err r = [])"
  by (simp add: result_ok_def runeCount_def containsFunc_def)

lemma checkHTTP_plain:
  "res_Players (checkHTTP net t) = None \<and> res_MaxPlayers (checkHTTP net t) = None \<and> res_Version (checkHTTP net t) = []"
  by (auto simp: checkHTTP_def failed_def Let_def split: option.splits sum.splits)

lemma checkTCP_plain:
  "res_Players (checkTCP net t) = None \<and> res_MaxPlayers (checkTCP net t) = None \<and> res_Version (checkTCP net t) = [] \<and>
   (res_OK (checkTCP net t) \<longleftrightarrow> res_Err (checkTCP net t) = [])"
  by (auto simp: checkTCP_def failed_def split: option.splits prod.splits)

lemma checkHTTP_err: "res_OK (checkHTTP net t) \<longleftrightarrow> res_Err (checkHTTP net t) = []"
  by (auto simp: checkHTTP_def failed_def Let_def split: option.splits sum.splits)

lemma checkFiveM_ok: "result_ok (checkFiveM net t)"
proof -
  have "result_ok (checkFiveM net t)" if "getJSON net (ConnectTo t) (''http://'' @ Address t @ ''/info.json'') (decodeInfo net) = (status, Inr info)"
      "fi_Server info \<noteq> []" for status info
    using that version_clean [of "fi_Server info"]
    by (auto simp: checkFiveM_def result_ok_def failed_def Let_def split: option.splits sum.splits)
  moreover have "result_ok (checkFiveM net t)" if "getJSON net (ConnectTo t) (''http://'' @ Address t @ ''/info.json'') (decodeInfo net) = (status, r)"
      "\<And>info. r = Inr info \<Longrightarrow> fi_Server info = []" for status r
  proof -
    have "res_Players (checkFiveM net t) = None \<and> res_MaxPlayers (checkFiveM net t) = None \<and> res_Version (checkFiveM net t) = [] \<and>
      \<not> res_OK (checkFiveM net t) \<and> res_Err (checkFiveM net t) \<noteq> []"
      using that by (auto simp: checkFiveM_def failed_def Let_def split: sum.splits json_err.splits)
    then show ?thesis by (simp add: result_ok_plain)
  qed
  ultimately show ?thesis by (metis surj_pair)
qed

text \<open>C26: Whatever the network answers, the result of a check is a success without an error text or a
  failure with one, the numbers of players are not negative, a maximum is at most 2048, and a version
  has at most 64 characters, none of them a control or format character.\<close>

theorem run_result: "result_ok (Run net t)"
  using checkFiveM_ok [of net t] checkHTTP_err [of net t] checkHTTP_plain [of net t] checkTCP_plain [of net t]
  by (simp add: Run_def result_ok_plain) (simp add: failed_def result_ok_plain)

end
