(* ===== verification/Dial.thy ===== *)
theory Dial
  imports Prelude
begin

unbundle bit_operations_syntax

text \<open>
  The address filter of \<^verbatim>\<open>internal/check/dial.go\<close>: which addresses a check may connect to. An
  address is Go's \<^verbatim>\<open>netip.Addr\<close>; its methods and \<^verbatim>\<open>Prefix.Contains\<close> are modelled on 32 and 128 bit
  words. The theorems restate the filter as plain intervals of addresses.
\<close>

section \<open>Addresses and prefixes\<close>

datatype addr = NoAddr | V4 "32 word" | V6 "128 word" string

datatype prefix = P4 "32 word" nat | P6 "128 word" nat

text \<open>The first \<open>n\<close> bits agree; an address with a zone is in no prefix.\<close>

fun prefix_contains :: "prefix \<Rightarrow> addr \<Rightarrow> bool" where
  "prefix_contains (P4 b n) (V4 a) = (drop_bit (32 - n) a = drop_bit (32 - n) b)"
| "prefix_contains (P6 b n) (V6 a zone) = (zone = [] \<and> drop_bit (128 - n) a = drop_bit (128 - n) b)"
| "prefix_contains _ _ = False"

fun withoutZone :: "addr \<Rightarrow> addr" where
  "withoutZone (V6 a zone) = V6 a []"
| "withoutZone ip = ip"

fun unmap :: "addr \<Rightarrow> addr" where
  "unmap (V6 a zone) = (if drop_bit 32 a = 0xffff then V4 (ucast a) else V6 a zone)"
| "unmap ip = ip"

fun as16 :: "addr \<Rightarrow> 128 word" where
  "as16 NoAddr = 0"
| "as16 (V4 a) = push_bit 32 0xffff OR ucast a"
| "as16 (V6 a zone) = a"

fun isUnspecified :: "addr \<Rightarrow> bool" where
  "isUnspecified (V4 a) = (a = 0)"
| "isUnspecified (V6 a zone) = (a = 0 \<and> zone = [])"
| "isUnspecified NoAddr = False"

fun isLoopback :: "addr \<Rightarrow> bool" where
  "isLoopback (V4 a) = (drop_bit 24 a = 127)"
| "isLoopback (V6 a zone) = (a = 1)"
| "isLoopback NoAddr = False"

fun isLinkLocalUnicast :: "addr \<Rightarrow> bool" where
  "isLinkLocalUnicast (V4 a) = (drop_bit 16 a = 0xa9fe)"
| "isLinkLocalUnicast (V6 a zone) = (drop_bit 118 a = 0x3fa)"
| "isLinkLocalUnicast NoAddr = False"

fun isMulticast :: "addr \<Rightarrow> bool" where
  "isMulticast (V4 a) = (drop_bit 28 a = 0xe)"
| "isMulticast (V6 a zone) = (drop_bit 120 a = 0xff)"
| "isMulticast NoAddr = False"

fun isPrivate :: "addr \<Rightarrow> bool" where
  "isPrivate (V4 a) = (drop_bit 24 a = 10 \<or> drop_bit 20 a = 0xac1 \<or> drop_bit 16 a = 0xc0a8)"
| "isPrivate (V6 a zone) = (drop_bit 121 a = 0x7e)"
| "isPrivate NoAddr = False"

section \<open>The filter\<close>

definition cgnat :: prefix where "cgnat = P4 0x64400000 10"
definition nat64 :: prefix where "nat64 = P6 0x0064ff9b000000000000000000000000 96"
definition sixTo4 :: prefix where "sixTo4 = P6 0x20020000000000000000000000000000 16"

definition blocked :: "prefix list" where
  "blocked =
     [P4 0x00000000 8,
      P4 0xc0000000 24,
      P4 0xc6120000 15,
      P4 0xf0000000 4,
      P6 0 96,
      P6 0x0000000000000000ffff000000000000 96,
      P6 0x20010000000000000000000000000000 32,
      P6 0xfec00000000000000000000000000000 10,
      P6 0x0064ff9b000100000000000000000000 48]"

text \<open>The address behind a translation prefix: the last four bytes, or bytes two to five.\<close>

definition embedded :: "addr \<Rightarrow> addr" where
  "embedded ip =
     (let b = as16 ip in
      if prefix_contains nat64 ip then V4 (ucast b)
      else if prefix_contains sixTo4 ip then V4 (ucast (drop_bit 80 b))
      else ip)"

definition allowed :: "addr \<Rightarrow> bool \<Rightarrow> addr list \<Rightarrow> addr list \<Rightarrow> bool" where
  "allowed ip0 loopback extra block =
     (let orig = unmap (withoutZone ip0); ip = embedded orig in
      if orig \<in> set block \<or> ip \<in> set block then False
      else if ip = NoAddr \<or> isUnspecified ip \<or> isLinkLocalUnicast ip \<or> isMulticast ip then False
      else if isLoopback ip then loopback
      else if isPrivate ip \<or> prefix_contains cgnat ip then orig \<in> set extra
      else \<not> list_ex (\<lambda>p. prefix_contains p ip) blocked)"

section \<open>Prefixes are intervals\<close>

definition in_range :: "nat \<Rightarrow> nat \<times> nat \<Rightarrow> bool" where
  "in_range n r \<longleftrightarrow> fst r \<le> n \<and> n \<le> snd r"

lemma div_interval: "0 < k \<Longrightarrow> n div k = c \<longleftrightarrow> c * k \<le> n \<and> n < c * k + (k :: nat)"
  using div_nat_eqI [of k c n] by (auto simp: algebra_simps dividend_less_times_div)

lemma drop_bit_interval:
  fixes a c :: "'a :: len word"
  assumes "unat c * 2 ^ k + 2 ^ k = hi + 1" and "unat c * 2 ^ k = lo"
  shows "drop_bit k a = c \<longleftrightarrow> in_range (unat a) (lo, hi)"
proof -
  have "drop_bit k a = c \<longleftrightarrow> unat a div 2 ^ k = unat c"
    by (simp add: word_unat_eq_iff unat_drop_bit_eq) (simp add: drop_bit_eq_div)
  also have "\<dots> \<longleftrightarrow> unat c * 2 ^ k \<le> unat a \<and> unat a < unat c * 2 ^ k + 2 ^ k"
    by (rule div_interval) simp
  also have "\<dots> \<longleftrightarrow> in_range (unat a) (lo, hi)"
    unfolding in_range_def using assms by auto
  finally show ?thesis .
qed

text \<open>The address ranges, as numbers: always refused, this host, and private networks.\<close>

definition special4 :: "(nat \<times> nat) list" where
  "special4 = [(0x00000000, 0x00ffffff), (0xa9fe0000, 0xa9feffff), (0xc0000000, 0xc00000ff),
     (0xc6120000, 0xc613ffff), (0xe0000000, 0xffffffff)]"

definition loopback4 :: "nat \<times> nat" where "loopback4 = (0x7f000000, 0x7fffffff)"

definition private4 :: "(nat \<times> nat) list" where
  "private4 = [(0x0a000000, 0x0affffff), (0x64400000, 0x647fffff), (0xac100000, 0xac1fffff), (0xc0a80000, 0xc0a8ffff)]"

lemma v4_bits:
  fixes a :: "32 word"
  shows "drop_bit 24 a = 127 \<longleftrightarrow> in_range (unat a) (0x7f000000, 0x7fffffff)"
    "drop_bit 16 a = 0xa9fe \<longleftrightarrow> in_range (unat a) (0xa9fe0000, 0xa9feffff)"
    "drop_bit 28 a = 0xe \<longleftrightarrow> in_range (unat a) (0xe0000000, 0xefffffff)"
    "drop_bit 24 a = 10 \<longleftrightarrow> in_range (unat a) (0x0a000000, 0x0affffff)"
    "drop_bit 20 a = 0xac1 \<longleftrightarrow> in_range (unat a) (0xac100000, 0xac1fffff)"
    "drop_bit 16 a = 0xc0a8 \<longleftrightarrow> in_range (unat a) (0xc0a80000, 0xc0a8ffff)"
    "drop_bit 22 a = 0x191 \<longleftrightarrow> in_range (unat a) (0x64400000, 0x647fffff)"
    "drop_bit 24 a = 0 \<longleftrightarrow> in_range (unat a) (0, 0x00ffffff)"
    "drop_bit 8 a = 0xc00000 \<longleftrightarrow> in_range (unat a) (0xc0000000, 0xc00000ff)"
    "drop_bit 17 a = 0x6309 \<longleftrightarrow> in_range (unat a) (0xc6120000, 0xc613ffff)"
    "drop_bit 28 a = 0xf \<longleftrightarrow> in_range (unat a) (0xf0000000, 0xffffffff)"
  by (rule drop_bit_interval; simp)+

lemma v4_prefixes:
  "prefix_contains cgnat (V4 a) \<longleftrightarrow> drop_bit 22 a = 0x191"
  "list_ex (\<lambda>p. prefix_contains p (V4 a)) blocked \<longleftrightarrow>
     drop_bit 24 a = 0 \<or> drop_bit 8 a = 0xc00000 \<or> drop_bit 17 a = 0x6309 \<or> drop_bit 28 a = 0xf"
  by (simp_all add: cgnat_def blocked_def)

lemma embedded_v4 [simp]: "embedded (V4 a) = V4 a"
  by (simp add: embedded_def nat64_def sixTo4_def)

text \<open>What the filter says once the block list is passed.\<close>

definition verdict :: "addr \<Rightarrow> bool \<Rightarrow> bool \<Rightarrow> bool" where
  "verdict ip loopback granted =
     (if ip = NoAddr \<or> isUnspecified ip \<or> isLinkLocalUnicast ip \<or> isMulticast ip then False
      else if isLoopback ip then loopback
      else if isPrivate ip \<or> prefix_contains cgnat ip then granted
      else \<not> list_ex (\<lambda>p. prefix_contains p ip) blocked)"

lemma allowed_verdict:
  "allowed ip loopback extra block \<longleftrightarrow>
     (let orig = unmap (withoutZone ip) in
      orig \<notin> set block \<and> embedded orig \<notin> set block \<and> verdict (embedded orig) loopback (orig \<in> set extra))"
  by (auto simp: allowed_def verdict_def Let_def)

definition open4 :: "nat \<Rightarrow> bool \<Rightarrow> bool \<Rightarrow> bool" where
  "open4 n loopback granted \<longleftrightarrow>
     (\<forall>r \<in> set special4. \<not> in_range n r) \<and> (in_range n loopback4 \<longrightarrow> loopback) \<and>
     ((\<exists>r \<in> set private4. in_range n r) \<longrightarrow> granted)"

lemma verdict_v4: "verdict (V4 a) loopback granted \<longleftrightarrow> open4 (unat a) loopback granted"
proof -
  let ?special = "\<exists>r \<in> set special4. in_range (unat a) r"
  let ?private = "\<exists>r \<in> set private4. in_range (unat a) r"
  have def: "verdict (V4 a) loopback granted \<longleftrightarrow> \<not> (a = 0 \<or> in_range (unat a) (0xa9fe0000, 0xa9feffff) \<or> in_range (unat a) (0xe0000000, 0xefffffff)) \<and>
      (if in_range (unat a) loopback4 then loopback else if ?private then granted
       else \<not> (in_range (unat a) (0, 0x00ffffff) \<or> in_range (unat a) (0xc0000000, 0xc00000ff) \<or>
         in_range (unat a) (0xc6120000, 0xc613ffff) \<or> in_range (unat a) (0xf0000000, 0xffffffff)))"
    by (simp add: verdict_def v4_prefixes v4_bits private4_def loopback4_def disj_ac)
  have zero: "a = 0 \<Longrightarrow> in_range (unat a) (0, 0x00ffffff)" by (simp add: in_range_def)
  have top: "in_range (unat a) (0xe0000000, 0xffffffff) \<longleftrightarrow>
      in_range (unat a) (0xe0000000, 0xefffffff) \<or> in_range (unat a) (0xf0000000, 0xffffffff)"
    by (auto simp: in_range_def)
  have special: "?special \<longleftrightarrow> in_range (unat a) (0, 0x00ffffff) \<or> in_range (unat a) (0xa9fe0000, 0xa9feffff) \<or>
      in_range (unat a) (0xc0000000, 0xc00000ff) \<or> in_range (unat a) (0xc6120000, 0xc613ffff) \<or>
      in_range (unat a) (0xe0000000, 0xefffffff) \<or> in_range (unat a) (0xf0000000, 0xffffffff)"
    by (simp add: special4_def top)
  have apart: "in_range (unat a) loopback4 \<Longrightarrow> \<not> ?special \<and> \<not> ?private" "?private \<Longrightarrow> \<not> ?special"
    by (auto simp: special4_def private4_def loopback4_def in_range_def)
  consider "in_range (unat a) loopback4" | "\<not> in_range (unat a) loopback4" "?private"
    | "\<not> in_range (unat a) loopback4" "\<not> ?private" by blast
  then show ?thesis
  proof cases
    case 1
    then show ?thesis using apart(1) special zero unfolding def open4_def by auto
  next
    case 2
    then show ?thesis using apart(2) special zero unfolding def open4_def by auto
  next
    case 3
    then show ?thesis using special zero unfolding def open4_def by auto
  qed
qed
text \<open>C14: An IPv4 address may be connected to exactly when it is not on the block list, lies in no
  reserved, link-local or multicast range, is of this host only where loopback is permitted, and
  of a private network only where it is explicitly granted.\<close>

theorem allowed_v4:
  "allowed (V4 a) loopback extra block \<longleftrightarrow>
     V4 a \<notin> set block \<and> (\<forall>r \<in> set special4. \<not> in_range (unat a) r) \<and>
     (in_range (unat a) loopback4 \<longrightarrow> loopback) \<and>
     ((\<exists>r \<in> set private4. in_range (unat a) r) \<longrightarrow> V4 a \<in> set extra)"
  by (simp add: allowed_verdict Let_def verdict_v4 open4_def)

theorem allowed_v4_witness:
  "allowed (V4 0x08080808) False [] [] \<and> \<not> allowed (V4 0x0a000001) True [] []"
proof -
  have "(\<forall>r \<in> set special4. \<not> in_range (unat (0x08080808 :: 32 word)) r)" "\<not> in_range (unat (0x08080808 :: 32 word)) loopback4"
    "\<not> (\<exists>r \<in> set private4. in_range (unat (0x08080808 :: 32 word)) r)"
    "\<exists>r \<in> set private4. in_range (unat (0x0a000001 :: 32 word)) r"
    by (simp_all add: special4_def loopback4_def private4_def in_range_def)
  then show ?thesis using allowed_v4 [of "0x08080808" False "[]" "[]"] allowed_v4 [of "0x0a000001" True "[]" "[]"] by simp
qed

section \<open>IPv6\<close>

definition special6 :: "(nat \<times> nat) list" where
  "special6 =
     [(0, 0xffffffff),
      (0x0000000000000000ffff000000000000, 0x0000000000000000ffff0000ffffffff),
      (0x0064ff9b000100000000000000000000, 0x0064ff9b0001ffffffffffffffffffff),
      (0x20010000000000000000000000000000, 0x20010000ffffffffffffffffffffffff),
      (0xfe800000000000000000000000000000, 0xfeffffffffffffffffffffffffffffff),
      (0xff000000000000000000000000000000, 0xffffffffffffffffffffffffffffffff)]"

definition private6 :: "nat \<times> nat" where
  "private6 = (0xfc000000000000000000000000000000, 0xfdffffffffffffffffffffffffffffff)"

definition mapped6 :: "nat \<times> nat" where "mapped6 = (0xffff00000000, 0xffffffffffff)"
definition nat64_range :: "nat \<times> nat" where
  "nat64_range = (0x0064ff9b000000000000000000000000, 0x0064ff9b0000000000000000ffffffff)"
definition sixTo4_range :: "nat \<times> nat" where
  "sixTo4_range = (0x20020000000000000000000000000000, 0x2002ffffffffffffffffffffffffffff)"

lemma v6_bits:
  fixes a :: "128 word"
  shows "drop_bit 32 a = 0xffff \<longleftrightarrow> in_range (unat a) mapped6"
    "drop_bit 32 a = 0x0064ff9b0000000000000000 \<longleftrightarrow> in_range (unat a) nat64_range"
    "drop_bit 112 a = 0x2002 \<longleftrightarrow> in_range (unat a) sixTo4_range"
    "drop_bit 118 a = 0x3fa \<longleftrightarrow> in_range (unat a) (0xfe800000000000000000000000000000, 0xfebfffffffffffffffffffffffffffff)"
    "drop_bit 118 a = 0x3fb \<longleftrightarrow> in_range (unat a) (0xfec00000000000000000000000000000, 0xfeffffffffffffffffffffffffffffff)"
    "drop_bit 120 a = 0xff \<longleftrightarrow> in_range (unat a) (0xff000000000000000000000000000000, 0xffffffffffffffffffffffffffffffff)"
    "drop_bit 121 a = 0x7e \<longleftrightarrow> in_range (unat a) private6"
    "drop_bit 32 a = 0 \<longleftrightarrow> in_range (unat a) (0, 0xffffffff)"
    "drop_bit 32 a = 0x0000000000000000ffff0000 \<longleftrightarrow>
       in_range (unat a) (0x0000000000000000ffff000000000000, 0x0000000000000000ffff0000ffffffff)"
    "drop_bit 96 a = 0x20010000 \<longleftrightarrow> in_range (unat a) (0x20010000000000000000000000000000, 0x20010000ffffffffffffffffffffffff)"
    "drop_bit 80 a = 0x0064ff9b0001 \<longleftrightarrow> in_range (unat a) (0x0064ff9b000100000000000000000000, 0x0064ff9b0001ffffffffffffffffffff)"
  unfolding mapped6_def nat64_range_def sixTo4_range_def private6_def
  by (rule drop_bit_interval; simp)+

lemma v6_prefixes:
  "prefix_contains cgnat (V6 a []) = False"
  "prefix_contains nat64 (V6 a []) \<longleftrightarrow> in_range (unat a) nat64_range"
  "prefix_contains sixTo4 (V6 a []) \<longleftrightarrow> in_range (unat a) sixTo4_range"
  "list_ex (\<lambda>p. prefix_contains p (V6 a [])) blocked \<longleftrightarrow>
     drop_bit 32 a = 0 \<or> drop_bit 32 a = 0x0000000000000000ffff0000 \<or> drop_bit 96 a = 0x20010000 \<or>
     drop_bit 118 a = 0x3fb \<or> drop_bit 80 a = 0x0064ff9b0001"
  by (simp_all add: cgnat_def nat64_def sixTo4_def blocked_def v6_bits(2,3))

lemma verdict_v6:
  "verdict (V6 a []) loopback granted \<longleftrightarrow>
     (if a = 1 then loopback
      else (\<forall>r \<in> set special6. \<not> in_range (unat a) r) \<and> (in_range (unat a) private6 \<longrightarrow> granted))"
proof -
  have one: "unat a = 1 \<longleftrightarrow> a = 1" using word_unat_eq_iff [of a 1] by simp
  have zero: "a = 0 \<Longrightarrow> in_range (unat a) (0, 0xffffffff)" by (simp add: in_range_def)
  have local: "in_range (unat a) (0xfe800000000000000000000000000000, 0xfeffffffffffffffffffffffffffffff) \<longleftrightarrow>
      in_range (unat a) (0xfe800000000000000000000000000000, 0xfebfffffffffffffffffffffffffffff) \<or>
      in_range (unat a) (0xfec00000000000000000000000000000, 0xfeffffffffffffffffffffffffffffff)"
    by (auto simp: in_range_def)
  have apart: "in_range (unat a) private6 \<Longrightarrow> r \<in> set special6 \<Longrightarrow> \<not> in_range (unat a) r" for r
    by (auto simp: special6_def private6_def in_range_def)
  have low: "a = 1 \<Longrightarrow> \<not> in_range (unat a) (0xfe800000000000000000000000000000, 0xfebfffffffffffffffffffffffffffff) \<and>
      \<not> in_range (unat a) (0xff000000000000000000000000000000, 0xffffffffffffffffffffffffffffffff)"
    by (simp add: in_range_def)
  have special: "(\<exists>r \<in> set special6. in_range (unat a) r) \<longleftrightarrow> drop_bit 32 a = 0 \<or> drop_bit 32 a = 0x0000000000000000ffff0000 \<or>
     drop_bit 80 a = 0x0064ff9b0001 \<or> drop_bit 96 a = 0x20010000 \<or> drop_bit 118 a = 0x3fa \<or> drop_bit 118 a = 0x3fb \<or> drop_bit 120 a = 0xff"
    by (simp add: special6_def local v6_bits)
  show ?thesis
  proof (cases "a = 1")
    case True
    then show ?thesis using low by (simp add: verdict_def v6_bits)
  next
    case False
    have priv: "drop_bit 121 a = 0x7e \<Longrightarrow> \<not> (\<exists>r \<in> set special6. in_range (unat a) r)"
      using apart by (auto simp: v6_bits)
    have "a = 0 \<Longrightarrow> drop_bit 32 a = 0" by simp
    then show ?thesis
      using False special priv by (auto simp: verdict_def v6_prefixes v6_bits(7) [symmetric])
  qed
qed

text \<open>C15: An IPv6 address that carries an IPv4 address, mapped, behind NAT64 or behind 6to4, is judged
  as the IPv4 address it leads to. Any other IPv6 address may be connected to exactly when it is
  not on the block list, lies in no reserved, site-local, link-local or multicast range (the
  loopback address only where permitted), and in the unique-local range only where granted.\<close>

theorem allowed_v6:
  "allowed (V6 a zone) loopback extra block \<longleftrightarrow>
     (if in_range (unat a) mapped6 then allowed (V4 (ucast a)) loopback extra block
      else if in_range (unat a) nat64_range
      then V6 a [] \<notin> set block \<and> V4 (ucast a) \<notin> set block \<and> open4 (unat a mod 2 ^ 32) loopback (V6 a [] \<in> set extra)
      else if in_range (unat a) sixTo4_range
      then V6 a [] \<notin> set block \<and> V4 (ucast (drop_bit 80 a)) \<notin> set block \<and>
           open4 (unat a div 2 ^ 80 mod 2 ^ 32) loopback (V6 a [] \<in> set extra)
      else V6 a [] \<notin> set block \<and>
        (if a = 1 then loopback
         else (\<forall>r \<in> set special6. \<not> in_range (unat a) r) \<and> (in_range (unat a) private6 \<longrightarrow> V6 a [] \<in> set extra)))"
proof -
  have low: "unat (ucast w :: 32 word) = unat w mod 2 ^ 32" for w :: "128 word"
    by (simp add: unsigned_ucast_eq take_bit_eq_mod)
  have mid: "unat (drop_bit 80 a) = unat a div 2 ^ 80"
    by (simp add: unat_drop_bit_eq) (simp add: drop_bit_eq_div)
  show ?thesis
    by (simp add: allowed_verdict Let_def v6_bits(1) embedded_def v6_prefixes verdict_v4 verdict_v6 low mid)
qed

theorem allowed_v6_witness:
  "\<not> allowed (V6 0x0064ff9b00000000000000000a000001 []) True [] [] \<and> allowed (V6 0x26064700000000000000000000001111 []) False [] []"
proof -
  let ?n = "0x0064ff9b00000000000000000a000001 :: 128 word" and ?p = "0x26064700000000000000000000001111 :: 128 word"
  have "\<not> in_range (unat ?n) mapped6" "in_range (unat ?n) nat64_range" "\<not> open4 (unat ?n mod 2 ^ 32) True False"
    by (simp_all add: mapped6_def nat64_range_def open4_def private4_def in_range_def)
  moreover have "\<not> in_range (unat ?p) mapped6" "\<not> in_range (unat ?p) nat64_range" "\<not> in_range (unat ?p) sixTo4_range"
    "\<forall>r \<in> set special6. \<not> in_range (unat ?p) r" "\<not> in_range (unat ?p) private6"
    by (simp_all add: mapped6_def nat64_range_def sixTo4_range_def special6_def private6_def in_range_def)
  ultimately show ?thesis
    using allowed_v6 [of ?n "[]" True "[]" "[]"] allowed_v6 [of ?p "[]" False "[]" "[]"] by simp
qed

end
