(* ===== verification/Netaddr.thy ===== *)
theory Netaddr
  imports Go_Strings Dial
begin

text \<open>
  What the program uses of Go's \<^verbatim>\<open>net\<close> and \<^verbatim>\<open>net/netip\<close> on text: splitting and joining host and port,
  reading an address (\<^verbatim>\<open>ParseAddr\<close>), an address with port (\<^verbatim>\<open>ParseAddrPort\<close>) and a prefix
  (\<^verbatim>\<open>ParsePrefix\<close>), and writing an address. The laws of the last section are the round trips the
  components rest on.
\<close>

section \<open>Host and port\<close>

definition lastIndex :: "char \<Rightarrow> string \<Rightarrow> nat option" where
  "lastIndex c s = (if c \<in> set s then Some (length s - 1 - length (takeWhile (\<lambda>x. x \<noteq> c) (rev s))) else None)"

definition firstIndex :: "char \<Rightarrow> string \<Rightarrow> nat option" where
  "firstIndex c s = (if c \<in> set s then Some (length (takeWhile (\<lambda>x. x \<noteq> c) s)) else None)"

text \<open>\<^verbatim>\<open>net.SplitHostPort\<close>: the port is behind the last colon; a host with colons is in brackets.\<close>

definition SplitHostPort :: "string \<Rightarrow> (string \<times> string) option" where
  "SplitHostPort s =
     (case lastIndex (CHR '':'') s of
        None \<Rightarrow> None
      | Some i \<Rightarrow>
          if hd s = CHR ''[''
          then (case firstIndex (CHR '']'') s of
                  None \<Rightarrow> None
                | Some e \<Rightarrow>
                    if e + 1 \<noteq> i \<or> CHR ''['' \<in> set (drop 1 s) \<or> CHR '']'' \<in> set (drop (e + 1) s) then None
                    else Some (drop 1 (take e s), drop (i + 1) s))
          else if CHR '':'' \<in> set (take i s) \<or> CHR ''['' \<in> set s \<or> CHR '']'' \<in> set s then None
          else Some (take i s, drop (i + 1) s))"

definition JoinHostPort :: "string \<Rightarrow> string \<Rightarrow> string" where
  "JoinHostPort host port =
     (if CHR '':'' \<in> set host then CHR ''['' # host @ '']:'' @ port else host @ CHR '':'' # port)"

section \<open>IPv4\<close>

text \<open>A field of a dotted address: decimal, at most 255, without a leading zero.\<close>

definition parseField :: "string \<Rightarrow> nat option" where
  "parseField s =
     (if s = [] \<or> \<not> list_all isDigit s \<or> (hd s = CHR ''0'' \<and> length s \<noteq> 1) \<or> 255 < decVal s then None
      else Some (nat (decVal s)))"

definition parseIPv4Fields :: "string \<Rightarrow> nat list option" where
  "parseIPv4Fields s =
     (let fs = map parseField (splitAt (CHR ''.'') s)
      in if length fs \<noteq> 4 \<or> None \<in> set fs then None else Some (map the fs))"

definition wordOf :: "nat list \<Rightarrow> 'a :: len word" where
  "wordOf bs = foldl (\<lambda>w b. w * 256 + of_nat b) 0 bs"

section \<open>IPv6\<close>

definition hexVal :: "char \<Rightarrow> nat option" where
  "hexVal c =
     (let b = byte c in
      if 48 \<le> b \<and> b \<le> 57 then Some (b - 48)
      else if 97 \<le> b \<and> b \<le> 102 then Some (b - 87)
      else if 65 \<le> b \<and> b \<le> 70 then Some (b - 55) else None)"

definition isHex :: "char \<Rightarrow> bool" where "isHex c \<longleftrightarrow> hexVal c \<noteq> None"

definition hexNum :: "string \<Rightarrow> nat" where
  "hexNum s = foldl (\<lambda>n c. 16 * n + the (hexVal c)) 0 s"

text \<open>The loop over the groups: the bytes read so far, where the ellipsis was, and the rest.\<close>

function v6_loop :: "nat list \<Rightarrow> nat option \<Rightarrow> string \<Rightarrow> (nat list \<times> nat option \<times> string) option" where
  "v6_loop ip ell s =
     (if 16 \<le> length ip then Some (ip, ell, s)
      else let d = takeWhile isHex s; r = drop (length d) s in
        if 4 < length d \<or> d = [] then None
        else if r \<noteq> [] \<and> hd r = CHR ''.''
        then if ell = None \<and> length ip \<noteq> 12 \<or> 16 < length ip + 4 then None
             else (case parseIPv4Fields s of None \<Rightarrow> None | Some fs \<Rightarrow> Some (ip @ fs, ell, []))
        else let ip1 = ip @ [hexNum d div 256, hexNum d mod 256] in
          if r = [] then Some (ip1, ell, [])
          else if hd r \<noteq> CHR '':'' \<or> tl r = [] then None
          else if hd (tl r) = CHR '':''
          then if ell \<noteq> None then None
               else if tl (tl r) = [] then Some (ip1, Some (length ip1), [])
               else v6_loop ip1 (Some (length ip1)) (tl (tl r))
          else v6_loop ip1 ell (tl r))"
  by pat_completeness auto
termination by (relation "measure (\<lambda>(ip, ell, s). 16 - length ip)") auto

declare v6_loop.simps [simp del]

text \<open>The bytes with the ellipsis filled up by zeros; it has to stand for at least one field.\<close>

definition expand :: "nat list \<Rightarrow> nat option \<Rightarrow> nat list option" where
  "expand ip ell =
     (if length ip < 16
      then (case ell of None \<Rightarrow> None | Some e \<Rightarrow> Some (take e ip @ replicate (16 - length ip) 0 @ drop e ip))
      else if ell \<noteq> None then None else Some ip)"

definition parseIPv6 :: "string \<Rightarrow> addr option" where
  "parseIPv6 s0 =
     (let (s, zone, hasZone) = cutAt (CHR ''%'') s0 in
      if hasZone \<and> zone = [] then None
      else let lead = take 2 s = ''::''; s1 = (if lead then drop 2 s else s) in
        if lead \<and> s1 = [] then Some (V6 0 zone)
        else (case v6_loop [] (if lead then Some 0 else None) s1 of
                None \<Rightarrow> None
              | Some (ip, ell, rest) \<Rightarrow>
                  if rest \<noteq> [] then None
                  else (case expand ip ell of None \<Rightarrow> None | Some bs \<Rightarrow> Some (V6 (wordOf bs) zone))))"

text \<open>\<^verbatim>\<open>netip.ParseAddr\<close>: the first dot, colon or percent sign decides.\<close>

definition ParseAddr :: "string \<Rightarrow> addr option" where
  "ParseAddr s =
     (case dropWhile (\<lambda>c. c \<noteq> CHR ''.'' \<and> c \<noteq> CHR '':'' \<and> c \<noteq> CHR ''%'') s of
        [] \<Rightarrow> None
      | c # _ \<Rightarrow>
          if c = CHR ''.'' then map_option (\<lambda>fs. V4 (wordOf fs)) (parseIPv4Fields s)
          else if c = CHR '':'' then parseIPv6 s else None)"

fun addrZone :: "addr \<Rightarrow> string" where
  "addrZone (V6 a zone) = zone"
| "addrZone ip = []"

section \<open>Writing addresses\<close>

definition octets :: "32 word \<Rightarrow> nat list" where
  "octets a = [unat a div 2 ^ 24, unat a div 2 ^ 16 mod 256, unat a div 2 ^ 8 mod 256, unat a mod 256]"

definition showIPv4 :: "32 word \<Rightarrow> string" where
  "showIPv4 a = (case octets a of [p, q, r, s] \<Rightarrow>
     showNat p @ CHR ''.'' # showNat q @ CHR ''.'' # showNat r @ CHR ''.'' # showNat s | _ \<Rightarrow> [])"

definition groups :: "128 word \<Rightarrow> nat list" where
  "groups a = map (\<lambda>i. unat a div 2 ^ (112 - 16 * i) mod 65536) [0..<8]"

definition hexDigit :: "nat \<Rightarrow> char" where
  "hexDigit n = char_of (if n < 10 then 48 + n else 87 + n)"

fun showHex :: "nat \<Rightarrow> string" where
  "showHex n = (if n < 16 then [hexDigit n] else showHex (n div 16) @ [hexDigit (n mod 16)])"

declare showHex.simps [simp del]

text \<open>The longest run of at least two zero groups, the first of equally long ones.\<close>

definition zeroRun :: "nat list \<Rightarrow> nat \<times> nat" where
  "zeroRun gs =
     fold (\<lambda>i (a, b). let l = length (takeWhile (\<lambda>g. g = 0) (drop i gs))
                      in if 2 \<le> l \<and> b - a < l then (i, i + l) else (a, b)) [0..<8] (255, 255)"

fun joinGroups :: "nat list \<Rightarrow> string" where
  "joinGroups [] = []"
| "joinGroups [g] = showHex g"
| "joinGroups (g # gs) = showHex g @ CHR '':'' # joinGroups gs"

definition showIPv6 :: "128 word \<Rightarrow> string" where
  "showIPv6 a =
     (let gs = groups a; (i, j) = zeroRun gs
      in if i = 255 then joinGroups gs else joinGroups (take i gs) @ ''::'' @ joinGroups (drop j gs))"

fun addrString :: "addr \<Rightarrow> string" where
  "addrString NoAddr = ''invalid IP''"
| "addrString (V4 a) = showIPv4 a"
| "addrString (V6 a zone) =
     (if drop_bit 32 a = 0xffff then ''::ffff:'' @ showIPv4 (ucast a) else showIPv6 a) @
     (if zone = [] then [] else CHR ''%'' # zone)"

section \<open>Address with port, prefixes\<close>

text \<open>\<^verbatim>\<open>netip.ParseAddrPort\<close>: IPv6 in brackets, IPv4 without.\<close>

definition ParseAddrPort :: "string \<Rightarrow> (addr \<times> int) option" where
  "ParseAddrPort s =
     (case lastIndex (CHR '':'') s of
        None \<Rightarrow> None
      | Some i \<Rightarrow>
          let ip = take i s; port = drop (i + 1) s in
          if ip = [] \<or> port = [] then None
          else let v6 = (hd ip = CHR ''[''); ip1 = (if v6 then butlast (tl ip) else ip) in
            if v6 \<and> (length ip < 2 \<or> last ip \<noteq> CHR '']'') then None
            else (case (ParseUint port 16, ParseAddr ip1) of
                    (Some n, Some a) \<Rightarrow> if v6 \<longleftrightarrow> (case a of V6 _ _ \<Rightarrow> True | _ \<Rightarrow> False) then Some (a, n) else None
                  | _ \<Rightarrow> None))"

text \<open>\<^verbatim>\<open>netip.ParsePrefix\<close>: no zone, the number of bits in digits without a leading zero or sign.\<close>

definition ParsePrefix :: "string \<Rightarrow> prefix option" where
  "ParsePrefix s =
     (case lastIndex (CHR ''/'') s of
        None \<Rightarrow> None
      | Some i \<Rightarrow>
          let bits = drop (i + 1) s in
          (case ParseAddr (take i s) of
             None \<Rightarrow> None
           | Some ip \<Rightarrow>
               if addrZone ip \<noteq> [] then None
               else if 1 < length bits \<and> \<not> (48 < byte (hd bits) \<and> byte (hd bits) \<le> 57) then None
               else (case Atoi bits of
                       None \<Rightarrow> None
                     | Some n \<Rightarrow>
                         (case ip of
                            V4 a \<Rightarrow> if 0 \<le> n \<and> n \<le> 32 then Some (P4 a (nat n)) else None
                          | V6 a _ \<Rightarrow> if 0 \<le> n \<and> n \<le> 128 then Some (P6 a (nat n)) else None
                          | NoAddr \<Rightarrow> None))))"

section \<open>Round trips\<close>

lemma lastIndex_append: "c \<notin> set p \<Longrightarrow> lastIndex c (h @ c # p) = Some (length h)"
  using takeWhile_upto [of c "rev p" "rev h"] by (simp add: lastIndex_def)

lemma lastIndex_None: "lastIndex c s = None \<longleftrightarrow> c \<notin> set s"
  by (simp add: lastIndex_def)

lemma firstIndex_append: "c \<notin> set h \<Longrightarrow> firstIndex c (h @ c # p) = Some (length h)"
  by (simp add: firstIndex_def takeWhile_upto)

lemma SplitHostPort_Join:
  assumes "CHR ''['' \<notin> set h \<union> set p" and "CHR '']'' \<notin> set h \<union> set p" and "CHR '':'' \<notin> set p"
  shows "SplitHostPort (JoinHostPort h p) = Some (h, p)"
proof (cases "CHR '':'' \<in> set h")
  case True
  have "lastIndex (CHR '':'') ((CHR ''['' # h @ '']'') @ CHR '':'' # p) = Some (length (CHR ''['' # h @ '']''))"
    using assms(3) by (rule lastIndex_append)
  moreover have "firstIndex (CHR '']'') ((CHR ''['' # h) @ CHR '']'' # CHR '':'' # p) = Some (length (CHR ''['' # h))"
    using assms(2) by (intro firstIndex_append) auto
  ultimately show ?thesis using True assms by (simp add: SplitHostPort_def JoinHostPort_def)
next
  case False
  have "lastIndex (CHR '':'') (h @ CHR '':'' # p) = Some (length h)" using assms(3) by (rule lastIndex_append)
  moreover have "hd (h @ CHR '':'' # p) \<noteq> CHR ''[''" using assms(1) by (cases h) auto
  ultimately show ?thesis using False assms by (simp add: SplitHostPort_def JoinHostPort_def)
qed

lemma showNat_hd_zero: "hd (showNat n) = CHR ''0'' \<Longrightarrow> n = 0"
proof (induction n rule: showNat.induct)
  case (1 n)
  show ?case
  proof (cases "n < 10")
    case True
    then show ?thesis
      using "1.prems" byte_digitChar [OF True] by (auto simp: showNat.simps [of n] byte_def)
  next
    case False
    then have "hd (showNat n) = hd (showNat (n div 10))" by (subst showNat.simps) simp
    then show ?thesis using 1 False by simp
  qed
qed

lemma parseField_showNat: "n < 256 \<Longrightarrow> parseField (showNat n) = Some n"
  using showNat_hd_zero [of n] by (auto simp: parseField_def showNat.simps [of 0])

lemma octets_less: "n \<in> set (octets a) \<Longrightarrow> n < 256"
proof -
  have "unat a div 2 ^ 24 < 256" using unsigned_less [of a, where ?'a = nat] by (simp add: less_mult_imp_div_less)
  then show "n \<in> set (octets a) \<Longrightarrow> n < 256" by (auto simp: octets_def)
qed

lemma digits_no_dot: "CHR ''.'' \<notin> set (showNat n)"
  using showNat_digits(2) [of n] by (auto simp: list_all_iff isDigit_def byte_def)

lemma parseIPv4Fields_show: "parseIPv4Fields (showIPv4 a) = Some (octets a)"
proof -
  obtain p q r s where o: "octets a = [p, q, r, s]" by (simp add: octets_def)
  then have "parseField (showNat n) = Some n" if "n \<in> {p, q, r, s}" for n
    using that octets_less [of n a] by (intro parseField_showNat) auto
  then show ?thesis
    using o by (simp add: parseIPv4Fields_def showIPv4_def splitAt_append splitAt_single digits_no_dot)
qed

lemma foldl_octets:
  fixes w :: "'a :: len word"
  shows "foldl (\<lambda>w b. w * 256 + of_nat b) w (octets a) = w * 2 ^ 32 + of_nat (unat a)"
proof -
  have d: "n div (k * 256) * 256 + n div k mod 256 = n div k" for n k :: nat
    by (simp add: div_mult2_eq)
  have "((unat a div 2 ^ 24 * 256 + unat a div 2 ^ 16 mod 256) * 256 + unat a div 2 ^ 8 mod 256) * 256 + unat a mod 256 = unat a"
    using d [of "unat a" "2 ^ 16"] d [of "unat a" "2 ^ 8"] d [of "unat a" 1] by simp
  then have "of_nat (unat a) =
      (of_nat (((unat a div 2 ^ 24 * 256 + unat a div 2 ^ 16 mod 256) * 256 + unat a div 2 ^ 8 mod 256) * 256 + unat a mod 256) :: 'a word)"
    by (simp only:)
  then show ?thesis by (simp add: octets_def algebra_simps)
qed

lemma wordOf_octets: "wordOf (octets a) = a"
  by (simp add: wordOf_def foldl_octets)

lemma ParseAddr_showIPv4: "ParseAddr (showIPv4 a) = Some (V4 a)"
proof -
  have n: "c \<noteq> CHR ''.'' \<and> c \<noteq> CHR '':'' \<and> c \<noteq> CHR ''%''" if "c \<in> set (showNat n)" for c n
    using showNat_digits(2) [of n] that by (auto simp: list_all_iff isDigit_def byte_def)
  obtain p t where "showIPv4 a = showNat p @ CHR ''.'' # t" by (simp add: showIPv4_def octets_def)
  then have "dropWhile (\<lambda>c. c \<noteq> CHR ''.'' \<and> c \<noteq> CHR '':'' \<and> c \<noteq> CHR ''%'') (showIPv4 a) = CHR ''.'' # t"
    using n by (simp add: dropWhile_append2)
  then show ?thesis by (simp add: ParseAddr_def parseIPv4Fields_show wordOf_octets)
qed

end
