(* ===== verification/Netaddr_Text.thy ===== *)
theory Netaddr_Text
  imports Netaddr
begin

text \<open>
  Reading an address that was written gives it back, for both families: the lemma \<open>ParseAddr_addrString\<close>.
  With it, the text that Go's dialer hands to a control function names the address it connects to, and
  a key made from an address determines it.
\<close>

section \<open>Hexadecimal groups\<close>

lemma hexVal_hexDigit [simp]: "n < 16 \<Longrightarrow> hexVal (hexDigit n) = Some n"
  by (simp add: hexVal_def hexDigit_def)

lemma showHex_hex:
  "showHex n \<noteq> [] \<and> (\<forall>c \<in> set (showHex n). isHex c) \<and> hexNum (showHex n) = n"
proof (induction n rule: showHex.induct)
  case (1 n)
  show ?case
  proof (cases "n < 16")
    case True
    then show ?thesis by (simp add: showHex.simps [of n] hexNum_def isHex_def)
  next
    case False
    then have "showHex n = showHex (n div 16) @ [hexDigit (n mod 16)]" by (subst showHex.simps) simp
    then show ?thesis using 1 [OF False] by (auto simp: hexNum_def isHex_def)
  qed
qed

lemma showHex_length:
  "n < 16 ^ k \<Longrightarrow> 0 < k \<Longrightarrow> length (showHex n) \<le> k"
proof (induction k arbitrary: n)
  case (Suc k)
  show ?case
  proof (cases "n < 16")
    case False
    then have "0 < k" using Suc.prems(1) by (cases k) auto
    moreover have "n div 16 < 16 ^ k" using Suc.prems(1) by (simp add: div_less_iff_less_mult mult.commute)
    ultimately show ?thesis using Suc.IH [of "n div 16"] False by (subst showHex.simps) simp
  qed (simp add: showHex.simps [of n])
qed simp

definition groupBytes :: "nat list \<Rightarrow> nat list" where
  "groupBytes gs = concat (map (\<lambda>g. [g div 256, g mod 256]) gs)"

lemma groupBytes_simps [simp]:
  "groupBytes [] = []" "groupBytes (g # gs) = g div 256 # g mod 256 # groupBytes gs"
  "groupBytes (gs @ hs) = groupBytes gs @ groupBytes hs" "length (groupBytes gs) = 2 * length gs"
  "groupBytes (replicate n 0) = replicate (2 * n) 0"
proof -
  show "length (groupBytes gs) = 2 * length gs" by (induction gs) (simp_all add: groupBytes_def)
  show "groupBytes (replicate n 0) = replicate (2 * n) 0" by (induction n) (simp_all add: groupBytes_def)
qed (simp_all add: groupBytes_def)

text \<open>One turn of the loop reads one group.\<close>

lemma hex_takeWhile:
  assumes "\<forall>c \<in> set d. isHex c" and "r = [] \<or> \<not> isHex (hd r)"
  shows "takeWhile isHex (d @ r) = d"
  using assms by (cases r) (auto simp: takeWhile_append2 takeWhile_tail)

lemma hexVal_colon [simp]: "\<not> isHex (CHR '':'')" "\<not> isHex (CHR ''.'')"
  by code_simp+

lemma v6_loop_last:
  assumes "g < 65536" and "length ip < 16"
  shows "v6_loop ip ell (showHex g) = Some (ip @ [g div 256, g mod 256], ell, [])"
proof -
  have "takeWhile isHex (showHex g @ []) = showHex g" using showHex_hex [of g] by (intro hex_takeWhile) auto
  then have d: "takeWhile isHex (showHex g) = showHex g" by (simp only: append_Nil2)
  show ?thesis
    using assms showHex_hex [of g] showHex_length [of g 4] by (subst v6_loop.simps) (simp add: Let_def d)
qed

lemma v6_loop_group:
  assumes "g < 65536" and "length ip < 16" and "t \<noteq> []"
  shows "v6_loop ip ell (showHex g @ CHR '':'' # t) =
    (if hd t \<noteq> CHR '':'' then v6_loop (ip @ [g div 256, g mod 256]) ell t
     else if ell \<noteq> None then None
     else if tl t = [] then Some (ip @ [g div 256, g mod 256], Some (length ip + 2), [])
     else v6_loop (ip @ [g div 256, g mod 256]) (Some (length ip + 2)) (tl t))"
proof -
  have d: "takeWhile isHex (showHex g @ CHR '':'' # t) = showHex g"
    using showHex_hex [of g] by (intro hex_takeWhile) auto
  show ?thesis
    using assms showHex_hex [of g] showHex_length [of g 4] by (subst v6_loop.simps) (simp add: Let_def d)
qed

lemma showHex_no_colon: "hd (showHex g @ t) \<noteq> CHR '':''"
  using showHex_hex [of g] hexVal_colon by (cases "showHex g") auto

lemma joinGroups_Cons: "gs \<noteq> [] \<Longrightarrow> joinGroups (g # gs) = showHex g @ CHR '':'' # joinGroups gs"
  by (cases gs) auto

lemma joinGroups_hd: "gs \<noteq> [] \<Longrightarrow> joinGroups gs \<noteq> [] \<and> hd (joinGroups gs) \<noteq> CHR '':''"
  using showHex_no_colon [of "hd gs" "[]"] showHex_hex [of "hd gs"]
  by (cases gs rule: joinGroups.cases) auto

lemma v6_loop_join:
  assumes "gs \<noteq> []" and "\<forall>g \<in> set gs. g < 65536" and "length ip + 2 * length gs \<le> 16"
  shows "v6_loop ip ell (joinGroups gs) = Some (ip @ groupBytes gs, ell, [])"
  using assms
proof (induction gs arbitrary: ip)
  case (Cons g gs)
  show ?case
  proof (cases "gs = []")
    case True
    then show ?thesis using Cons.prems by (simp add: v6_loop_last)
  next
    case False
    then show ?thesis
      using Cons.prems Cons.IH [OF False, of "ip @ [g div 256, g mod 256]"] joinGroups_hd [OF False]
      by (simp add: joinGroups_Cons v6_loop_group)
  qed
qed simp

lemma v6_loop_ellipsis:
  assumes "gs \<noteq> []" and "\<forall>g \<in> set (gs @ hs). g < 65536" and "length ip + 2 * length (gs @ hs) < 16"
  shows "v6_loop ip None (joinGroups gs @ ''::'' @ joinGroups hs) =
    Some (ip @ groupBytes (gs @ hs), Some (length ip + 2 * length gs), [])"
  using assms
proof (induction gs arbitrary: ip)
  case (Cons g gs)
  show ?case
  proof (cases "gs = []")
    case True
    show ?thesis
    proof (cases "hs = []")
      case False
      then show ?thesis
        using Cons.prems True v6_loop_join [OF False, of "ip @ [g div 256, g mod 256]"] joinGroups_hd [OF False]
        by (simp add: v6_loop_group)
    qed (use Cons.prems True in \<open>simp add: v6_loop_group\<close>)
  next
    case False
    then show ?thesis
      using Cons.prems Cons.IH [OF False, of "ip @ [g div 256, g mod 256]"]
        joinGroups_hd [OF False]
      by (simp add: joinGroups_Cons v6_loop_group)
  qed
qed simp

section \<open>The word and its groups\<close>

lemma groups_less: "g \<in> set (groups a) \<Longrightarrow> g < 65536"
  by (auto simp: groups_def)

lemma length_groups [simp]: "length (groups a) = 8"
  by (simp add: groups_def)

definition horner :: "nat list \<Rightarrow> nat" where "horner gs = foldl (\<lambda>n g. n * 65536 + g) 0 gs"

lemma wordOf_groupBytes: "wordOf (groupBytes gs) = (of_nat (horner gs) :: 'a :: len word)"
proof (induction gs rule: rev_induct)
  case (snoc g gs)
  have "(of_nat g :: 'a word) = of_nat (g div 256 * 256 + g mod 256)" by simp
  then show ?case using snoc unfolding wordOf_def horner_def
    by (simp only: groupBytes_simps foldl_append foldl.simps of_nat_add of_nat_mult of_nat_numeral)
      (simp add: algebra_simps)
qed (simp add: wordOf_def horner_def groupBytes_def)

lemma wordOf_zeros [simp]: "wordOf (replicate n 0) = 0"
  by (induction n) (simp_all add: wordOf_def)

lemma horner_groups: "horner (groups a) = unat a"
proof -
  have d: "unat a div 2 ^ (k + 16) * 65536 + unat a div 2 ^ k mod 65536 = unat a div 2 ^ k" for k
  proof -
    have "unat a div 2 ^ (k + 16) = unat a div 2 ^ k div 65536" by (simp add: power_add div_mult2_eq)
    then show ?thesis by simp
  qed
  have "unat a < 2 ^ 128" using unsigned_less [of a, where ?'a = nat] by simp
  then have top: "unat a div 2 ^ 112 mod 65536 = unat a div 2 ^ 112" by (intro mod_less) (simp add: less_mult_imp_div_less)
  have "groups a = [unat a div 2 ^ 112 mod 65536, unat a div 2 ^ 96 mod 65536, unat a div 2 ^ 80 mod 65536,
      unat a div 2 ^ 64 mod 65536, unat a div 2 ^ 48 mod 65536, unat a div 2 ^ 32 mod 65536,
      unat a div 2 ^ 16 mod 65536, unat a div 2 ^ 0 mod 65536]"
    by (simp add: groups_def upt_rec)
  then show ?thesis
    using d [of 96] d [of 80] d [of 64] d [of 48] d [of 32] d [of 16] d [of 0]
    unfolding top horner_def by simp
qed

lemma wordOf_groups: "wordOf (groupBytes (groups a)) = a"
  by (simp add: wordOf_groupBytes horner_groups)

section \<open>The ellipsis\<close>

lemma zeroRun_cases:
  assumes "length gs = 8"
  shows "zeroRun gs = (255, 255) \<or>
    (\<exists>i j. zeroRun gs = (i, j) \<and> i + 2 \<le> j \<and> j \<le> 8 \<and> gs = take i gs @ replicate (j - i) 0 @ drop j gs)"
  unfolding zeroRun_def
proof (rule fold_invariant [where Q = "\<lambda>i. i < 8"])
  fix i :: nat and ab :: "nat \<times> nat"
  let ?l = "length (takeWhile (\<lambda>g. g = 0) (drop i gs))"
  assume i: "i < 8"
    and inv: "ab = (255, 255) \<or> (\<exists>i j. ab = (i, j) \<and> i + 2 \<le> j \<and> j \<le> 8 \<and> gs = take i gs @ replicate (j - i) 0 @ drop j gs)"
  have "takeWhile (\<lambda>g. g = 0) (drop i gs) = replicate ?l 0"
    by (rule replicate_length_same [symmetric]) (auto dest: set_takeWhileD)
  moreover have "drop i gs = takeWhile (\<lambda>g. g = 0) (drop i gs) @ drop ?l (drop i gs)"
    by (metis append_take_drop_id takeWhile_eq_take)
  ultimately have "gs = take i gs @ replicate ?l 0 @ drop (i + ?l) gs"
    by (metis add.commute append_take_drop_id drop_drop)
  moreover have "i + ?l \<le> 8"
    using i assms length_takeWhile_le [of "\<lambda>g. g = 0" "drop i gs"] by simp
  ultimately show "(case ab of (a, b) \<Rightarrow> let l = ?l in if 2 \<le> l \<and> b - a < l then (i, i + l) else (a, b)) = (255, 255) \<or>
     (\<exists>i' j. (case ab of (a, b) \<Rightarrow> let l = ?l in if 2 \<le> l \<and> b - a < l then (i, i + l) else (a, b)) = (i', j) \<and>
        i' + 2 \<le> j \<and> j \<le> 8 \<and> gs = take i' gs @ replicate (j - i') 0 @ drop j gs)"
    using inv by (cases ab) (auto simp: Let_def)
qed simp_all

lemma cutAt_no_percent: "CHR ''%'' \<notin> set s \<Longrightarrow> cutAt (CHR ''%'') s = (s, [], False)"
  unfolding cutAt_def by (induction s) auto

lemma isHex_plain: "isHex c \<Longrightarrow> c \<noteq> CHR ''%'' \<and> c \<noteq> CHR ''.'' \<and> c \<noteq> CHR '':'' \<and> c \<noteq> CHR ''['' \<and> c \<noteq> CHR '']'' \<and> c \<noteq> CHR ''/''"
  by (auto simp: isHex_def hexVal_def byte_def)

lemma joinGroups_chars: "c \<in> set (joinGroups gs) \<Longrightarrow> isHex c \<or> c = CHR '':''"
  by (induction gs rule: joinGroups.induct) (use showHex_hex in auto)

lemma take2_joinGroups: "gs \<noteq> [] \<Longrightarrow> take 2 (joinGroups gs @ t) \<noteq> ''::''"
  using joinGroups_hd [of gs] by (cases "joinGroups gs") auto

lemma parseIPv6_show: "parseIPv6 (showIPv6 a) = Some (V6 a [])"
proof -
  let ?gs = "groups a"
  have small: "\<forall>g \<in> set ?gs. g < 65536" using groups_less by blast
  have chars: "CHR ''%'' \<notin> set (showIPv6 a)"
    using joinGroups_chars isHex_plain by (auto simp: showIPv6_def Let_def split: prod.splits)
  note cut = cutAt_no_percent [OF chars]
  consider "zeroRun ?gs = (255, 255)"
    | i j where "zeroRun ?gs = (i, j)" "i + 2 \<le> j" "j \<le> 8" "?gs = take i ?gs @ replicate (j - i) 0 @ drop j ?gs"
    using zeroRun_cases [of ?gs] by auto
  then show ?thesis
  proof cases
    case 1
    then have s: "showIPv6 a = joinGroups ?gs" by (simp add: showIPv6_def)
    have ne: "?gs \<noteq> []" using length_groups [of a] by force
    have "v6_loop [] None (joinGroups ?gs) = Some (groupBytes ?gs, None, [])"
      using v6_loop_join [OF ne small, of "[]"] by simp
    then show ?thesis
      using cut take2_joinGroups [OF ne, of "[]"] unfolding s parseIPv6_def
      by (simp add: expand_def wordOf_groups)
  next
    case (2 i j)
    let ?g = "take i ?gs" and ?h = "drop j ?gs"
    have s: "showIPv6 a = joinGroups ?g @ ''::'' @ joinGroups ?h" using 2(1-3) by (simp add: showIPv6_def Let_def)
    have sm: "\<forall>g \<in> set (?g @ ?h). g < 65536" using small by (auto dest: in_set_takeD in_set_dropD)
    have len: "length ?g = i" "length ?h = 8 - j" using 2 by simp_all
    have bytes: "groupBytes ?g @ replicate (2 * (j - i)) 0 @ groupBytes ?h = groupBytes ?gs"
      using arg_cong [OF 2(4), of groupBytes] by simp
    have ex: "expand (groupBytes (?g @ ?h)) (Some (2 * i)) = Some (groupBytes ?gs)"
      using 2 bytes len by (simp add: expand_def mult_2 [symmetric] diff_mult_distrib2)
    show ?thesis
    proof (cases "i = 0")
      case True
      then have s1: "showIPv6 a = ''::'' @ joinGroups ?h" using s by simp
      show ?thesis
      proof (cases "?h = []")
        case True
        then have "?gs = replicate 8 0" using 2 \<open>i = 0\<close> by (metis append_Nil append_Nil2 diff_zero drop_eq_Nil2 le_antisym length_groups take_0)
        then have "a = 0" using wordOf_groups [of a] by simp
        then show ?thesis using cut True unfolding s1 parseIPv6_def by simp
      next
        case False
        have "v6_loop [] (Some 0) (joinGroups ?h) = Some (groupBytes ?h, Some 0, [])"
          using v6_loop_join [OF False, of "[]"] sm by simp
        then show ?thesis
          using cut ex \<open>i = 0\<close> joinGroups_hd [OF False] unfolding s1 parseIPv6_def
          by (simp add: wordOf_groups)
      qed
    next
      case False
      then have ne: "?g \<noteq> []" using len 2 by auto
      have "v6_loop [] None (joinGroups ?g @ ''::'' @ joinGroups ?h) = Some (groupBytes (?g @ ?h), Some (2 * i), [])"
        using v6_loop_ellipsis [OF ne sm, of "[]"] len 2 by simp
      then show ?thesis
        using cut ex take2_joinGroups [OF ne, of "''::'' @ joinGroups ?h"] unfolding s parseIPv6_def
        by (simp add: wordOf_groups)
    qed
  qed
qed

section \<open>Addresses\<close>

lemma dropWhile_first: "\<forall>c \<in> set p. P c \<Longrightarrow> \<not> P x \<Longrightarrow> dropWhile P (p @ x # t) = x # t"
  by (induction p) auto

text \<open>A text of hexadecimal groups and colons, with at least one colon, is read as an IPv6 address.\<close>

lemma ParseAddr_colon:
  assumes "\<forall>c \<in> set p. isHex c"
  shows "ParseAddr (p @ CHR '':'' # t) = parseIPv6 (p @ CHR '':'' # t)"
  using assms isHex_plain
  by (simp add: ParseAddr_def dropWhile_first [where x = "CHR '':''"])

lemma showIPv6_colon: "\<exists>p t. showIPv6 a = p @ CHR '':'' # t \<and> (\<forall>c \<in> set p. isHex c)"
proof -
  have join: "\<exists>p t. joinGroups gs @ s = p @ CHR '':'' # t \<and> (\<forall>c \<in> set p. isHex c)"
    if "2 \<le> length gs \<or> (\<exists>u. s = CHR '':'' # u)" for gs s
  proof (cases gs rule: joinGroups.cases)
    case 1
    then obtain u where "s = CHR '':'' # u" using \<open>2 \<le> length gs \<or> (\<exists>u. s = CHR '':'' # u)\<close> by auto
    then show ?thesis using 1 by (intro exI [of _ "[]"] exI [of _ u]) simp
  next
    case (2 g)
    then show ?thesis using that showHex_hex [of g] by auto
  next
    case (3 g g' gs')
    then show ?thesis
      using showHex_hex [of g] by (intro exI [of _ "showHex g"] exI [of _ "joinGroups (g' # gs') @ s"]) simp
  qed
  consider "zeroRun (groups a) = (255, 255)" | i j where "zeroRun (groups a) = (i, j)" "i + 2 \<le> j" "j \<le> 8"
    using zeroRun_cases [of "groups a"] by auto
  then show ?thesis
  proof cases
    case 1
    then show ?thesis using join [of "groups a" "[]"] by (simp add: showIPv6_def)
  next
    case (2 i j)
    then show ?thesis using join [of "take i (groups a)" "''::'' @ joinGroups (drop j (groups a))"] by (simp add: showIPv6_def Let_def)
  qed
qed

lemma ParseAddr_showIPv6: "ParseAddr (showIPv6 a) = Some (V6 a [])"
  using showIPv6_colon [of a] ParseAddr_colon parseIPv6_show [of a] by metis

lemma drop_bit_mapped:
  fixes a :: "128 word"
  assumes "drop_bit 32 a = 0xffff"
  shows "a = 0xffff * 2 ^ 32 + ucast (ucast a :: 32 word)"
proof -
  have "a = push_bit 32 (drop_bit 32 a) + take_bit 32 a" by (simp add: bits_ident)
  moreover have "ucast (ucast a :: 32 word) = take_bit 32 a" by (simp add: unsigned_ucast_eq)
  ultimately show ?thesis using assms by (simp add: push_bit_eq_mult)
qed

lemma wordOf_mapped: "wordOf (replicate 10 0 @ 255 # 255 # octets a) = (0xffff * 2 ^ 32 + ucast a :: 128 word)"
proof -
  have "foldl (\<lambda>w b. w * 256 + of_nat b) 0 (replicate 10 0) = (0 :: 128 word)"
    using wordOf_zeros [of 10] by (simp only: wordOf_def)
  then show ?thesis by (simp add: wordOf_def foldl_octets)
qed

lemma showNat_hex: "c \<in> set (showNat n) \<Longrightarrow> isHex c"
  using showNat_digits(2) [of n] by (auto simp: list_all_iff isDigit_def isHex_def hexVal_def)

lemma showNat_length: "n < 1000 \<Longrightarrow> length (showNat n) \<le> 3"
  by (subst showNat.simps, simp, subst showNat.simps, simp, subst showNat.simps, simp)

lemma showIPv4_chars: "c \<in> set (showIPv4 a) \<Longrightarrow> isHex c \<or> c = CHR ''.''"
  by (auto simp: showIPv4_def octets_def showNat_hex)

lemma showIPv6_chars: "c \<in> set (showIPv6 a) \<Longrightarrow> isHex c \<or> c = CHR '':''"
  by (auto simp: showIPv6_def Let_def split: prod.splits if_splits dest: joinGroups_chars)

lemma addr_no_percent [simp]: "CHR ''%'' \<notin> set (showIPv4 a4)" "CHR ''%'' \<notin> set (showIPv6 a6)"
  using showIPv4_chars [of "CHR ''%''" a4] showIPv6_chars [of "CHR ''%''" a6] isHex_plain [of "CHR ''%''"] by auto

lemma parseIPv6_mapped: "parseIPv6 (''::ffff:'' @ showIPv4 a) = Some (V6 (0xffff * 2 ^ 32 + ucast a) [])"
proof -
  obtain p t where p: "showIPv4 a = showNat p @ CHR ''.'' # t" "p < 256"
    using octets_less [of "unat a div 2 ^ 24" a] by (simp add: showIPv4_def octets_def)
  have cut: "cutAt (CHR ''%'') (''::ffff:'' @ showIPv4 a) = (''::ffff:'' @ showIPv4 a, [], False)"
    by (intro cutAt_no_percent) auto
  have "hexDigit 15 = CHR ''f''" by code_simp
  then have hex: "showHex 65535 = ''ffff''"
    by (simp add: showHex.simps [of 65535] showHex.simps [of 4095] showHex.simps [of 255] showHex.simps [of 15])
  have d: "takeWhile isHex (showIPv4 a) = showNat p"
    unfolding p(1) by (rule hex_takeWhile) (use showNat_hex in auto)
  have rest: "drop (length (showNat p)) (showIPv4 a) = CHR ''.'' # t" by (simp add: p(1))
  have "v6_loop [255, 255] (Some 0) (showIPv4 a) = Some ([255, 255] @ octets a, Some 0, [])"
    using showNat_length [of p] p(2) rest
    by (subst v6_loop.simps) (simp add: Let_def d parseIPv4Fields_show)
  moreover have "hd (showIPv4 a) \<noteq> CHR '':''"
    using showNat_hex [of "hd (showNat p)" p] showNat_digits(1) [of p] isHex_plain p(1) by (cases "showNat p") auto
  ultimately have "v6_loop [] (Some 0) (''ffff:'' @ showIPv4 a) = Some ([255, 255] @ octets a, Some 0, [])"
    using v6_loop_group [of 65535 "[]" "showIPv4 a" "Some 0"] p(1) by (simp add: hex)
  moreover have "expand ([255, 255] @ octets a) (Some 0) = Some (replicate 10 0 @ 255 # 255 # octets a)"
    by (simp add: expand_def octets_def)
  ultimately show ?thesis using cut wordOf_mapped [of a] by (simp add: parseIPv6_def)
qed

lemma parseIPv6_zone:
  assumes "CHR ''%'' \<notin> set s" and "parseIPv6 s = Some (V6 a [])" and "zone \<noteq> []"
  shows "parseIPv6 (s @ CHR ''%'' # zone) = Some (V6 a zone)"
proof -
  have "cutAt (CHR ''%'') (s @ CHR ''%'' # zone) = (s, zone, True)"
    using assms(1) unfolding cutAt_def by (induction s) auto
  then show ?thesis
    using assms(2,3) cutAt_no_percent [OF assms(1)]
    by (auto simp: parseIPv6_def Let_def split: if_splits option.splits prod.splits)
qed

lemma ParseAddr_addrString: "ip \<noteq> NoAddr \<Longrightarrow> ParseAddr (addrString ip) = Some ip"
proof (cases ip)
  case (V6 a zone)
  let ?s = "if drop_bit 32 a = 0xffff then ''::ffff:'' @ showIPv4 (ucast a) else showIPv6 a"
  have read: "parseIPv6 ?s = Some (V6 a [])"
    using parseIPv6_mapped [of "ucast a"] parseIPv6_show [of a] drop_bit_mapped [of a] by simp
  obtain p t where colon: "?s = p @ CHR '':'' # t" "\<forall>c \<in> set p. isHex c"
    using showIPv6_colon [of a] by (cases "drop_bit 32 a = 0xffff") (auto intro: that [of "[]"])
  have "CHR ''%'' \<notin> set ?s"
    by simp
  then have "parseIPv6 (addrString (V6 a zone)) = Some (V6 a zone)"
    using read parseIPv6_zone [of ?s a zone] by (cases "zone = []") auto
  moreover have "\<exists>t. addrString (V6 a zone) = p @ CHR '':'' # t" using colon(1) by auto
  ultimately show ?thesis using ParseAddr_colon [OF colon(2)] V6 by metis
qed (simp_all add: ParseAddr_showIPv4)

end
