(* ===== verification/Table.thy ===== *)
theory Table
  imports Prelude
begin

text \<open>
  The two table shapes of the schema, as interfaces. A rowid table (targets, checks,
  incidents) gives every inserted row a new positive key; a token table (sessions, devices)
  is keyed by a token's hash and expires its rows. The laws are stated once here and
  interpreted on the five tables of the store.
\<close>

section \<open>Rowid tables\<close>

text \<open>Well-formed rows: positive, pairwise distinct keys.\<close>

definition rows_ok :: "('r \<Rightarrow> int) \<Rightarrow> 'r list \<Rightarrow> bool" where
  "rows_ok key rs \<longleftrightarrow> distinct (map key rs) \<and> (\<forall>r \<in> set rs. 0 < key r)"

definition find_row :: "('r \<Rightarrow> int) \<Rightarrow> int \<Rightarrow> 'r list \<Rightarrow> 'r option" where
  "find_row key i rs = find (\<lambda>r. key r = i) rs"

lemma rows_ok_Nil [simp]: "rows_ok key []"
  by (simp add: rows_ok_def)

lemma find_row_Some:
  "rows_ok key rs \<Longrightarrow> find_row key i rs = Some r \<longleftrightarrow> r \<in> set rs \<and> key r = i"
  unfolding rows_ok_def find_row_def by (induction rs) (auto split: if_splits)

lemma find_row_None: "find_row key i rs = None \<longleftrightarrow> i \<notin> key ` set rs"
  by (auto simp: find_row_def find_None_iff)

lemma rows_ok_inj: "rows_ok key rs \<Longrightarrow> r \<in> set rs \<Longrightarrow> r' \<in> set rs \<Longrightarrow> key r = key r' \<Longrightarrow> r = r'"
  by (auto simp: rows_ok_def distinct_map inj_on_def)

text \<open>The interface: \<open>mk i c\<close> is the row that holds the columns \<open>c\<close> under the key \<open>i\<close>.\<close>

locale rowid_table =
  fixes key :: "'r \<Rightarrow> int" and mk :: "int \<Rightarrow> 'c \<Rightarrow> 'r"
  assumes key_mk: "key (mk i c) = i"
begin

lemma insert_ok:
  "rows_ok key rs \<Longrightarrow> rows_ok key (rs @ [mk (next_rowid (map key rs)) c])"
  using next_rowid_fresh [of "map key rs"] next_rowid_pos [of "map key rs"]
  by (auto simp: rows_ok_def key_mk)

lemma delete_ok: "rows_ok key rs \<Longrightarrow> rows_ok key (delete_where p rs)"
  by (auto simp: rows_ok_def delete_where_def distinct_map_filter)

lemma update_ok:
  assumes "\<And>r. key (f r) = key r" and "rows_ok key rs"
  shows "rows_ok key (update_where p f rs)"
proof -
  have "map key (update_where p f rs) = map key rs"
    by (rule map_update_where_same) (rule assms(1))
  moreover have "\<forall>r \<in> set (update_where p f rs). 0 < key r"
    using assms by (auto simp: rows_ok_def)
  ultimately show ?thesis
    using assms(2) by (simp add: rows_ok_def)
qed

lemma find_insert:
  "find_row key i (rs @ [mk (next_rowid (map key rs)) c]) =
     (if i = next_rowid (map key rs) then Some (mk i c) else find_row key i rs)"
proof (cases "i = next_rowid (map key rs)")
  case True
  then have "find_row key i rs = None"
    using next_rowid_fresh [of "map key rs"] by (auto simp: find_row_None)
  with True show ?thesis by (simp add: find_row_def find_append key_mk)
next
  case False
  then show ?thesis
    by (simp add: find_row_def find_append key_mk split: option.splits)
qed

lemma find_delete:
  assumes ok: "rows_ok key rs"
  shows "find_row key i (delete_where p rs) =
     (case find_row key i rs of Some r \<Rightarrow> if p r then None else Some r | None \<Rightarrow> None)"
proof (cases "find_row key i rs")
  case None
  then have "find_row key i (delete_where p rs) = None" by (auto simp: find_row_None)
  with None show ?thesis by simp
next
  case (Some r)
  then have r: "r \<in> set rs" "key r = i" by (simp_all add: find_row_Some [OF ok])
  show ?thesis
  proof (cases "p r")
    case True
    have "find_row key i (delete_where p rs) = None"
      using True r rows_ok_inj [OF ok] by (auto simp: find_row_None)
    then show ?thesis using Some True by simp
  next
    case False
    have "find_row key i (delete_where p rs) = Some r"
      using False r by (simp add: find_row_Some [OF delete_ok [OF ok]])
    then show ?thesis using Some False by simp
  qed
qed

lemma find_update:
  assumes "\<And>r. key (f r) = key r"
  shows "find_row key i (update_where p f rs) =
    map_option (\<lambda>r. if p r then f r else r) (find_row key i rs)"
  by (induction rs) (auto simp: find_row_def update_where_def assms)

end

section \<open>Token tables\<close>

definition tokens_ok :: "('r \<Rightarrow> string) \<Rightarrow> 'r list \<Rightarrow> bool" where
  "tokens_ok hash rs \<longleftrightarrow> distinct (map hash rs)"

text \<open>The row of a token that has not expired at the given second.\<close>

definition live_row :: "('r \<Rightarrow> string) \<Rightarrow> ('r \<Rightarrow> int) \<Rightarrow> string \<Rightarrow> int \<Rightarrow> 'r list \<Rightarrow> 'r option" where
  "live_row hash expires h now rs = find (\<lambda>r. hash r = h \<and> now < expires r) rs"

locale token_table =
  fixes hash :: "'r \<Rightarrow> string" and expires :: "'r \<Rightarrow> int"
    and mk :: "string \<Rightarrow> int \<Rightarrow> 'c \<Rightarrow> 'r"
  assumes hash_mk: "hash (mk h e c) = h" and expires_mk: "expires (mk h e c) = e"
begin

lemma tokens_insert_ok:
  "tokens_ok hash rs \<Longrightarrow> h \<notin> hash ` set rs \<Longrightarrow> tokens_ok hash (rs @ [mk h e c])"
  by (auto simp: tokens_ok_def hash_mk)

lemma tokens_delete_ok: "tokens_ok hash rs \<Longrightarrow> tokens_ok hash (delete_where p rs)"
  by (simp add: tokens_ok_def delete_where_def distinct_map_filter)

lemma tokens_update_ok:
  "(\<And>r. hash (f r) = hash r) \<Longrightarrow> tokens_ok hash rs \<Longrightarrow> tokens_ok hash (update_where p f rs)"
  by (simp add: tokens_ok_def map_update_where_same)

lemma live_inserted:
  "h \<notin> hash ` set rs \<Longrightarrow> now < e \<Longrightarrow>
   live_row hash expires h now (rs @ [mk h e c]) = Some (mk h e c)"
  by (induction rs) (auto simp: live_row_def hash_mk expires_mk)

lemma live_other:
  "h' \<noteq> h \<Longrightarrow> live_row hash expires h' now (rs @ [mk h e c]) = live_row hash expires h' now rs"
  by (induction rs) (auto simp: live_row_def hash_mk)

lemma live_deleted: "live_row hash expires h now (delete_where (\<lambda>r. hash r = h) rs) = None"
  by (auto simp: live_row_def find_None_iff)

lemma live_keep:
  "h' \<noteq> h \<Longrightarrow>
   live_row hash expires h' now (delete_where (\<lambda>r. hash r = h) rs) = live_row hash expires h' now rs"
  by (induction rs) (auto simp: live_row_def delete_where_def)

lemma live_after_expiry:
  "lim \<le> now \<Longrightarrow>
   live_row hash expires h now (delete_where (\<lambda>r. expires r \<le> lim) rs) = live_row hash expires h now rs"
  by (induction rs) (auto simp: live_row_def delete_where_def)

lemma live_row_member:
  "live_row hash expires h now rs = Some r \<Longrightarrow> r \<in> set rs \<and> hash r = h \<and> now < expires r"
  by (auto simp: live_row_def find_Some_iff)

end

end
