(* ===== verification/Database.thy ===== *)
theory Database
  imports Table Targets_Model
begin

text \<open>
  The SQLite database behind \<^verbatim>\<open>internal/store\<close>: the tables of the two migrations as lists
  of rows, the schema's constraints as an invariant, and how a statement runs. The driver may
  fail any statement; \<open>faults\<close> scripts which of the coming driver calls fail (an exhausted
  script means no more failures), so that a theorem over every database is a theorem over
  every pattern of failures. A failed statement changes no table, and a transaction that
  fails is rolled back.
\<close>

section \<open>Tables\<close>

record check_row =
  c_id :: int
  c_target :: int
  c_at :: int
  c_ok :: bool
  c_latency :: int
  c_status :: int
  c_error :: string
  c_players :: "int option"
  c_max_players :: "int option"
  c_version :: "string option"

record hourly_row =
  h_target :: int
  h_hour :: int
  h_total :: int
  h_ok :: int
  h_avg :: int
  h_p95 :: int
  h_max :: int

record incident_row =
  i_id :: int
  i_target :: int
  i_started :: int
  i_ended :: "int option"
  i_cause :: string
  i_mailed_down :: bool
  i_mailed_up :: bool

record admin_row =
  a_username :: string
  a_pw_hash :: string
  a_updated :: int

record session_row =
  s_hash :: string
  s_csrf :: string
  s_created :: int
  s_expires :: int
  s_seen :: int

record device_row =
  d_hash :: string
  d_created :: int
  d_expires :: int

record db =
  targets :: "target_row list"
  checks :: "check_row list"
  hourly :: "hourly_row list"
  incidents :: "incident_row list"
  admin :: "admin_row option"
  sessions :: "session_row list"
  devices :: "device_row list"
  faults :: "bool list"

definition empty_db :: db where
  "empty_db = \<lparr>targets = [], checks = [], hourly = [], incidents = [], admin = None,
     sessions = [], devices = [], faults = []\<rparr>"

section \<open>Running statements\<close>

definition exec :: "(db \<Rightarrow> 'a result \<times> db) \<Rightarrow> db \<Rightarrow> 'a result \<times> db" where
  "exec stmt d =
     (case faults d of
        [] \<Rightarrow> stmt d
      | f # fs \<Rightarrow> if f then (Inl ErrDriver, d\<lparr>faults := fs\<rparr>) else stmt (d\<lparr>faults := fs\<rparr>))"

text \<open>\<^verbatim>\<open>if err != nil { return err }\<close> between two calls: the error of the first is the
  result, its value goes to the second.\<close>

definition and_then ::
    "('s \<Rightarrow> 'a result \<times> 's) \<Rightarrow> ('a \<Rightarrow> 's \<Rightarrow> 'b result \<times> 's) \<Rightarrow> 's \<Rightarrow> 'b result \<times> 's" where
  "and_then f g d = (case f d of (Inl e, d1) \<Rightarrow> (Inl e, d1) | (Inr x, d1) \<Rightarrow> g x d1)"

text \<open>\<^verbatim>\<open>BeginTx\<close>, the statements of the transaction, \<^verbatim>\<open>Commit\<close>; the deferred
  \<^verbatim>\<open>Rollback\<close> restores the tables when any of them fails.\<close>

definition transact :: "(db \<Rightarrow> 'a result \<times> db) \<Rightarrow> db \<Rightarrow> 'a result \<times> db" where
  "transact body d =
     (case exec (\<lambda>d. (Inr (), d)) d of
        (Inl e, d1) \<Rightarrow> (Inl e, d1)
      | (Inr _, d1) \<Rightarrow>
          (case body d1 of
             (Inl e, d2) \<Rightarrow> (Inl e, d1\<lparr>faults := faults d2\<rparr>)
           | (Inr x, d2) \<Rightarrow>
               (case exec (\<lambda>d. (Inr (), d)) d2 of
                  (Inl e, d3) \<Rightarrow> (Inl e, d1\<lparr>faults := faults d3\<rparr>)
                | (Inr _, d3) \<Rightarrow> (Inr x, d3))))"

text \<open>No failure is scripted.\<close>

definition healthy :: "db \<Rightarrow> bool" where "healthy d \<longleftrightarrow> faults d = []"

section \<open>The schema's constraints\<close>

definition target_checks :: "'a target_cols_scheme \<Rightarrow> bool" where
  "target_checks t \<longleftrightarrow>
     Kind t \<in> {KindHTTP, KindTCP, KindFiveM} \<and> 30 \<le> IntervalS t \<and> 500 \<le> TimeoutMs t \<and>
     1 \<le> FailThreshold t \<and> FailThreshold t \<le> 20"

definition target_exists :: "int \<Rightarrow> db \<Rightarrow> bool" where
  "target_exists i d \<longleftrightarrow> i \<in> ID ` set (targets d)"

definition targets_ok :: "db \<Rightarrow> bool" where
  "targets_ok d \<longleftrightarrow> rows_ok ID (targets d) \<and> (\<forall>t \<in> set (targets d). target_checks t)"

definition checks_ok :: "db \<Rightarrow> bool" where
  "checks_ok d \<longleftrightarrow> rows_ok c_id (checks d) \<and> (\<forall>c \<in> set (checks d). target_exists (c_target c) d)"

definition hour_len :: int where "hour_len = 3600"

definition hourly_ok :: "db \<Rightarrow> bool" where
  "hourly_ok d \<longleftrightarrow>
     distinct (map (\<lambda>h. (h_target h, h_hour h)) (hourly d)) \<and>
     (\<forall>h \<in> set (hourly d). target_exists (h_target h) d \<and> hour_len dvd h_hour h \<and>
        0 \<le> h_ok h \<and> h_ok h \<le> h_total h)"

text \<open>At most one incident of a target is open, and only an ended one was announced as over.\<close>

definition open_at :: "int \<Rightarrow> incident_row \<Rightarrow> bool" where
  "open_at t i \<longleftrightarrow> i_target i = t \<and> i_ended i = None"

definition one_open :: "incident_row list \<Rightarrow> bool" where
  "one_open rs \<longleftrightarrow>
     (\<forall>i \<in> set rs. \<forall>j \<in> set rs.
        i_ended i = None \<and> i_ended j = None \<and> i_target i = i_target j \<longrightarrow> i_id i = i_id j)"

definition incidents_ok :: "db \<Rightarrow> bool" where
  "incidents_ok d \<longleftrightarrow>
     rows_ok i_id (incidents d) \<and> one_open (incidents d) \<and>
     (\<forall>i \<in> set (incidents d). target_exists (i_target i) d \<and> (i_mailed_up i \<longrightarrow> i_ended i \<noteq> None))"

definition tokens_db_ok :: "db \<Rightarrow> bool" where
  "tokens_db_ok d \<longleftrightarrow> tokens_ok s_hash (sessions d) \<and> tokens_ok d_hash (devices d)"

definition db_ok :: "db \<Rightarrow> bool" where
  "db_ok d \<longleftrightarrow> targets_ok d \<and> checks_ok d \<and> hourly_ok d \<and> incidents_ok d \<and> tokens_db_ok d"

lemmas db_ok_defs = targets_ok_def checks_ok_def hourly_ok_def incidents_ok_def tokens_db_ok_def
  target_exists_def

section \<open>Facts about running statements\<close>

lemma faults_irrelevant [simp]:
  "targets_ok (d\<lparr>faults := fs\<rparr>) = targets_ok d"
  "checks_ok (d\<lparr>faults := fs\<rparr>) = checks_ok d"
  "hourly_ok (d\<lparr>faults := fs\<rparr>) = hourly_ok d"
  "incidents_ok (d\<lparr>faults := fs\<rparr>) = incidents_ok d"
  "tokens_db_ok (d\<lparr>faults := fs\<rparr>) = tokens_db_ok d"
  "db_ok (d\<lparr>faults := fs\<rparr>) = db_ok d"
  "target_exists t (d\<lparr>faults := fs\<rparr>) = target_exists t d"
  by (simp_all add: db_ok_defs db_ok_def)

lemma empty_db_ok [simp]: "db_ok empty_db"
  by (simp add: db_ok_def db_ok_defs empty_db_def one_open_def tokens_ok_def)

lemma one_openI:
  "(\<And>i j. i \<in> set rs \<Longrightarrow> j \<in> set rs \<Longrightarrow> i_ended i = None \<Longrightarrow> i_ended j = None \<Longrightarrow>
     i_target i = i_target j \<Longrightarrow> i_id i = i_id j) \<Longrightarrow> one_open rs"
  unfolding one_open_def by blast

lemma one_openD:
  "one_open rs \<Longrightarrow> i \<in> set rs \<Longrightarrow> j \<in> set rs \<Longrightarrow> i_ended i = None \<Longrightarrow> i_ended j = None \<Longrightarrow>
     i_target i = i_target j \<Longrightarrow> i_id i = i_id j"
  unfolding one_open_def by blast

lemma one_open_snoc:
  assumes "one_open rs" and none: "\<And>i. i \<in> set rs \<Longrightarrow> \<not> open_at (i_target r) i"
  shows "one_open (rs @ [r])"
proof (rule one_openI)
  fix i j
  assume i: "i \<in> set (rs @ [r])" "i_ended i = None" and j: "j \<in> set (rs @ [r])" "i_ended j = None"
    and same: "i_target i = i_target j"
  consider "i = r" "j = r" | "i \<in> set rs" "j \<in> set rs" | "i = r" "j \<in> set rs" | "i \<in> set rs" "j = r"
    using i(1) j(1) by auto
  then show "i_id i = i_id j"
  proof cases
    case 2
    show ?thesis by (rule one_openD [OF assms(1) 2 i(2) j(2) same])
  next
    case 3
    then show ?thesis using none [of j] j(2) same by (simp add: open_at_def)
  next
    case 4
    then show ?thesis using none [of i] i(2) same by (simp add: open_at_def)
  qed simp
qed

text \<open>Replacing one table keeps the invariant as soon as the new rows satisfy the table's own
  constraints.\<close>

lemma db_ok_targetsI:
  "db_ok d \<Longrightarrow> rows_ok ID ts \<Longrightarrow> (\<And>t. t \<in> set ts \<Longrightarrow> target_checks t) \<Longrightarrow>
   (\<And>c. c \<in> set (checks d) \<Longrightarrow> c_target c \<in> ID ` set ts) \<Longrightarrow>
   (\<And>h. h \<in> set (hourly d) \<Longrightarrow> h_target h \<in> ID ` set ts) \<Longrightarrow>
   (\<And>i. i \<in> set (incidents d) \<Longrightarrow> i_target i \<in> ID ` set ts) \<Longrightarrow>
   db_ok (d\<lparr>targets := ts\<rparr>)"
  by (simp add: db_ok_def db_ok_defs)

lemma db_ok_checksI:
  "db_ok d \<Longrightarrow> rows_ok c_id cs \<Longrightarrow> (\<And>c. c \<in> set cs \<Longrightarrow> target_exists (c_target c) d) \<Longrightarrow>
   db_ok (d\<lparr>checks := cs\<rparr>)"
  by (simp add: db_ok_def db_ok_defs)

lemma db_ok_hourlyI:
  "db_ok d \<Longrightarrow> distinct (map (\<lambda>h. (h_target h, h_hour h)) hs) \<Longrightarrow>
   (\<And>h. h \<in> set hs \<Longrightarrow> target_exists (h_target h) d \<and> hour_len dvd h_hour h \<and>
        0 \<le> h_ok h \<and> h_ok h \<le> h_total h) \<Longrightarrow>
   db_ok (d\<lparr>hourly := hs\<rparr>)"
  by (simp add: db_ok_def db_ok_defs)

lemma db_ok_incidentsI:
  "db_ok d \<Longrightarrow> rows_ok i_id is \<Longrightarrow> one_open is \<Longrightarrow>
   (\<And>i. i \<in> set is \<Longrightarrow> target_exists (i_target i) d \<and> (i_mailed_up i \<longrightarrow> i_ended i \<noteq> None)) \<Longrightarrow>
   db_ok (d\<lparr>incidents := is\<rparr>)"
  by (simp add: db_ok_def db_ok_defs)

lemma db_ok_tokens:
  "db_ok d \<Longrightarrow> tokens_ok s_hash ss \<Longrightarrow> db_ok (d\<lparr>sessions := ss\<rparr>)"
  "db_ok d \<Longrightarrow> tokens_ok d_hash ds \<Longrightarrow> db_ok (d\<lparr>devices := ds\<rparr>)"
  "db_ok (d\<lparr>admin := a\<rparr>) = db_ok d"
  by (simp_all add: db_ok_def db_ok_defs)

text \<open>What the invariant says of each table.\<close>

lemma db_okD:
  assumes "db_ok d"
  shows "rows_ok ID (targets d)" "t \<in> set (targets d) \<Longrightarrow> target_checks t"
    "rows_ok c_id (checks d)" "c \<in> set (checks d) \<Longrightarrow> target_exists (c_target c) d"
    "distinct (map (\<lambda>h. (h_target h, h_hour h)) (hourly d))"
    "h \<in> set (hourly d) \<Longrightarrow> target_exists (h_target h) d"
    "h \<in> set (hourly d) \<Longrightarrow> hour_len dvd h_hour h"
    "h \<in> set (hourly d) \<Longrightarrow> 0 \<le> h_ok h \<and> h_ok h \<le> h_total h"
    "rows_ok i_id (incidents d)" "one_open (incidents d)"
    "i \<in> set (incidents d) \<Longrightarrow> target_exists (i_target i) d"
    "i \<in> set (incidents d) \<Longrightarrow> i_mailed_up i \<Longrightarrow> i_ended i \<noteq> None"
    "tokens_ok s_hash (sessions d)" "tokens_ok d_hash (devices d)"
  using assms
  by (simp_all add: db_ok_def targets_ok_def checks_ok_def hourly_ok_def incidents_ok_def tokens_db_ok_def)

lemma exec_healthy [simp]: "healthy d \<Longrightarrow> exec stmt d = stmt d"
  by (simp add: exec_def healthy_def)

lemma and_then_Inr:
  "and_then f g d = (Inr y, d') \<longleftrightarrow> (\<exists>x d1. f d = (Inr x, d1) \<and> g x d1 = (Inr y, d'))"
  by (auto simp: and_then_def split: prod.splits sum.splits)

lemma exec_cases:
  obtains (fault) fs where "exec stmt d = (Inl ErrDriver, d\<lparr>faults := fs\<rparr>)"
    | (run) fs where "exec stmt d = stmt (d\<lparr>faults := fs\<rparr>)"
proof (cases "faults d")
  case Nil
  then have same: "d\<lparr>faults := []\<rparr> = d" by (cases d) simp
  show ?thesis using run [of "[]"] by (simp add: exec_def Nil same)
next
  case (Cons f fs)
  then show ?thesis using fault [of fs] run [of fs] by (cases f) (simp_all add: exec_def)
qed

lemma exec_rule:
  "(\<And>fs. P (Inl ErrDriver, d\<lparr>faults := fs\<rparr>)) \<Longrightarrow> (\<And>fs. P (stmt (d\<lparr>faults := fs\<rparr>))) \<Longrightarrow>
   P (exec stmt d)"
  by (cases rule: exec_cases [of stmt d]) simp_all

lemma transact_cases:
  obtains (fault) e fs where "transact body d = (Inl e, d\<lparr>faults := fs\<rparr>)"
    | (run) fs gs x d2 where "body (d\<lparr>faults := fs\<rparr>) = (Inr x, d2)"
        "transact body d = (Inr x, d2\<lparr>faults := gs\<rparr>)"
proof (cases rule: exec_cases [of "\<lambda>d. (Inr (), d)" d])
  case (fault fs)
  then show ?thesis using that(1) [of ErrDriver fs] by (simp add: transact_def)
next
  case (run fs)
  show ?thesis
  proof (cases "body (d\<lparr>faults := fs\<rparr>)")
    case (Pair r d2)
    show ?thesis
    proof (cases r)
      case (Inl e)
      then show ?thesis using run Pair that(1) [of e "faults d2"] by (simp add: transact_def)
    next
      case (Inr x)
      show ?thesis
        using run Pair Inr that(1) that(2) [of fs x d2]
        by (cases rule: exec_cases [of "\<lambda>d. (Inr (), d)" d2]) (simp_all add: transact_def)
    qed
  qed
qed

lemma transact_healthy:
  "healthy d \<Longrightarrow> body d = (Inr x, d2) \<Longrightarrow> healthy d2 \<Longrightarrow> transact body d = (Inr x, d2)"
  by (simp add: transact_def)

text \<open>A property of the tables that ignores the failure script is kept by a statement, and by
  a transaction, as soon as the statement itself keeps it.\<close>

locale table_property =
  fixes I :: "db \<Rightarrow> bool"
  assumes ignores_faults: "I (d\<lparr>faults := fs\<rparr>) = I d"
begin

lemma exec_keeps: "(\<And>d. I d \<Longrightarrow> I (snd (stmt d))) \<Longrightarrow> I d \<Longrightarrow> I (snd (exec stmt d))"
  by (cases rule: exec_cases [of stmt d]) (simp_all add: ignores_faults)

lemma and_then_keeps:
  "(\<And>d. I d \<Longrightarrow> I (snd (f d))) \<Longrightarrow> (\<And>x d. I d \<Longrightarrow> I (snd (g x d))) \<Longrightarrow> I d \<Longrightarrow> I (snd (and_then f g d))"
  by (simp add: and_then_def split: prod.split sum.split) (metis snd_conv)

lemma transact_keeps: "(\<And>d. I d \<Longrightarrow> I (snd (body d))) \<Longrightarrow> I d \<Longrightarrow> I (snd (transact body d))"
proof (cases rule: transact_cases [of body d])
  case (run fs gs x d2)
  assume keep: "\<And>d. I d \<Longrightarrow> I (snd (body d))" and "I d"
  then have "I (snd (body (d\<lparr>faults := fs\<rparr>)))" by (simp add: ignores_faults)
  then show ?thesis by (simp add: run ignores_faults)
qed (simp add: ignores_faults)

end

interpretation schema: table_property db_ok
  by unfold_locales simp

end
