(* ===== verification/Store_Targets.thy ===== *)
theory Store_Targets
  imports Database
begin

text \<open>
  The operations of \<^verbatim>\<open>internal/store/targets.go\<close> and \<^verbatim>\<open>internal/store/checks.go\<close>. Every
  operation takes the store's clock where the code reads it, runs one statement and returns
  the result with the new database; each is shown to keep the schema's constraints under any
  pattern of driver failures.
\<close>

section \<open>Targets\<close>

definition mk_target :: "int \<Rightarrow> 'a target_cols_scheme \<times> int \<times> int \<Rightarrow> target_row" where
  "mk_target i c = (case c of (t, created, updated) \<Rightarrow>
     \<lparr>ID = i, Name = Name t, Kind = Kind t, Address = Address t, ExpectStatus = ExpectStatus t,
      Keyword = Keyword t, ConnectTo = ConnectTo t, IntervalS = IntervalS t,
      TimeoutMs = TimeoutMs t, FailThreshold = FailThreshold t, Public = Public t,
      Paused = Paused t, Sort = Sort t, t_created = created, t_updated = updated\<rparr>)"

definition scanTarget :: "target_row \<Rightarrow> Target" where
  "scanTarget r =
     \<lparr>ID = ID r, Name = Name r, Kind = Kind r, Address = Address r, ExpectStatus = ExpectStatus r,
      Keyword = Keyword r, ConnectTo = ConnectTo r, IntervalS = IntervalS r,
      TimeoutMs = TimeoutMs r, FailThreshold = FailThreshold r, Public = Public r,
      Paused = Paused r, Sort = Sort r, CreatedAt = fromUnix (t_created r),
      UpdatedAt = fromUnix (t_updated r)\<rparr>"

definition CreateTarget :: "time \<Rightarrow> 'a target_cols_scheme \<Rightarrow> db \<Rightarrow> int result \<times> db" where
  "CreateTarget now t = exec (\<lambda>d.
     let i = next_rowid (map ID (targets d)); r = mk_target i (t, unixSec now, unixSec now)
     in if target_checks r then (Inr i, d\<lparr>targets := targets d @ [r]\<rparr>)
        else (Inl ErrConstraint, d))"

definition UpdateTarget :: "time \<Rightarrow> 'a target_cols_scheme \<Rightarrow> db \<Rightarrow> unit result \<times> db" where
  "UpdateTarget now t = exec (\<lambda>d.
     let n = count_where (\<lambda>r. ID r = ID t) (targets d)
     in if n \<noteq> 0 \<and> \<not> target_checks t then (Inl ErrConstraint, d)
        else (affected n,
          d\<lparr>targets := update_where (\<lambda>r. ID r = ID t)
              (\<lambda>r. mk_target (ID r) (t, t_created r, unixSec now)) (targets d)\<rparr>))"

text \<open>\<^verbatim>\<open>on delete cascade\<close>: the checks, hours and incidents of a deleted target go with it.\<close>

definition DeleteTarget :: "int \<Rightarrow> db \<Rightarrow> unit result \<times> db" where
  "DeleteTarget i = exec (\<lambda>d.
     (affected (count_where (\<lambda>r. ID r = i) (targets d)),
      d\<lparr>checks := delete_where (\<lambda>c. c_target c = i) (checks d),
        hourly := delete_where (\<lambda>h. h_target h = i) (hourly d),
        incidents := delete_where (\<lambda>j. i_target j = i) (incidents d),
        targets := delete_where (\<lambda>r. ID r = i) (targets d)\<rparr>))"

definition SetPaused :: "time \<Rightarrow> int \<Rightarrow> bool \<Rightarrow> db \<Rightarrow> unit result \<times> db" where
  "SetPaused now i paused = exec (\<lambda>d.
     (affected (count_where (\<lambda>r. ID r = i) (targets d)),
      d\<lparr>targets := update_where (\<lambda>r. ID r = i)
          (\<lambda>r. r\<lparr>Paused := paused, t_updated := unixSec now\<rparr>) (targets d)\<rparr>))"

definition StoreTarget :: "int \<Rightarrow> db \<Rightarrow> Target result \<times> db" where
  "StoreTarget i = exec (\<lambda>d.
     (case find_row ID i (targets d) of
        None \<Rightarrow> (Inl ErrNotFound, d)
      | Some r \<Rightarrow> (Inr (scanTarget r), d)))"

definition select_targets :: "(target_row \<Rightarrow> bool) \<Rightarrow> db \<Rightarrow> Target list result \<times> db" where
  "select_targets p = exec (\<lambda>d.
     (Inr (map scanTarget (sort_key (\<lambda>r. (Sort r, ID r)) (filter p (targets d)))), d))"

definition StoreTargets :: "db \<Rightarrow> Target list result \<times> db" where
  "StoreTargets = select_targets (\<lambda>_. True)"

definition PublicTargets :: "db \<Rightarrow> Target list result \<times> db" where
  "PublicTargets = select_targets Public"

section \<open>Checks\<close>

record Check =
  chk_At :: time
  chk_Result :: Result

definition mk_check :: "int \<Rightarrow> int \<times> int \<times> Result \<Rightarrow> check_row" where
  "mk_check i c = (case c of (target, t, r) \<Rightarrow>
     \<lparr>c_id = i, c_target = target, c_at = t, c_ok = res_OK r, c_latency = res_LatencyMs r,
      c_status = res_StatusCode r, c_error = res_Err r, c_players = res_Players r,
      c_max_players = res_MaxPlayers r,
      c_version = (if res_Version r \<noteq> [] then Some (res_Version r) else None)\<rparr>)"

definition scanCheck :: "check_row \<Rightarrow> Check" where
  "scanCheck c =
     \<lparr>chk_At = fromUnix (c_at c), chk_Result =
        \<lparr>res_OK = c_ok c, res_LatencyMs = c_latency c, res_StatusCode = c_status c,
         res_Err = c_error c, res_Players = c_players c, res_MaxPlayers = c_max_players c,
         res_Version = (case c_version c of None \<Rightarrow> [] | Some v \<Rightarrow> v)\<rparr>\<rparr>"

definition InsertCheck :: "int \<Rightarrow> time \<Rightarrow> Result \<Rightarrow> db \<Rightarrow> unit result \<times> db" where
  "InsertCheck target t r = exec (\<lambda>d.
     if target_exists target d
     then (Inr (), d\<lparr>checks := checks d @
            [mk_check (next_rowid (map c_id (checks d))) (target, unixSec t, r)]\<rparr>)
     else (Inl ErrConstraint, d))"

text \<open>\<^verbatim>\<open>order by at desc, id desc limit n\<close>; a negative limit is no limit.\<close>

definition limit_rows :: "int \<Rightarrow> 'r list \<Rightarrow> 'r list" where
  "limit_rows n rs = (if n < 0 then rs else take (nat n) rs)"

definition LastChecks :: "int \<Rightarrow> int \<Rightarrow> db \<Rightarrow> Check list result \<times> db" where
  "LastChecks target n = exec (\<lambda>d.
     (Inr (map scanCheck (limit_rows n (rev (sort_key (\<lambda>c. (c_at c, c_id c))
        (filter (\<lambda>c. c_target c = target) (checks d)))))), d))"

definition hourStart :: "time \<Rightarrow> int" where
  "hourStart t = unixSec t - unixSec t smod hour_len"

definition HourChecks :: "time \<Rightarrow> int \<Rightarrow> db \<Rightarrow> Check list result \<times> db" where
  "HourChecks now target = exec (\<lambda>d.
     (Inr (map scanCheck (sort_key (\<lambda>c. (c_at c, c_id c))
        (filter (\<lambda>c. c_target c = target \<and> hourStart now \<le> c_at c) (checks d)))), d))"

section \<open>The rowid interface\<close>

interpretation target_rows: rowid_table ID mk_target
  by unfold_locales (simp add: mk_target_def split: prod.split)

interpretation check_rows: rowid_table c_id mk_check
  by unfold_locales (simp add: mk_check_def split: prod.split)

lemma mk_target_sel [simp]:
  "ID (mk_target i c) = i"
  "Paused (mk_target i (t, a, b)) = Paused t"
  "target_checks (mk_target i (t, a, b)) = target_checks t"
  by (simp_all add: mk_target_def target_checks_def split: prod.split)

lemma mk_check_sel [simp]:
  "c_id (mk_check i c) = i"
  "c_target (mk_check i (g, t, r)) = g"
  "c_at (mk_check i (g, t, r)) = t"
  "c_ok (mk_check i (g, t, r)) = res_OK r"
  "c_error (mk_check i (g, t, r)) = res_Err r"
  by (simp_all add: mk_check_def split: prod.split)

lemma scanCheck_mk_check: "scanCheck (mk_check i (g, t, r)) = \<lparr>chk_At = fromUnix t, chk_Result = r\<rparr>"
  by (simp add: scanCheck_def mk_check_def)

section \<open>Every operation keeps the schema\<close>

lemma ids_update_where:
  "(\<And>r. ID (f r) = ID r) \<Longrightarrow> ID ` set (update_where p f rs) = ID ` set rs"
  by (metis list.set_map map_update_where_same)

lemma update_targets_ok:
  assumes ok: "db_ok d" and id: "\<And>r. ID (f r) = ID r"
    and chk: "\<And>r. r \<in> set (targets d) \<Longrightarrow> p r \<Longrightarrow> target_checks (f r)"
  shows "db_ok (d\<lparr>targets := update_where p f (targets d)\<rparr>)"
proof (rule db_ok_targetsI [OF ok])
  show "rows_ok ID (update_where p f (targets d))"
    using id db_okD(1) [OF ok] by (rule target_rows.update_ok)
  show "target_checks t" if "t \<in> set (update_where p f (targets d))" for t
    using that chk db_okD(2) [OF ok] by auto
qed (simp_all only: ids_update_where [OF id] db_okD(4,6,11) [OF ok, unfolded target_exists_def])

lemma insert_target_ok:
  assumes ok: "db_ok d" and chk: "target_checks t"
  shows "db_ok (d\<lparr>targets := targets d @ [mk_target (next_rowid (map ID (targets d))) (t, a, b)]\<rparr>)"
  by (rule db_ok_targetsI [OF ok target_rows.insert_ok [OF db_okD(1) [OF ok]]])
    (use chk db_okD(2,4,6,11) [OF ok] in \<open>auto simp: target_exists_def\<close>)

lemma CreateTarget_keeps: "db_ok d \<Longrightarrow> db_ok (snd (CreateTarget now t d))"
  unfolding CreateTarget_def
  by (rule schema.exec_keeps) (simp_all add: Let_def insert_target_ok)

lemma UpdateTarget_keeps: "db_ok d \<Longrightarrow> db_ok (snd (UpdateTarget now t d))"
  unfolding UpdateTarget_def
  by (rule schema.exec_keeps)
    (auto simp: Let_def count_where_zero update_where_none intro!: update_targets_ok)

lemma SetPaused_keeps: "db_ok d \<Longrightarrow> db_ok (snd (SetPaused now i paused d))"
  unfolding SetPaused_def
proof (rule schema.exec_keeps)
  fix d assume ok: "db_ok d"
  have "db_ok (d\<lparr>targets := update_where (\<lambda>r. ID r = i)
      (\<lambda>r. r\<lparr>Paused := paused, t_updated := unixSec now\<rparr>) (targets d)\<rparr>)"
    using db_okD(2) [OF ok] by (intro update_targets_ok [OF ok]) (auto simp: target_checks_def)
  then show "db_ok (snd (affected (count_where (\<lambda>r. ID r = i) (targets d)),
      d\<lparr>targets := update_where (\<lambda>r. ID r = i)
          (\<lambda>r. r\<lparr>Paused := paused, t_updated := unixSec now\<rparr>) (targets d)\<rparr>))"
    by simp
qed

lemma one_open_subset: "one_open rs \<Longrightarrow> set rs' \<subseteq> set rs \<Longrightarrow> one_open rs'"
  unfolding one_open_def by blast

lemma delete_checks_ok: "db_ok d \<Longrightarrow> db_ok (d\<lparr>checks := delete_where p (checks d)\<rparr>)"
  by (rule db_ok_checksI) (auto intro: check_rows.delete_ok db_okD)

lemma delete_hourly_ok: "db_ok d \<Longrightarrow> db_ok (d\<lparr>hourly := delete_where p (hourly d)\<rparr>)"
  by (rule db_ok_hourlyI)
    (use db_okD(5-8) [of d] in \<open>auto simp: delete_where_def distinct_map_filter\<close>)

lemma delete_incidents_ok: "db_ok d \<Longrightarrow> db_ok (d\<lparr>incidents := delete_where p (incidents d)\<rparr>)"
  by (rule db_ok_incidentsI)
    (use db_okD(9-12) [of d] in
      \<open>auto simp: rows_ok_def delete_where_def distinct_map_filter intro: one_open_subset\<close>)

lemma image_other: "f ` {r \<in> A. f r \<noteq> i} = f ` A - {i}"
  by auto

lemma cascade_ok:
  assumes "db_ok d"
  shows "db_ok (d\<lparr>checks := delete_where (\<lambda>c. c_target c = i) (checks d),
        hourly := delete_where (\<lambda>h. h_target h = i) (hourly d),
        incidents := delete_where (\<lambda>j. i_target j = i) (incidents d),
        targets := delete_where (\<lambda>r. ID r = i) (targets d)\<rparr>)" (is "db_ok (?d\<lparr>targets := _\<rparr>)")
proof (rule db_ok_targetsI)
  have "db_ok (d\<lparr>checks := delete_where (\<lambda>c. c_target c = i) (checks d)\<rparr>)"
    by (rule delete_checks_ok [OF assms])
  from delete_incidents_ok [OF delete_hourly_ok [OF this]]
  show "db_ok ?d" by simp
  show "rows_ok ID (delete_where (\<lambda>r. ID r = i) (targets d))"
    by (rule target_rows.delete_ok [OF db_okD(1) [OF assms]])
qed (use db_okD(2,4,6,11) [OF assms] in \<open>auto simp: target_exists_def image_other\<close>)

lemma DeleteTarget_keeps: "db_ok d \<Longrightarrow> db_ok (snd (DeleteTarget i d))"
  unfolding DeleteTarget_def by (rule schema.exec_keeps) (simp_all add: cascade_ok)

lemma InsertCheck_keeps: "db_ok d \<Longrightarrow> db_ok (snd (InsertCheck target t r d))"
  unfolding InsertCheck_def
proof (rule schema.exec_keeps)
  fix d assume ok: "db_ok d"
  let ?c = "mk_check (next_rowid (map c_id (checks d))) (target, unixSec t, r)"
  have "target_exists target d \<Longrightarrow> db_ok (d\<lparr>checks := checks d @ [?c]\<rparr>)"
    by (rule db_ok_checksI [OF ok check_rows.insert_ok [OF db_okD(3) [OF ok]]])
      (use db_okD(4) [OF ok] in auto)
  then show "db_ok (snd (if target_exists target d then (Inr (), d\<lparr>checks := checks d @ [?c]\<rparr>)
     else (Inl ErrConstraint, d)))"
    using ok by simp
qed

text \<open>A query changes nothing but the failure script.\<close>

definition reads :: "(db \<Rightarrow> 'a result \<times> db) \<Rightarrow> bool" where
  "reads q \<longleftrightarrow> (\<forall>d. \<exists>fs. snd (q d) = d\<lparr>faults := fs\<rparr>)"

lemma reads_exec: "(\<And>d. snd (q d) = d) \<Longrightarrow> reads (exec q)"
  unfolding reads_def
proof
  fix d assume "\<And>d. snd (q d) = d"
  then show "\<exists>fs. snd (exec q d) = d\<lparr>faults := fs\<rparr>"
    by (cases rule: exec_cases [of q d]) auto
qed

lemma reads_and_then: "reads f \<Longrightarrow> (\<And>x. reads (g x)) \<Longrightarrow> reads (and_then f g)"
  unfolding reads_def
proof
  fix d assume f: "\<forall>d. \<exists>fs. snd (f d) = d\<lparr>faults := fs\<rparr>"
    and g: "\<And>x. \<forall>d. \<exists>fs. snd (g x d) = d\<lparr>faults := fs\<rparr>"
  obtain r fs where r: "f d = (r, d\<lparr>faults := fs\<rparr>)" using f by (metis prod.collapse)
  show "\<exists>fs. snd (and_then f g d) = d\<lparr>faults := fs\<rparr>"
  proof (cases r)
    case (Inr x)
    then show ?thesis
      using r g [THEN spec, of x "d\<lparr>faults := fs\<rparr>"] by (auto simp: and_then_def)
  qed (use r in \<open>auto simp: and_then_def\<close>)
qed

lemma reads_db_ok: "reads q \<Longrightarrow> db_ok (snd (q d)) = db_ok d"
  unfolding reads_def by (metis faults_irrelevant(6))

lemma target_queries_read [simp]:
  "reads (StoreTarget i)" "reads StoreTargets" "reads PublicTargets" "reads (LastChecks g n)"
  "reads (HourChecks now g)"
  unfolding StoreTarget_def StoreTargets_def PublicTargets_def select_targets_def LastChecks_def
    HourChecks_def
  by (rule reads_exec, simp split: option.split)+

end
