(* ===== verification/Validate.thy ===== *)
theory Validate
  imports Checker Netaddr_Text Store_Targets
begin

text \<open>
  The validation of a target's form, \<^verbatim>\<open>internal/check/validate.go\<close>. The result is the map from a field to
  its message, empty when there is nothing to say. \<^verbatim>\<open>url.Parse\<close> is the argument \<open>parseURL\<close>; everything
  else, host names, addresses, ports, characters and numbers, is modelled. The loop over the map of
  texts sets each key at most once, so its order does not matter.
\<close>

section \<open>Hosts and ports\<close>

definition isAlnum :: "char \<Rightarrow> bool" where
  "isAlnum c \<longleftrightarrow> isDigit c \<or> (65 \<le> byte c \<and> byte c \<le> 90) \<or> (97 \<le> byte c \<and> byte c \<le> 122)"

text \<open>One label of the pattern \<^verbatim>\<open>hostname\<close>: at most 63 letters, digits, underscores and dashes; the first is
  no dash, the last of several is a letter or digit.\<close>

definition isLabel :: "string \<Rightarrow> bool" where
  "isLabel l \<longleftrightarrow> l \<noteq> [] \<and> length l \<le> 63 \<and> (isAlnum (hd l) \<or> hd l = CHR ''_'') \<and>
     (2 \<le> length l \<longrightarrow> isAlnum (last l) \<and> list_all (\<lambda>c. isAlnum c \<or> c = CHR ''_'' \<or> c = CHR ''-'') l)"

definition hostname :: "string \<Rightarrow> bool" where
  "hostname h \<longleftrightarrow>
     (let ls = splitAt (CHR ''.'') h; ms = (if 2 \<le> length ls \<and> last ls = [] then butlast ls else ls)
      in list_all isLabel ms)"

definition validHost :: "string \<Rightarrow> bool" where
  "validHost h \<longleftrightarrow>
     (case ParseAddr h of
        Some ip \<Rightarrow> addrZone ip = []
      | None \<Rightarrow> length h \<le> 253 \<and> hostname h)"

definition validPort :: "string \<Rightarrow> bool" where
  "validPort p \<longleftrightarrow> (case ParseUint p 16 of Some n \<Rightarrow> 0 < n | None \<Rightarrow> False)"

definition hostPort :: "string \<Rightarrow> bool" where
  "hostPort s \<longleftrightarrow> (case SplitHostPort s of Some (host, port) \<Rightarrow> validHost host \<and> validPort port | None \<Rightarrow> False)"

section \<open>Addresses of HTTP targets\<close>

record url =
  u_Scheme :: string
  u_Opaque :: string
  u_HasUser :: bool
  u_Host :: string
  u_Hostname :: string
  u_Port :: string
  u_Path :: string
  u_RawQuery :: string
  u_Fragment :: string

definition checkURL :: "(string \<Rightarrow> url option) \<Rightarrow> string \<Rightarrow> string" where
  "checkURL parseURL s =
     (if 2000 < length s then ''Adresse zu lang''
      else (case parseURL s of
        None \<Rightarrow> ''Adresse mit http:// oder https:// erwartet''
      | Some u \<Rightarrow>
          if u_Scheme u \<noteq> ''http'' \<and> u_Scheme u \<noteq> ''https'' \<or> u_Opaque u \<noteq> []
          then ''Adresse mit http:// oder https:// erwartet''
          else if u_HasUser u then ''Keine Zugangsdaten in der Adresse''
          else if \<not> validHost (u_Hostname u) then ''Host ung'' @ ue @ ''ltig''
          else if u_Port u \<noteq> [] \<and> \<not> validPort (u_Port u) then ''Port 1 bis 65535''
          else []))"

section \<open>The form\<close>

definition noteIf :: "bool \<Rightarrow> string \<Rightarrow> string \<Rightarrow> (string \<rightharpoonup> string) \<Rightarrow> (string \<rightharpoonup> string)" where
  "noteIf b key msg errs = (if b then errs(key \<mapsto> msg) else errs)"

definition checkKind :: "(string \<Rightarrow> url option) \<Rightarrow> 'a target_cols_scheme \<Rightarrow> (string \<rightharpoonup> string) \<Rightarrow> (string \<rightharpoonup> string)" where
  "checkKind parseURL t errs =
     (if Kind t = KindHTTP
      then noteIf (parseStatus (ExpectStatus t) = None \<or> 100 < length (ExpectStatus t)) ''expect_status''
             ''Unbekanntes Format, erlaubt sind Codes, Bereiche und Listen''
             (noteIf (checkURL parseURL (Address t) \<noteq> []) ''address'' (checkURL parseURL (Address t)) errs)
      else if Kind t = KindTCP \<or> Kind t = KindFiveM
      then noteIf (\<not> hostPort (Address t)) ''address'' ''Adresse als host:port erwartet'' errs
      else errs(''kind'' \<mapsto> ''HTTP, TCP oder FiveM''))"

definition checkKeyword :: "'a target_cols_scheme \<Rightarrow> (string \<rightharpoonup> string) \<Rightarrow> (string \<rightharpoonup> string)" where
  "checkKeyword t errs =
     (if 200 < runeCount (Keyword t) then errs(''keyword'' \<mapsto> ''H'' @ oe @ ''chstens 200 Zeichen'')
      else if Keyword t \<noteq> [] \<and> Kind t \<noteq> KindHTTP then errs(''keyword'' \<mapsto> ''Nur bei HTTP'')
      else errs)"

definition checkConnectTo :: "'a target_cols_scheme \<Rightarrow> (string \<rightharpoonup> string) \<Rightarrow> (string \<rightharpoonup> string)" where
  "checkConnectTo t errs =
     (if ConnectTo t = [] then errs
      else if Kind t = KindTCP then errs(''connect_to'' \<mapsto> ''Nur bei HTTP und FiveM'')
      else if \<not> hostPort (ConnectTo t) then errs(''connect_to'' \<mapsto> ''Leer oder host:port'')
      else errs)"

definition sz :: string where "sz = [CHR 0xC3, CHR 0x9F]"

definition checkNumbers :: "'a target_cols_scheme \<Rightarrow> (string \<rightharpoonup> string) \<Rightarrow> (string \<rightharpoonup> string)" where
  "checkNumbers t errs =
     (let hi = min 60000 (IntervalS t * 1000 - 1);
          errs1 = (if IntervalS t < 30 \<or> 86400 < IntervalS t
                   then errs(''interval_s'' \<mapsto> ''Liegt au'' @ sz @ ''erhalb von 30 bis 86400'')
                   else noteIf (TimeoutMs t < 500 \<or> hi < TimeoutMs t) ''timeout_ms'' (''500 bis '' @ Itoa hi @ '' ms'') errs)
      in noteIf (FailThreshold t < 1 \<or> 20 < FailThreshold t) ''fail_threshold''
           (''Liegt au'' @ sz @ ''erhalb von 1 bis 20'') errs1)"

definition checkHidden :: "string \<times> string \<Rightarrow> (string \<rightharpoonup> string) \<Rightarrow> (string \<rightharpoonup> string)" where
  "checkHidden kv errs = noteIf (containsFunc (snd kv) hidden) (fst kv) ''Keine Steuer- oder Formatzeichen'' errs"

definition Validate :: "(string \<Rightarrow> url option) \<Rightarrow> 'a target_cols_scheme \<Rightarrow> (string \<rightharpoonup> string)" where
  "Validate parseURL t =
     (let nm = TrimSpace (Name t);
          errs = noteIf (nm = [] \<or> 60 < runeCount nm) ''name'' ''1 bis 60 Zeichen'' Map.empty
      in fold checkHidden
           [(''name'', Name t), (''address'', Address t), (''keyword'', Keyword t), (''connect_to'', ConnectTo t)]
           (checkNumbers t (checkConnectTo t (checkKeyword t (checkKind parseURL t errs)))))"

section \<open>Nothing to say\<close>

lemma noteIf_empty [simp]: "noteIf b k v errs = Map.empty \<longleftrightarrow> \<not> b \<and> errs = Map.empty"
  by (simp add: noteIf_def)

lemma upd_not_empty [simp]: "m(k \<mapsto> v) \<noteq> Map.empty"
  by (rule map_upd_nonempty)

lemma checkHidden_empty [simp]: "checkHidden kv errs = Map.empty \<longleftrightarrow> \<not> containsFunc (snd kv) hidden \<and> errs = Map.empty"
  by (simp add: checkHidden_def)

lemma checkKind_empty [simp]:
  "checkKind parseURL t errs = Map.empty \<longleftrightarrow> errs = Map.empty \<and> Kind t \<in> {KindHTTP, KindTCP, KindFiveM} \<and>
     (if Kind t = KindHTTP
      then checkURL parseURL (Address t) = [] \<and> parseStatus (ExpectStatus t) \<noteq> None \<and> length (ExpectStatus t) \<le> 100
      else hostPort (Address t))"
  by (auto simp: checkKind_def)

lemma checkKeyword_empty [simp]:
  "checkKeyword t errs = Map.empty \<longleftrightarrow> errs = Map.empty \<and> runeCount (Keyword t) \<le> 200 \<and> (Keyword t = [] \<or> Kind t = KindHTTP)"
  by (auto simp: checkKeyword_def)

lemma checkConnectTo_empty [simp]:
  "checkConnectTo t errs = Map.empty \<longleftrightarrow> errs = Map.empty \<and> (ConnectTo t = [] \<or> Kind t \<noteq> KindTCP \<and> hostPort (ConnectTo t))"
  by (auto simp: checkConnectTo_def)

lemma checkNumbers_empty [simp]:
  "checkNumbers t errs = Map.empty \<longleftrightarrow> errs = Map.empty \<and> 30 \<le> IntervalS t \<and> IntervalS t \<le> 86400 \<and> 500 \<le> TimeoutMs t \<and>
     TimeoutMs t \<le> 60000 \<and> TimeoutMs t < IntervalS t * 1000 \<and> 1 \<le> FailThreshold t \<and> FailThreshold t \<le> 20"
  by (auto simp: checkNumbers_def Let_def)

lemma Validate_empty:
  "Validate parseURL t = Map.empty \<longleftrightarrow>
     TrimSpace (Name t) \<noteq> [] \<and> runeCount (TrimSpace (Name t)) \<le> 60 \<and>
     checkKind parseURL t Map.empty = Map.empty \<and> checkKeyword t Map.empty = Map.empty \<and>
     checkConnectTo t Map.empty = Map.empty \<and> checkNumbers t Map.empty = Map.empty \<and>
     (\<forall>v \<in> {Name t, Address t, Keyword t, ConnectTo t}. \<not> containsFunc v hidden)"
  by (auto simp: Validate_def Let_def)

lemma target_checks_mk_target: "target_checks t \<Longrightarrow> target_checks (mk_target i (t, a, b))"
  by (simp add: target_checks_def mk_target_def)

lemma validated_checks: "Validate parseURL t = Map.empty \<Longrightarrow> target_checks t"
  by (auto simp: Validate_empty target_checks_def)

lemma validated_created:
  "Validate parseURL t = Map.empty \<Longrightarrow> healthy d \<Longrightarrow> fst (CreateTarget now t d) = Inr (next_rowid (map ID (targets d)))"
  using target_checks_mk_target [OF validated_checks] by (simp add: CreateTarget_def Let_def)

text \<open>C21: A target that the validation lets pass is accepted by the store whenever the driver works,
  as a new row and as an update of an existing one; its check times out before the next one is due;
  a check of it never ends with the message that its status codes are malformed; and neither its name
  nor its address nor its keyword holds a control or format character.\<close>

theorem validated_target:
  assumes "Validate parseURL t = Map.empty"
  shows "(healthy d \<longrightarrow> fst (CreateTarget now t d) = Inr (next_rowid (map ID (targets d)))) \<and>
    (healthy d \<longrightarrow> fst (UpdateTarget now t d) = (if target_exists (ID t) d then Inr () else Inl ErrNotFound)) \<and>
    TimeoutMs t < IntervalS t * 1000 \<and>
    (Kind t = KindHTTP \<longrightarrow> (\<exists>rs. parseStatus (ExpectStatus t) = Some rs)) \<and>
    (\<forall>v \<in> {Name t, Address t, Keyword t, ConnectTo t}. \<not> containsFunc v hidden)"
proof -
  have ok: "target_checks t" using assms by (rule validated_checks)
  have "count_where (\<lambda>r. ID r = ID t) (targets d) = 0 \<longleftrightarrow> \<not> target_exists (ID t) d"
    by (force simp: count_where_zero target_exists_def)
  then have "fst (UpdateTarget now t d) = (if target_exists (ID t) d then Inr () else Inl ErrNotFound)" if "healthy d"
    using ok that by (simp add: UpdateTarget_def Let_def affected_def)
  moreover have "fst (CreateTarget now t d) = Inr (next_rowid (map ID (targets d)))" if "healthy d"
    using assms that by (rule validated_created)
  moreover have "Kind t = KindHTTP \<longrightarrow> (\<exists>rs. parseStatus (ExpectStatus t) = Some rs)" "TimeoutMs t < IntervalS t * 1000"
    using assms by (auto simp: Validate_empty)
  moreover have "\<forall>v \<in> {Name t, Address t, Keyword t, ConnectTo t}. \<not> containsFunc v hidden"
    using assms unfolding Validate_empty by (elim conjE)
  ultimately show ?thesis by blast
qed

lemma hidden_ascii: "n < 128 \<Longrightarrow> hidden n \<longleftrightarrow> n \<le> 31 \<or> n = 127"
  by (auto simp: hidden_def isControl_def isFormat_def formatRanges_def)

lemma containsFunc_ascii: "ascii s \<Longrightarrow> containsFunc s f \<longleftrightarrow> list_ex (f \<circ> byte) s"
  by (simp add: containsFunc_def runes_ascii list_ex_iff)

definition tcp_target :: Target where
  "tcp_target = \<lparr>ID = 0, Name = ''web'', Kind = KindTCP, Address = ''h:80'', ExpectStatus = [], Keyword = [], ConnectTo = [],
     IntervalS = 60, TimeoutMs = 5000, FailThreshold = 3, Public = True, Paused = False, Sort = 0, CreatedAt = 0, UpdatedAt = 0\<rparr>"

lemma tcp_target_valid: "Validate (\<lambda>_. None) tcp_target = Map.empty"
proof -
  have a: "ascii ''web''" "ascii ''h:80''" by code_simp+
  have "\<not> isSpace (byte (CHR ''w''))" "\<not> isSpace (byte (CHR ''b''))" by (simp_all add: isSpace_def byte_def)
  then have t: "TrimSpace ''web'' = ''web''" using a(1) by (intro TrimSpace_id) simp_all
  have h: "hostPort ''h:80''" by code_simp
  have "\<not> containsFunc ''web'' hidden" "\<not> containsFunc ''h:80'' hidden"
    by (simp_all add: containsFunc_ascii a hidden_ascii byte_def)
  then show ?thesis
    using t h a by (simp add: Validate_empty tcp_target_def runeCount_def runes_ascii kind_defs containsFunc_def)
qed

theorem validated_target_witness:
  "fst (CreateTarget 0 tcp_target empty_db) = Inr 1 \<and> fst (UpdateTarget 0 tcp_target empty_db) = Inl ErrNotFound"
proof -
  have "healthy empty_db" "next_rowid (map ID (targets empty_db)) = 1" "\<not> target_exists (ID tcp_target) empty_db" by code_simp+
  then show ?thesis using validated_target [OF tcp_target_valid, of empty_db 0] by simp
qed

end
