(* ===== verification/Config.thy ===== *)
theory Config
  imports Validate
begin

text \<open>
  The configuration, \<^verbatim>\<open>internal/config/config.go\<close>: the environment is a function \<open>get\<close>, the result the
  configuration and the errors in the order in which they are found (\<^verbatim>\<open>errors.Join\<close> of none is no error).
  \<^verbatim>\<open>url.Parse\<close>, the two parsers of mail addresses and the quoting of \<^verbatim>\<open>%q\<close> are the argument \<open>lib\<close>.
\<close>

record Config =
  cf_Addr :: string
  cf_DBPath :: string
  cf_BaseURL :: string
  cf_TrustedProxy :: "prefix option"
  cf_CookieSecure :: bool
  cf_PrivateAllow :: "string list"
  cf_RetentionDays :: int
  cf_MetricsToken :: string
  cf_SMTPHost :: string
  cf_SMTPPort :: int
  cf_SMTPUser :: string
  cf_SMTPPass :: string
  cf_MailFrom :: string
  cf_MailTo :: "string list"
  cf_AdminUser :: string
  cf_AdminPassword :: string

definition MailEnabled :: "Config \<Rightarrow> bool" where
  "MailEnabled c \<longleftrightarrow> cf_SMTPHost c \<noteq> [] \<and> 0 < length (cf_MailTo c)"

record config_lib =
  cl_parseURL :: "string \<Rightarrow> url option"
  cl_parseAddress :: "string \<Rightarrow> string option"
  cl_parseAddressList :: "string \<Rightarrow> string list option"
  cl_quote :: "string \<Rightarrow> string"

type_synonym errors = "(string \<times> string) list"

definition fail :: "bool \<Rightarrow> string \<Rightarrow> string \<Rightarrow> errors" where
  "fail b key msg = (if b then [(key, msg)] else [])"

section \<open>Reading one variable\<close>

definition str :: "(string \<Rightarrow> string) \<Rightarrow> string \<Rightarrow> string \<Rightarrow> string" where
  "str get key def = (let v = TrimSpace (get key) in if v \<noteq> [] then v else def)"

definition ParseBool :: "string \<Rightarrow> bool option" where
  "ParseBool s =
     (if s \<in> {''1'', ''t'', ''T'', ''true'', ''TRUE'', ''True''} then Some True
      else if s \<in> {''0'', ''f'', ''F'', ''false'', ''FALSE'', ''False''} then Some False else None)"

definition flag :: "(string \<Rightarrow> string) \<Rightarrow> string \<Rightarrow> bool \<Rightarrow> bool \<times> errors" where
  "flag get key def =
     (let v = str get key [] in
      if v = [] then (def, [])
      else (case ParseBool v of
              Some b \<Rightarrow> (b, [])
            | None \<Rightarrow> (False, [(key, ''true oder false erwartet'')])))"

text \<open>\<^verbatim>\<open>Atoi\<close> also returns a number when it refuses a text: the nearest bound when the digits, read from the
  left, leave the range of 64 bits, and zero otherwise.\<close>

definition atoiValue :: "string \<Rightarrow> int" where
  "atoiValue s =
     (case Atoi s of
        Some n \<Rightarrow> n
      | None \<Rightarrow>
          let ds = (if s \<noteq> [] \<and> (hd s = CHR ''-'' \<or> hd s = CHR ''+'') then tl s else s);
              pre = takeWhile isDigit ds
          in if ds = [] \<or> pre \<noteq> ds \<and> decVal pre < 2 ^ 64 then 0 else if hd s = CHR ''-'' then minInt else maxInt)"

definition num :: "(string \<Rightarrow> string) \<Rightarrow> string \<Rightarrow> int \<Rightarrow> int \<Rightarrow> int \<Rightarrow> int \<times> errors" where
  "num get key def low high =
     (let v = str get key [] in
      if v = [] then (def, [])
      else let n = atoiValue v in
        (n, fail (Atoi v = None \<or> n < low \<or> high < n) key (''zahl von '' @ Itoa low @ '' bis '' @ Itoa high @ '' erwartet'')))"

definition trimSlashes :: "string \<Rightarrow> string" where
  "trimSlashes s = rev (dropWhile (\<lambda>c. c = CHR ''/'') (rev s))"

section \<open>Checks of single settings\<close>

definition badBaseURL :: "config_lib \<Rightarrow> string \<Rightarrow> bool" where
  "badBaseURL lib s \<longleftrightarrow>
     (case cl_parseURL lib s of
        None \<Rightarrow> True
      | Some u \<Rightarrow>
          u_Scheme u \<noteq> ''http'' \<and> u_Scheme u \<noteq> ''https'' \<or> u_Host u = [] \<or> u_HasUser u \<or> u_Path u \<noteq> [] \<or>
          u_RawQuery u \<noteq> [] \<or> u_Fragment u \<noteq> [])"

fun maskedPrefix :: "prefix \<Rightarrow> prefix" where
  "maskedPrefix (P4 a n) = P4 (push_bit (32 - n) (drop_bit (32 - n) a)) n"
| "maskedPrefix (P6 a n) = P6 (push_bit (128 - n) (drop_bit (128 - n) a)) n"

definition goodPrivate :: "string \<Rightarrow> bool" where
  "goodPrivate s \<longleftrightarrow>
     (case SplitHostPort s of
        None \<Rightarrow> False
      | Some (host, port) \<Rightarrow>
          host \<noteq> [] \<and> \<not> containsFunc host isSpace \<and> (case ParseUint port 16 of Some n \<Rightarrow> n \<noteq> 0 | None \<Rightarrow> False))"

fun privateAllow :: "config_lib \<Rightarrow> string list \<Rightarrow> string list \<times> errors" where
  "privateAllow lib [] = ([], [])"
| "privateAllow lib (p # ps) =
     (let s = TrimSpace p; (ok, errs) = privateAllow lib ps in
      if s = [] then (ok, errs)
      else if \<not> goodPrivate s
      then (ok, (''PRIVATE_ALLOW'', cl_quote lib s @ '': host:port mit port 1 bis 65535 erwartet'') # errs)
      else (s # ok, errs))"

definition mailErrors :: "config_lib \<Rightarrow> Config \<Rightarrow> errors" where
  "mailErrors lib c =
     fail (cf_SMTPHost c = [] \<and> 0 < length (cf_MailTo c)) ''SMTP_HOST'' ''fehlt, MAIL_TO ist gesetzt'' @
     (if MailEnabled c
      then (if cf_MailFrom c = [] then [(''MAIL_FROM'', ''fehlt'')]
            else fail (cl_parseAddress lib (cf_MailFrom c) = None) ''MAIL_FROM'' ''adresse ungueltig'') @
           fail ((cf_SMTPUser c = []) \<noteq> (cf_SMTPPass c = [])) ''SMTP_USER'' ''SMTP_USER und SMTP_PASS nur zusammen''
      else [])"

definition adminErrors :: "Config \<Rightarrow> errors" where
  "adminErrors c =
     fail ((cf_AdminUser c = []) \<noteq> (cf_AdminPassword c = [])) ''ADMIN_USER'' ''ADMIN_USER und ADMIN_PASSWORD nur zusammen'' @
     (if cf_AdminUser c \<noteq> []
      then fail (60 < runeCount (cf_AdminUser c) \<or> containsFunc (cf_AdminUser c) isSpace \<or> containsFunc (cf_AdminUser c) isControl)
             ''ADMIN_USER'' ''bis 60 zeichen, keine leerzeichen'' @
           fail (runeCount (cf_AdminPassword c) < 12) ''ADMIN_PASSWORD'' ''mindestens 12 zeichen''
      else [])"

section \<open>The whole configuration\<close>

definition load :: "config_lib \<Rightarrow> (string \<Rightarrow> string) \<Rightarrow> Config \<times> errors" where
  "load lib get =
     (let (secure, e1) = flag get ''COOKIE_SECURE'' True;
          (days, e2) = num get ''RETENTION_DAYS'' 30 1 400;
          (port, e3) = num get ''SMTP_PORT'' 465 1 65535;
          addr = str get ''ADDR'' '':8080'';
          baseURL = trimSlashes (str get ''BASE_URL'' []);
          e4 = fail (case SplitHostPort addr of None \<Rightarrow> True | Some (_, p) \<Rightarrow> p = []) ''ADDR'' ''host:port erwartet, z. b. :8080'';
          e5 = fail (baseURL \<noteq> [] \<and> badBaseURL lib baseURL) ''BASE_URL'' ''z. b. https://status.example.com'';
          e6 = fail (str get ''TRUST_PROXY'' [] \<noteq> []) ''TRUST_PROXY'' ''entfernt, stattdessen TRUSTED_PROXY=cidr des proxy-netzes'';
          proxy = str get ''TRUSTED_PROXY'' [];
          net = (if proxy \<noteq> [] then ParsePrefix proxy else None);
          e7 = fail (proxy \<noteq> [] \<and> net = None) ''TRUSTED_PROXY'' ''cidr erwartet, z. b. 172.20.0.0/24'';
          e8 = fail (str get ''ALLOW_PRIVATE'' [] \<noteq> []) ''ALLOW_PRIVATE'' ''entfernt, stattdessen PRIVATE_ALLOW=host:port,...'';
          (private, e9) = privateAllow lib (splitAt (CHR '','') (str get ''PRIVATE_ALLOW'' []));
          token = str get ''METRICS_TOKEN'' [];
          e10 = fail (token \<noteq> [] \<and> length token < 32) ''METRICS_TOKEN'' ''mindestens 32 zeichen'';
          dest = str get ''MAIL_TO'' [];
          parsed = (if dest \<noteq> [] then cl_parseAddressList lib dest else Some []);
          e11 = fail (parsed = None) ''MAIL_TO'' ''adressliste ungueltig'';
          c = \<lparr>cf_Addr = addr, cf_DBPath = str get ''DB_PATH'' ''data/status.db'', cf_BaseURL = baseURL,
               cf_TrustedProxy = map_option maskedPrefix net, cf_CookieSecure = secure, cf_PrivateAllow = private,
               cf_RetentionDays = days, cf_MetricsToken = token, cf_SMTPHost = str get ''SMTP_HOST'' [], cf_SMTPPort = port,
               cf_SMTPUser = str get ''SMTP_USER'' [], cf_SMTPPass = get ''SMTP_PASS'', cf_MailFrom = str get ''MAIL_FROM'' [],
               cf_MailTo = (case parsed of Some l \<Rightarrow> l | None \<Rightarrow> []), cf_AdminUser = str get ''ADMIN_USER'' [],
               cf_AdminPassword = get ''ADMIN_PASSWORD''\<rparr>
      in (c, e1 @ e2 @ e3 @ e4 @ e5 @ e6 @ e7 @ e8 @ e9 @ e10 @ e11 @ mailErrors lib c @ adminErrors c))"

section \<open>An accepted configuration\<close>

lemma fail_Nil [simp]: "fail b k m = [] \<longleftrightarrow> \<not> b"
  by (simp add: fail_def)

lemma num_bounds: "num get key def low high = (n, []) \<Longrightarrow> low \<le> def \<Longrightarrow> def \<le> high \<Longrightarrow> low \<le> n \<and> n \<le> high"
  by (auto simp: num_def Let_def split: if_splits)

lemma privateAllow_good: "privateAllow lib ps = (ok, errs) \<Longrightarrow> \<forall>s \<in> set ok. goodPrivate s"
  by (induction ps arbitrary: ok errs) (auto simp: Let_def split: if_splits prod.splits)

lemma mailErrors_Nil:
  "mailErrors lib c = [] \<longleftrightarrow> (cf_MailTo c \<noteq> [] \<longrightarrow> cf_SMTPHost c \<noteq> []) \<and>
     (MailEnabled c \<longrightarrow> cl_parseAddress lib (cf_MailFrom c) \<noteq> None \<and> cf_MailFrom c \<noteq> [] \<and> (cf_SMTPUser c = [] \<longleftrightarrow> cf_SMTPPass c = []))"
  by (auto simp: mailErrors_def)

lemma adminErrors_Nil:
  "adminErrors c = [] \<longleftrightarrow> (cf_AdminUser c = [] \<longleftrightarrow> cf_AdminPassword c = []) \<and>
     (cf_AdminUser c \<noteq> [] \<longrightarrow> runeCount (cf_AdminUser c) \<le> 60 \<and> \<not> containsFunc (cf_AdminUser c) isSpace \<and>
        \<not> containsFunc (cf_AdminUser c) isControl \<and> 12 \<le> runeCount (cf_AdminPassword c))"
  by (auto simp: adminErrors_def not_less)

text \<open>C35: A configuration that is accepted keeps checks between one and 400 days, has a valid mail port, a
  metrics token that is absent or at least 32 bytes long, every privately allowed address with a host
  and a port, a mail host whenever there are recipients, a sender and complete credentials whenever
  mails are sent, and an admin account, if one is given, with a name without spaces and a password of
  at least twelve characters.\<close>

theorem config_accepted:
  assumes "load lib get = (c, [])"
  shows "1 \<le> cf_RetentionDays c \<and> cf_RetentionDays c \<le> 400 \<and> 1 \<le> cf_SMTPPort c \<and> cf_SMTPPort c \<le> 65535 \<and>
    (cf_MetricsToken c = [] \<or> 32 \<le> length (cf_MetricsToken c)) \<and>
    (\<forall>s \<in> set (cf_PrivateAllow c). \<exists>host port n. SplitHostPort s = Some (host, port) \<and> host \<noteq> [] \<and> ParseUint port 16 = Some n \<and> n \<noteq> 0) \<and>
    (cf_MailTo c \<noteq> [] \<longrightarrow> cf_SMTPHost c \<noteq> []) \<and>
    (MailEnabled c \<longrightarrow> cl_parseAddress lib (cf_MailFrom c) \<noteq> None \<and> (cf_SMTPUser c = [] \<longleftrightarrow> cf_SMTPPass c = [])) \<and>
    (cf_AdminUser c = [] \<longleftrightarrow> cf_AdminPassword c = []) \<and>
    (cf_AdminUser c \<noteq> [] \<longrightarrow> \<not> containsFunc (cf_AdminUser c) isSpace \<and> 12 \<le> runeCount (cf_AdminPassword c))"
proof -
  obtain days e2 where days: "num get ''RETENTION_DAYS'' 30 1 400 = (days, e2)" by fastforce
  obtain port e3 where port: "num get ''SMTP_PORT'' 465 1 65535 = (port, e3)" by fastforce
  obtain ok e9 where priv: "privateAllow lib (splitAt (CHR '','') (str get ''PRIVATE_ALLOW'' [])) = (ok, e9)" by fastforce
  have parts: "e2 = []" "e3 = []" "cf_RetentionDays c = days" "cf_SMTPPort c = port" "cf_PrivateAllow c = ok"
    "mailErrors lib c = []" "adminErrors c = []" "cf_MetricsToken c = [] \<or> 32 \<le> length (cf_MetricsToken c)"
    using assms unfolding load_def days port priv by (auto simp: Let_def not_less split: prod.splits)
  have "\<forall>s \<in> set ok. \<exists>host port n. SplitHostPort s = Some (host, port) \<and> host \<noteq> [] \<and> ParseUint port 16 = Some n \<and> n \<noteq> 0"
    using privateAllow_good [OF priv] by (fastforce simp: goodPrivate_def split: option.splits)
  moreover have "1 \<le> days \<and> days \<le> 400" "1 \<le> port \<and> port \<le> 65535"
    using num_bounds [OF days [unfolded parts(1)]] num_bounds [OF port [unfolded parts(2)]] by auto
  ultimately show ?thesis using parts unfolding mailErrors_Nil adminErrors_Nil by auto
qed

theorem config_accepted_witness:
  "let lib = \<lparr>cl_parseURL = \<lambda>_. None, cl_parseAddress = Some, cl_parseAddressList = \<lambda>_. None, cl_quote = id\<rparr>
   in snd (load lib (\<lambda>_. [])) = [] \<and> cf_RetentionDays (fst (load lib (\<lambda>_. []))) \<le> 400"
proof -
  have "snd (load \<lparr>cl_parseURL = \<lambda>_. None, cl_parseAddress = Some, cl_parseAddressList = \<lambda>_. None, cl_quote = id\<rparr> (\<lambda>_. [])) = []"
    by code_simp
  then show ?thesis
    using config_accepted [of "\<lparr>cl_parseURL = \<lambda>_. None, cl_parseAddress = Some, cl_parseAddressList = \<lambda>_. None, cl_quote = id\<rparr>" "\<lambda>_. []"]
    by (metis prod.collapse)
qed

end
