(* ===== verification/Migrate.thy ===== *)
theory Migrate
  imports Database Go_Strings
begin

text \<open>
  Opening the database, \<^verbatim>\<open>internal/store/db.go\<close>: the data source name and the migrations. A database file
  has the tables and indexes that exist, the table \<^verbatim>\<open>schema_migrations\<close> once it was created, and the rows
  of the other tables. Of a migration's text the objects it creates matter here, their columns and
  constraints are those of \<open>db\<close>. As in \<open>Database\<close>, the script of faults may fail any call of the driver.
\<close>

section \<open>The file and its statements\<close>

datatype ddl = CreateTable string | CreateIndex string string

record dbfile =
  f_names :: "string list"
  f_log :: "(string \<times> int) list option"
  f_db :: db

type_synonym sql_file = "string \<times> ddl list"

text \<open>Tables and indexes share their names; an index needs its table.\<close>

fun runStmts :: "ddl list \<Rightarrow> string list \<Rightarrow> string list option" where
  "runStmts [] ns = Some ns"
| "runStmts (CreateTable n # ss) ns = (if n \<in> set ns then None else runStmts ss (ns @ [n]))"
| "runStmts (CreateIndex n t # ss) ns = (if n \<in> set ns \<or> t \<notin> set ns then None else runStmts ss (ns @ [n]))"

definition migrations :: "sql_file list" where
  "migrations =
     [(''migrations/0001_init.sql'',
       [CreateTable ''targets'', CreateTable ''checks'', CreateIndex ''checks_target_at'' ''checks'', CreateTable ''hourly'',
        CreateTable ''incidents'', CreateIndex ''incidents_target_started'' ''incidents'', CreateTable ''admin'',
        CreateTable ''sessions'']),
      (''migrations/0002_devices.sql'', [CreateTable ''devices''])]"

definition f_exec :: "(dbfile \<Rightarrow> 'a result \<times> dbfile) \<Rightarrow> dbfile \<Rightarrow> 'a result \<times> dbfile" where
  "f_exec stmt f =
     (case exec (\<lambda>d. (Inr (), d)) (f_db f) of
        (Inl e, d) \<Rightarrow> (Inl e, f\<lparr>f_db := d\<rparr>)
      | (Inr _, d) \<Rightarrow> stmt (f\<lparr>f_db := d\<rparr>))"

definition unchanged :: "dbfile \<Rightarrow> unit result \<times> dbfile" where "unchanged f = (Inr (), f)"

section \<open>Migrations\<close>

definition pathBase :: "string \<Rightarrow> string" where
  "pathBase s = rev (takeWhile (\<lambda>c. c \<noteq> CHR ''/'') (rev s))"

definition trimSuffix :: "string \<Rightarrow> string \<Rightarrow> string" where
  "trimSuffix s sfx =
     (if length sfx \<le> length s \<and> drop (length s - length sfx) s = sfx then take (length s - length sfx) s else s)"

definition versionOf :: "sql_file \<Rightarrow> string" where "versionOf file = trimSuffix (pathBase (fst file)) ''.sql''"

definition runBody :: "ddl list \<Rightarrow> dbfile \<Rightarrow> unit result \<times> dbfile" where
  "runBody body f =
     (case runStmts body (f_names f) of None \<Rightarrow> (Inl ErrDriver, f) | Some ns \<Rightarrow> (Inr (), f\<lparr>f_names := ns\<rparr>))"

definition insertVersion :: "string \<Rightarrow> time \<Rightarrow> dbfile \<Rightarrow> unit result \<times> dbfile" where
  "insertVersion v now f =
     (case f_log f of
        None \<Rightarrow> (Inl ErrDriver, f)
      | Some l \<Rightarrow> if v \<in> fst ` set l then (Inl ErrConstraint, f) else (Inr (), f\<lparr>f_log := Some (l @ [(v, unixSec now)])\<rparr>))"

definition appliedQuery :: "string \<Rightarrow> dbfile \<Rightarrow> bool result \<times> dbfile" where
  "appliedQuery v f = (case f_log f of None \<Rightarrow> (Inl ErrDriver, f) | Some l \<Rightarrow> (Inr (v \<in> fst ` set l), f))"

text \<open>A return before the commit runs into the deferred \<^verbatim>\<open>Rollback\<close>.\<close>

definition applyMigration :: "ddl list \<Rightarrow> string \<Rightarrow> time \<Rightarrow> dbfile \<Rightarrow> unit result \<times> dbfile" where
  "applyMigration body version now f =
     (case f_exec unchanged f of
        (Inl e, f1) \<Rightarrow> (Inl e, f1)
      | (Inr _, f1) \<Rightarrow>
          (case and_then (f_exec (appliedQuery version)) (\<lambda>applied.
                  if applied then (\<lambda>f. (Inr False, f))
                  else and_then (f_exec (runBody body)) (\<lambda>_.
                       and_then (f_exec (insertVersion version now)) (\<lambda>_.
                       and_then (f_exec unchanged) (\<lambda>_ f. (Inr True, f))))) f1 of
             (Inl e, f2) \<Rightarrow> (Inl e, f1\<lparr>f_db := f_db f2\<rparr>)
           | (Inr committed, f2) \<Rightarrow> (Inr (), if committed then f2 else f1\<lparr>f_db := f_db f2\<rparr>)))"

text \<open>\<^verbatim>\<open>now()\<close> is called once per file; \<open>clk\<close> gives the time for a version.\<close>

fun migrateFiles :: "(string \<Rightarrow> time) \<Rightarrow> sql_file list \<Rightarrow> dbfile \<Rightarrow> unit result \<times> dbfile" where
  "migrateFiles clk [] f = (Inr (), f)"
| "migrateFiles clk (file # rest) f =
     and_then (applyMigration (snd file) (versionOf file) (clk (versionOf file))) (\<lambda>_. migrateFiles clk rest) f"

definition createLog :: "dbfile \<Rightarrow> unit result \<times> dbfile" where
  "createLog f = (Inr (), case f_log f of None \<Rightarrow> f\<lparr>f_log := Some []\<rparr> | Some _ \<Rightarrow> f)"

definition migrate :: "(string \<Rightarrow> time) \<Rightarrow> sql_file list \<Rightarrow> dbfile \<Rightarrow> unit result \<times> dbfile" where
  "migrate clk files = and_then (f_exec createLog) (\<lambda>_. migrateFiles clk files)"

section \<open>Opening\<close>

definition uriPath :: "string \<Rightarrow> string" where
  "uriPath s =
     concat (map (\<lambda>c. if c = CHR ''%'' then ''%25'' else if c = CHR ''?'' then ''%3f'' else if c = CHR ''#'' then ''%23'' else [c]) s)"

definition pragmas :: string where
  "pragmas = ''?_pragma=journal_mode(WAL)&_pragma=busy_timeout(5000)&_pragma=foreign_keys(1)''"

definition dsn :: "string \<Rightarrow> string" where "dsn file = ''file:'' @ uriPath file @ pragmas"

text \<open>The two connections, for writing and for reading, and the ping of the second.\<close>

definition Open :: "(string \<Rightarrow> time) \<Rightarrow> string \<Rightarrow> dbfile \<Rightarrow> (string \<times> string) result \<times> dbfile" where
  "Open clk file =
     and_then (f_exec unchanged) (\<lambda>_.
     and_then (migrate clk migrations) (\<lambda>_.
     and_then (f_exec unchanged) (\<lambda>_.
     and_then (f_exec unchanged) (\<lambda>_ f. (Inr (dsn file @ ''&_txlock=immediate'', dsn file @ ''&_pragma=query_only(1)''), f)))))"

definition Ping :: "db \<Rightarrow> unit result \<times> db" where "Ping = exec (\<lambda>d. (Inr (), d))"

text \<open>Both connections are closed, even when closing the first fails. A backup is a copy of the file; a place
  that is taken is refused.\<close>

definition CloseStore :: "dbfile \<Rightarrow> unit result \<times> dbfile" where
  "CloseStore f =
     (case f_exec unchanged f of
        (r1, f1) \<Rightarrow> (case f_exec unchanged f1 of (r2, f2) \<Rightarrow> (case r1 of Inl e \<Rightarrow> (Inl e, f2) | Inr _ \<Rightarrow> (r2, f2))))"

definition Backup :: "bool \<Rightarrow> dbfile \<Rightarrow> dbfile result \<times> dbfile" where
  "Backup occupied = f_exec (\<lambda>f. (if occupied then Inl ErrDriver else Inr f, f))"

section \<open>Sets of migrations\<close>

definition objName :: "ddl \<Rightarrow> string" where
  "objName s = (case s of CreateTable n \<Rightarrow> n | CreateIndex n t \<Rightarrow> n)"

definition created :: "sql_file list \<Rightarrow> string list" where
  "created files = concat (map (\<lambda>f. map objName (snd f)) files)"

lemma runStmts_names: "runStmts ss ns = Some ns' \<Longrightarrow> ns' = ns @ map objName ss"
  by (induction ss ns rule: runStmts.induct) (auto simp: objName_def split: if_splits)

text \<open>The rows of the other tables stay; only the script of faults moves on.\<close>

definition keeps_rows :: "dbfile \<Rightarrow> dbfile \<Rightarrow> bool" where
  "keeps_rows f f' \<longleftrightarrow> f_db f' = (f_db f)\<lparr>faults := faults (f_db f')\<rparr> \<and> (healthy (f_db f) \<longrightarrow> healthy (f_db f'))"

lemma keeps_rows_refl [simp]: "keeps_rows f f"
  by (simp add: keeps_rows_def)

lemma keeps_rows_trans [trans]: "keeps_rows f g \<Longrightarrow> keeps_rows g h \<Longrightarrow> keeps_rows f h"
  unfolding keeps_rows_def by (metis db.surjective db.update_convs(8))

lemma f_exec_step:
  "f_exec stmt f =
     (case faults (f_db f) of
        [] \<Rightarrow> stmt f
      | b # fs \<Rightarrow> if b then (Inl ErrDriver, f\<lparr>f_db := (f_db f)\<lparr>faults := fs\<rparr>\<rparr>) else stmt (f\<lparr>f_db := (f_db f)\<lparr>faults := fs\<rparr>\<rparr>))"
  by (simp add: f_exec_def exec_def split: list.split)

lemmas file_ops = f_exec_step and_then_def unchanged_def appliedQuery_def runBody_def insertVersion_def

text \<open>What \<^verbatim>\<open>migrate\<close> relies on: versions differ, and the files run one after the other on an empty database.\<close>

locale migration_set =
  fixes files :: "sql_file list"
  assumes versions: "distinct (map versionOf files)"
    and runs: "k < length files \<Longrightarrow> runStmts (snd (files ! k)) (created (take k files)) \<noteq> None"
begin

definition at_level :: "nat \<Rightarrow> dbfile \<Rightarrow> bool" where
  "at_level k f \<longleftrightarrow> k \<le> length files \<and> f_names f = created (take k files) \<and>
     (\<exists>l. f_log f = Some l \<and> map fst l = map versionOf (take k files))"

lemma at_level_db [simp]: "at_level k (f\<lparr>f_db := d\<rparr>) = at_level k f"
  by (simp add: at_level_def)

lemma at_level_log: "at_level k f \<Longrightarrow> \<exists>l. f_log f = Some l \<and> fst ` set l = versionOf ` set (take k files)"
  by (metis at_level_def list.set_map)

lemma at_level_unique: "at_level j f \<Longrightarrow> at_level k f \<Longrightarrow> j = k"
  by (auto simp: at_level_def dest!: arg_cong [where f = length])

lemma version_new: "k < length files \<Longrightarrow> versionOf (files ! k) \<notin> versionOf ` set (take k files)"
  using versions by (auto simp: in_set_conv_nth distinct_conv_nth) (metis less_irrefl order.strict_trans)

lemma version_old: "j < k \<Longrightarrow> j < length files \<Longrightarrow> versionOf (files ! j) \<in> versionOf ` set (take k files)"
  by (rule imageI) (auto simp: in_set_conv_nth intro: exI [where x = j])

lemma run_next:
  "k < length files \<Longrightarrow> runStmts (snd (files ! k)) (created (take k files)) = Some (created (take (Suc k) files))"
  using runs [of k] runStmts_names [of "snd (files ! k)" "created (take k files)"]
  by (auto simp: created_def take_Suc_conv_app_nth)

lemma apply_old:
  assumes "at_level k f" "j < k" "applyMigration body (versionOf (files ! j)) now f = (r, f')"
  shows "at_level k f' \<and> f_log f' = f_log f \<and> keeps_rows f f' \<and> (healthy (f_db f) \<longrightarrow> r = Inr () \<and> f' = f)"
proof -
  obtain l where l: "f_log f = Some l" "versionOf (files ! j) \<in> fst ` set l"
    using at_level_log [OF assms(1)] version_old [OF assms(2)] assms(1,2) by (auto simp: at_level_def)
  show ?thesis
    using assms l by (auto simp: applyMigration_def file_ops keeps_rows_def healthy_def split: list.splits if_splits)
qed

lemma apply_next:
  assumes "at_level k f" "k < length files" "applyMigration (snd (files ! k)) (versionOf (files ! k)) now f = (r, f')"
  shows "(if r = Inr () then at_level (Suc k) f' \<and> f_log f' = Some (the (f_log f) @ [(versionOf (files ! k), unixSec now)])
          else at_level k f' \<and> f_log f' = f_log f) \<and> keeps_rows f f' \<and> (healthy (f_db f) \<longrightarrow> r = Inr ())"
proof -
  obtain l where l: "f_log f = Some l" "map fst l = map versionOf (take k files)" "f_names f = created (take k files)"
    using assms(1) by (auto simp: at_level_def)
  have new: "versionOf (files ! k) \<notin> fst ` set l"
    using version_new [OF assms(2)] l(2) by (metis list.set_map)
  have up: "f_names g = created (take (Suc k) files) \<Longrightarrow> f_log g = Some (l @ [(versionOf (files ! k), n)]) \<Longrightarrow> at_level (Suc k) g" for g n
    using assms(2) l(2) by (simp add: at_level_def take_Suc_conv_app_nth)
  show ?thesis
    using assms(1,3) l new up run_next [OF assms(2)]
    by (auto simp: applyMigration_def file_ops keeps_rows_def healthy_def split: list.splits if_splits)
qed

lemma migrateFiles_level:
  "at_level k f \<Longrightarrow> j \<le> k \<Longrightarrow> migrateFiles clk (drop j files) f = (r, f') \<Longrightarrow>
   \<exists>m \<ge> k. at_level m f' \<and> (\<exists>l. f_log f' = Some (the (f_log f) @ l)) \<and> keeps_rows f f' \<and> (r = Inr () \<longrightarrow> m = length files) \<and>
     (healthy (f_db f) \<longrightarrow> r = Inr () \<and> (k = length files \<longrightarrow> f' = f))"
proof (induction "length files - j" arbitrary: j k f)
  case 0
  then show ?case by (intro exI [where x = k]) (auto simp: at_level_def)
next
  case (Suc n)
  then have j: "j < length files" and n: "n = length files - Suc j" by simp_all
  obtain r1 f1 where step: "applyMigration (snd (files ! j)) (versionOf (files ! j)) (clk (versionOf (files ! j))) f = (r1, f1)"
    by fastforce
  have go: "(r, f') = (case r1 of Inl e \<Rightarrow> (Inl e, f1) | Inr _ \<Rightarrow> migrateFiles clk (drop (Suc j) files) f1)"
    using Suc.prems(3) Cons_nth_drop_Suc [OF j, symmetric] step by (simp add: and_then_def split: sum.splits)
  show ?case
  proof (cases "j < k")
    case True
    note old = apply_old [OF Suc.prems(1) True step]
    show ?thesis
    proof (cases r1)
      case (Inl e)
      then show ?thesis using old go Suc.prems(1) by (intro exI [where x = k]) (auto simp: at_level_def)
    next
      case (Inr u)
      then obtain m where "m \<ge> k" "at_level m f'" "\<exists>l. f_log f' = Some (the (f_log f1) @ l)" "keeps_rows f1 f'" "r = Inr () \<longrightarrow> m = length files"
        "healthy (f_db f1) \<longrightarrow> r = Inr () \<and> (k = length files \<longrightarrow> f' = f1)"
        using Suc.hyps(1) [OF n, of k f1] old go True by (auto simp del: drop_Suc)
      then show ?thesis using old keeps_rows_trans by (intro exI [where x = m]) auto
    qed
  next
    case False
    then have jk: "j = k" using Suc.prems(2) by simp
    note new = apply_next [OF Suc.prems(1) j [unfolded jk] step [unfolded jk]]
    show ?thesis
    proof (cases r1)
      case (Inl e)
      then show ?thesis using new go Suc.prems(1) jk by (intro exI [where x = k]) (auto simp: at_level_def)
    next
      case (Inr u)
      then obtain m where "m \<ge> Suc k" "at_level m f'" "\<exists>l. f_log f' = Some (the (f_log f1) @ l)" "keeps_rows f1 f'" "r = Inr () \<longrightarrow> m = length files"
        "healthy (f_db f1) \<longrightarrow> r = Inr ()"
        using Suc.hyps(1) [OF n, of "Suc k" f1] new go jk by auto
      then show ?thesis using new Inr j jk keeps_rows_trans [of f f1 f']
        by (intro exI [where x = m]) (auto simp: keeps_rows_def)
    qed
  qed
qed

text \<open>A file that no migration has touched, with or without the table of versions, or one at some level.\<close>

definition usable :: "nat \<Rightarrow> dbfile \<Rightarrow> bool" where
  "usable k f \<longleftrightarrow> at_level k f \<or> k = 0 \<and> f_log f = None \<and> f_names f = []"

lemma migrate_level:
  assumes "usable k f" "migrate clk files f = (r, f')"
  shows "\<exists>m \<ge> k. usable m f' \<and> (r = Inr () \<longrightarrow> at_level (length files) f') \<and> keeps_rows f f' \<and>
     (\<forall>l. f_log f = Some l \<longrightarrow> (\<exists>l'. f_log f' = Some (l @ l'))) \<and>
     (healthy (f_db f) \<longrightarrow> r = Inr () \<and> (at_level (length files) f \<longrightarrow> f' = f))"
proof (cases "fst (f_exec createLog f)")
  case (Inl e)
  then show ?thesis using assms
    by (intro exI [where x = k]) (auto simp: migrate_def file_ops createLog_def usable_def keeps_rows_def healthy_def split: list.splits if_splits)
next
  case (Inr u)
  obtain f1 where f1: "f_exec createLog f = (Inr u, f1)" using Inr by (metis prod.collapse)
  have start: "at_level k f1" "keeps_rows f f1" "\<forall>l. f_log f = Some l \<longrightarrow> f_log f1 = Some l"
      "at_level k f \<and> healthy (f_db f) \<longrightarrow> f1 = f"
    using f1 assms(1)
    by (auto simp: file_ops createLog_def usable_def keeps_rows_def healthy_def at_level_def created_def split: list.splits if_splits option.splits)
  have run: "migrateFiles clk (drop 0 files) f1 = (r, f')" using assms(2) f1 by (simp add: migrate_def and_then_def)
  obtain m where m: "m \<ge> k" "at_level m f'" "\<exists>l. f_log f' = Some (the (f_log f1) @ l)" "keeps_rows f1 f'" "r = Inr () \<longrightarrow> m = length files"
      "healthy (f_db f1) \<longrightarrow> r = Inr () \<and> (k = length files \<longrightarrow> f' = f1)"
    using migrateFiles_level [OF start(1) _ run] by auto
  moreover have "k = length files" if "at_level (length files) f"
    using that assms(1) at_level_unique [of "length files" f k] by (auto simp: usable_def at_level_def)
  ultimately show ?thesis
    using start keeps_rows_trans [of f f1 f'] assms(1) by (intro exI [where x = m]) (auto simp: usable_def keeps_rows_def)
qed

end

section \<open>The migrations of the program\<close>

interpretation migration: migration_set migrations
proof
  show "distinct (map versionOf migrations)" by code_simp
next
  fix k assume "k < length migrations"
  then have "k = 0 \<or> k = 1" by (auto simp: migrations_def)
  then show "runStmts (snd (migrations ! k)) (created (take k migrations)) \<noteq> None"
    by (auto simp: migrations_def created_def objName_def)
qed

text \<open>The first \<open>k\<close> migrations were applied and recorded; at level zero the table of versions may be missing.\<close>

definition migrated :: "nat \<Rightarrow> dbfile \<Rightarrow> bool" where
  "migrated k f \<longleftrightarrow> k \<le> length migrations \<and> f_names f = created (take k migrations) \<and>
     (case f_log f of None \<Rightarrow> k = 0 | Some l \<Rightarrow> map fst l = map versionOf (take k migrations))"

lemma migrated_usable: "migrated k f \<longleftrightarrow> migration.usable k f"
  by (auto simp: migrated_def migration.usable_def migration.at_level_def created_def split: option.splits)

text \<open>What every part of opening does to a file: rows stay, the level and the log only grow, and without
  faults a complete file stays as it is.\<close>

definition fullyMigrated :: "dbfile \<Rightarrow> bool" where
  "fullyMigrated f \<longleftrightarrow> f_log f \<noteq> None \<and> migrated (length migrations) f"

definition grows :: "dbfile \<Rightarrow> dbfile \<Rightarrow> bool" where
  "grows f f' \<longleftrightarrow> keeps_rows f f' \<and> (\<forall>k. migrated k f \<longrightarrow> (\<exists>m \<ge> k. migrated m f')) \<and>
     (\<forall>l. f_log f = Some l \<longrightarrow> (\<exists>l'. f_log f' = Some (l @ l'))) \<and> (healthy (f_db f) \<and> fullyMigrated f \<longrightarrow> f' = f)"

lemma grows_trans: "grows f g \<Longrightarrow> grows g h \<Longrightarrow> grows f h"
  unfolding grows_def using keeps_rows_trans
  by (smt (verit, ccfv_threshold) append_assoc le_trans)

definition extends :: "(dbfile \<Rightarrow> 'a result \<times> dbfile) \<Rightarrow> bool" where
  "extends q \<longleftrightarrow> (\<forall>f r f'. (\<exists>k. migrated k f) \<and> q f = (r, f') \<longrightarrow> grows f f' \<and> (healthy (f_db f) \<longrightarrow> \<not> isl r))"

lemma extends_and_then: "extends q \<Longrightarrow> (\<And>x. extends (h x)) \<Longrightarrow> extends (and_then q h)"
  unfolding extends_def
proof (intro allI impI)
  fix f r f'
  assume q: "\<forall>f r f'. (\<exists>k. migrated k f) \<and> q f = (r, f') \<longrightarrow> grows f f' \<and> (healthy (f_db f) \<longrightarrow> \<not> isl r)"
    and h: "\<And>x. \<forall>f r f'. (\<exists>k. migrated k f) \<and> h x f = (r, f') \<longrightarrow> grows f f' \<and> (healthy (f_db f) \<longrightarrow> \<not> isl r)"
    and run: "(\<exists>k. migrated k f) \<and> and_then q h f = (r, f')"
  obtain r1 g where g: "q f = (r1, g)" by fastforce
  then have first: "grows f g" "healthy (f_db f) \<longrightarrow> \<not> isl r1" using q run by blast+
  show "grows f f' \<and> (healthy (f_db f) \<longrightarrow> \<not> isl r)"
  proof (cases r1)
    case (Inl e)
    then show ?thesis using first run g by (simp add: and_then_def)
  next
    case (Inr x)
    then have "h x g = (r, f')" using run g by (simp add: and_then_def)
    moreover have "\<exists>k. migrated k g" using first(1) run by (auto simp: grows_def)
    ultimately have "grows g f' \<and> (healthy (f_db g) \<longrightarrow> \<not> isl r)" using h by blast
    moreover have "healthy (f_db f) \<longrightarrow> healthy (f_db g)" using first(1) by (simp add: grows_def keeps_rows_def)
    ultimately show ?thesis using grows_trans [OF first(1)] by blast
  qed
qed

lemma extends_unchanged: "extends (f_exec unchanged)"
  unfolding extends_def grows_def fullyMigrated_def migrated_def
  by (auto simp: file_ops keeps_rows_def healthy_def split: list.splits if_splits)

lemma complete_level: "fullyMigrated f \<longleftrightarrow> migration.at_level (length migrations) f"
  by (auto simp: fullyMigrated_def migrated_def migration.at_level_def split: option.splits)

lemma extends_migrate: "extends (migrate clk migrations)"
  unfolding extends_def
proof (intro allI impI)
  fix f r f'
  assume run: "(\<exists>k. migrated k f) \<and> migrate clk migrations f = (r, f')"
  note level = migration.migrate_level [of _ f clk r f', folded migrated_usable complete_level]
  then show "grows f f' \<and> (healthy (f_db f) \<longrightarrow> \<not> isl r)"
    using run unfolding grows_def by (metis sum.disc(2))
qed

lemma complete_rows [simp]: "fullyMigrated (f\<lparr>f_db := d\<rparr>) = fullyMigrated f"
  by (simp add: fullyMigrated_def migrated_def)

lemma unchanged_complete: "f_exec unchanged f = (r, g) \<Longrightarrow> fullyMigrated g = fullyMigrated f"
  by (auto simp: file_ops split: list.splits if_splits)

lemma Open_complete:
  assumes "migrated k f" and "Open clk file f = (r, f')"
  shows "\<not> isl r \<longrightarrow> fullyMigrated f'"
proof
  assume ok: "\<not> isl r"
  obtain r0 g where g: "f_exec unchanged f = (r0, g)" by fastforce
  obtain r1 h where h: "migrate clk migrations g = (r1, h)" by fastforce
  have "\<exists>m. migrated m g"
    using extends_unchanged assms(1) g unfolding extends_def grows_def by blast
  moreover have "r1 = Inr ()" "fullyMigrated f' = fullyMigrated h"
    using ok assms(2) g h unfolding Open_def and_then_def
    by (cases r1; auto split: sum.splits prod.splits dest!: unchanged_complete)+
  ultimately show "fullyMigrated f'"
    using migration.migrate_level [OF _ h] by (auto simp: migrated_usable complete_level)
qed

lemma Open_grows:
  assumes "migrated k f" and "Open clk file f = (r, f')"
  shows "grows f f' \<and> (healthy (f_db f) \<longrightarrow> \<not> isl r)"
proof -
  have "extends (Open clk file)"
    unfolding Open_def by (intro extends_and_then extends_unchanged extends_migrate) (auto simp: extends_def grows_def)
  then show ?thesis using assms unfolding extends_def by blast
qed

lemma complete_objects:
  "fullyMigrated f \<Longrightarrow> set (f_names f) = {''targets'', ''checks'', ''checks_target_at'', ''hourly'', ''incidents'', ''incidents_target_started'',
     ''admin'', ''sessions'', ''devices''} \<and> map fst (the (f_log f)) = [''0001_init'', ''0002_devices'']"
  by (auto simp: fullyMigrated_def migrated_def migrations_def created_def objName_def versionOf_def pathBase_def trimSuffix_def)

text \<open>C34: Whatever calls of the driver fail while the database is opened, every migration is applied as a
  whole and at most once, in order, and recorded; rows of existing tables and earlier records stay as
  they are. When opening succeeds, all seven tables and both indexes exist and both versions are
  recorded. Without faults it succeeds, and a complete file is not changed.\<close>

theorem open_migrates:
  assumes "migrated k f" and "Open clk file f = (r, f')"
  shows "(\<exists>m \<ge> k. migrated m f') \<and> f_db f' = (f_db f)\<lparr>faults := faults (f_db f')\<rparr> \<and>
    (\<forall>l. f_log f = Some l \<longrightarrow> (\<exists>l'. f_log f' = Some (l @ l'))) \<and>
    (\<not> isl r \<longrightarrow> set (f_names f') = {''targets'', ''checks'', ''checks_target_at'', ''hourly'', ''incidents'', ''incidents_target_started'',
        ''admin'', ''sessions'', ''devices''} \<and> map fst (the (f_log f')) = [''0001_init'', ''0002_devices'']) \<and>
    (healthy (f_db f) \<longrightarrow> \<not> isl r \<and> (fullyMigrated f \<longrightarrow> f' = f))"
proof -
  note grow = Open_grows [OF assms, THEN conjunct1] and ok = Open_grows [OF assms, THEN conjunct2]
  have objects: "set (f_names f') = {''targets'', ''checks'', ''checks_target_at'', ''hourly'', ''incidents'', ''incidents_target_started'',
        ''admin'', ''sessions'', ''devices''} \<and> map fst (the (f_log f')) = [''0001_init'', ''0002_devices'']" if "\<not> isl r"
    using Open_complete [OF assms] that by (intro complete_objects) simp
  show ?thesis
  proof (intro conjI)
    show "\<exists>m \<ge> k. migrated m f'" using grow assms(1) by (simp add: grows_def)
    show "f_db f' = (f_db f)\<lparr>faults := faults (f_db f')\<rparr>" using grow by (simp add: grows_def keeps_rows_def)
    show "\<forall>l. f_log f = Some l \<longrightarrow> (\<exists>l'. f_log f' = Some (l @ l'))" using grow by (simp add: grows_def)
    show "healthy (f_db f) \<longrightarrow> \<not> isl r \<and> (fullyMigrated f \<longrightarrow> f' = f)" using grow ok by (simp add: grows_def)
  qed (use objects in blast)
qed

definition fresh_file :: "bool list \<Rightarrow> dbfile" where
  "fresh_file fs = \<lparr>f_names = [], f_log = None, f_db = empty_db\<lparr>faults := fs\<rparr>\<rparr>"

theorem open_migrates_witness:
  "let f = snd (Open (\<lambda>_. 0) ''status.db'' (fresh_file (replicate 8 False @ [True])))
   in migrated 1 f \<and> \<not> isl (fst (Open (\<lambda>_. 0) ''status.db'' f)) \<and>
      map fst (the (f_log (snd (Open (\<lambda>_. 0) ''status.db'' f)))) = [''0001_init'', ''0002_devices'']"
proof -
  let ?f = "snd (Open (\<lambda>_. 0) ''status.db'' (fresh_file (replicate 8 False @ [True])))"
  have f: "migrated 1 ?f" "healthy (f_db ?f)" by code_simp+
  show ?thesis
    unfolding Let_def using f open_migrates [OF f(1) prod.collapse [symmetric], of "\<lambda>_. 0" "''status.db''"] by blast
qed

section \<open>The data source name\<close>

text \<open>Reading a path back: the escapes that \<open>uriPath\<close> writes are decoded.\<close>

fun unescape :: "string \<Rightarrow> string" where
  "unescape [] = []"
| "unescape (c # cs) =
     (if c = CHR ''%''
      then (case cs of
              a # b # ds \<Rightarrow>
                (if [a, b] = ''25'' then CHR ''%'' else if [a, b] = ''3f'' then CHR ''?'' else if [a, b] = ''23'' then CHR ''#'' else c)
                # unescape ds
            | _ \<Rightarrow> c # unescape cs)
      else c # unescape cs)"

lemma unescape_uriPath: "unescape (uriPath s) = s"
  by (induction s) (auto simp: uriPath_def)

text \<open>The file that is opened is the one that was configured, whatever its name, and the pragmas follow it.\<close>

lemma dsn_file:
  "\<exists>p. dsn file = ''file:'' @ p @ pragmas \<and> unescape p = file \<and> CHR ''?'' \<notin> set p \<and> CHR ''#'' \<notin> set p"
proof (intro exI conjI)
  show "dsn file = ''file:'' @ uriPath file @ pragmas" by (rule dsn_def)
  show "unescape (uriPath file) = file" by (rule unescape_uriPath)
qed (auto simp: uriPath_def split: if_splits)

end
