(* ===== verification/Dialer.thy ===== *)
theory Dialer
  imports Netaddr_Text Checker
begin

text \<open>
  How a check opens connections: \<^verbatim>\<open>dialer\<close> and \<^verbatim>\<open>dialConnectTo\<close> of \<^verbatim>\<open>internal/check/dial.go\<close> and the choice
  between them in \<^verbatim>\<open>client\<close> of \<^verbatim>\<open>http.go\<close>. What lies outside the program is the argument \<open>w\<close>: name
  resolution, the resolution of ports, case folding of text, and whether a connection succeeds. Go's
  dialer tries the addresses of a name one after the other and calls the control function with the
  text of the address before it connects (its racing of the two address families is not modelled). A
  dial returns its result together with the addresses that were contacted.
\<close>

section \<open>Dialling\<close>

definition errBlocked :: go_err where
  "errBlocked = \<lparr>is_blocked = True, is_deadline = False, is_timeout = False, is_refused = False, is_dns = False,
     is_cert = False, is_syntax = False, is_type = False, is_eof = False\<rparr>"

record Checker =
  PrivateAllow :: "string list"
  Block :: "addr list"
  loopback :: bool

record outside =
  lookup :: "string \<Rightarrow> go_err + addr list"
  lookupPort :: "string \<Rightarrow> go_err + int"
  badAddress :: go_err
  equalFold :: "string \<Rightarrow> string \<Rightarrow> bool"
  connect :: "addr \<Rightarrow> int \<Rightarrow> go_err option"

text \<open>The control function of \<^verbatim>\<open>dialer\<close>.\<close>

definition control :: "bool \<Rightarrow> addr list \<Rightarrow> addr list \<Rightarrow> string \<Rightarrow> go_err option" where
  "control loop extra block address =
     (case ParseAddrPort address of
        None \<Rightarrow> Some errBlocked
      | Some (ip, _) \<Rightarrow> if \<not> allowed ip loop extra block then Some errBlocked else None)"

text \<open>Trying addresses in turn, the first error is the one returned.\<close>

fun dialSerial ::
    "outside \<Rightarrow> (string \<Rightarrow> go_err option) \<Rightarrow> int \<Rightarrow> addr list \<Rightarrow> go_err \<Rightarrow> (go_err + addr) \<times> addr list" where
  "dialSerial w ctl port [] e = (Inl e, [])"
| "dialSerial w ctl port (ip # ips) e =
     (case ctl (JoinHostPort (addrString ip) (Itoa port)) of
        Some e1 \<Rightarrow> (case dialSerial w ctl port ips e1 of (Inl _, tr) \<Rightarrow> (Inl e1, tr) | r \<Rightarrow> r)
      | None \<Rightarrow>
          (case connect w ip port of
             None \<Rightarrow> (Inr ip, [ip])
           | Some e1 \<Rightarrow> (case dialSerial w ctl port ips e1 of (Inl _, tr) \<Rightarrow> (Inl e1, ip # tr) | (Inr x, tr) \<Rightarrow> (Inr x, ip # tr))))"

text \<open>\<^verbatim>\<open>net.Dialer.DialContext\<close> on \<^verbatim>\<open>host:port\<close>.\<close>

definition DialContext :: "outside \<Rightarrow> (string \<Rightarrow> go_err option) \<Rightarrow> string \<Rightarrow> (go_err + addr) \<times> addr list" where
  "DialContext w ctl address =
     (case SplitHostPort address of
        None \<Rightarrow> (Inl (badAddress w), [])
      | Some (host, port) \<Rightarrow>
          (case lookupPort w port of
             Inl e \<Rightarrow> (Inl e, [])
           | Inr n \<Rightarrow>
               (case ParseAddr host of
                  Some ip \<Rightarrow> dialSerial w ctl n [ip] (badAddress w)
                | None \<Rightarrow> (case lookup w host of Inl e \<Rightarrow> (Inl e, []) | Inr ips \<Rightarrow> dialSerial w ctl n ips (badAddress w)))))"

definition dialer :: "outside \<Rightarrow> bool \<Rightarrow> addr list \<Rightarrow> addr list \<Rightarrow> string \<Rightarrow> (go_err + addr) \<times> addr list" where
  "dialer w loop extra block = DialContext w (control loop extra block)"

text \<open>The loop over the resolved addresses: here the last error is the one returned.\<close>

fun connectLoop :: "(string \<Rightarrow> (go_err + addr) \<times> addr list) \<Rightarrow> string \<Rightarrow> addr list \<Rightarrow> go_err \<Rightarrow> (go_err + addr) \<times> addr list" where
  "connectLoop d port [] err = (Inl err, [])"
| "connectLoop d port (ip # ips) err =
     (case d (JoinHostPort (addrString ip) port) of
        (Inr conn, tr) \<Rightarrow> (Inr conn, tr)
      | (Inl e, tr) \<Rightarrow> (case connectLoop d port ips e of (r, tr') \<Rightarrow> (r, tr @ tr')))"

definition listed :: "outside \<Rightarrow> Checker \<Rightarrow> string \<Rightarrow> bool" where
  "listed w c connectTo \<longleftrightarrow> list_ex (\<lambda>s. equalFold w s connectTo) (PrivateAllow c)"

definition dialConnectTo :: "outside \<Rightarrow> Checker \<Rightarrow> string \<Rightarrow> (go_err + addr) \<times> addr list" where
  "dialConnectTo w c connectTo =
     (if \<not> listed w c connectTo then dialer w (loopback c) [] (Block c) connectTo
      else (case SplitHostPort connectTo of
        None \<Rightarrow> (Inl errBlocked, [])
      | Some (host, port) \<Rightarrow>
          (case lookup w host of
             Inl e \<Rightarrow> (Inl e, [])
           | Inr found \<Rightarrow>
               let ips = map (\<lambda>ip. unmap (withoutZone ip)) found
               in connectLoop (dialer w (loopback c) ips (Block c)) port ips errBlocked)))"

text \<open>The dial function of the HTTP client: the address of the request, or where the target says.\<close>

definition clientDial :: "outside \<Rightarrow> Checker \<Rightarrow> string \<Rightarrow> string \<Rightarrow> (go_err + addr) \<times> addr list" where
  "clientDial w c connectTo address =
     (if connectTo \<noteq> [] then dialConnectTo w c connectTo else dialer w (loopback c) [] (Block c) address)"

section \<open>The control function judges the address that is contacted\<close>

lemma Itoa_no_colon: "CHR '':'' \<notin> set (Itoa n)"
  using showNat_digits(2) [of "nat n"] showNat_digits(2) [of "nat (- n)"]
  by (auto simp: Itoa_def list_all_iff isDigit_def byte_def)

lemma addrString_nonempty: "addrString ip \<noteq> []"
  using ParseAddr_addrString [of ip] by (cases ip) (auto simp: ParseAddr_def)

lemma V4_no_colon: "CHR '':'' \<notin> set (showIPv4 a)" "hd (showIPv4 a) \<noteq> CHR ''[''"
proof -
  show "CHR '':'' \<notin> set (showIPv4 a)"
    using showIPv4_chars [of "CHR '':''" a] isHex_plain [of "CHR '':''"] by auto
  have "CHR ''['' \<notin> set (showIPv4 a)"
    using showIPv4_chars [of "CHR ''[''" a] isHex_plain [of "CHR ''[''"] by auto
  then show "hd (showIPv4 a) \<noteq> CHR ''[''"
    using addrString_nonempty [of "V4 a"] by (metis addrString.simps(2) hd_in_set)
qed

lemma V6_colon: "CHR '':'' \<in> set (addrString (V6 a zone))"
  using showIPv6_colon [of a] by auto

lemma ParseAddrPort_Join:
  assumes "ParseAddrPort (JoinHostPort (addrString ip) (Itoa n)) = Some (ip', n')"
  shows "ip' = ip"
proof (cases ip)
  case NoAddr
  have "ParseAddr (''invalid IP'') = None" by code_simp
  then show ?thesis
    using assms NoAddr lastIndex_append [OF Itoa_no_colon, of "''invalid IP''" n]
    by (simp add: ParseAddrPort_def JoinHostPort_def Let_def split: if_splits option.splits)
next
  case (V4 a)
  then have "ParseAddr (showIPv4 a) = Some ip" by (simp add: ParseAddr_showIPv4)
  then show ?thesis
    using assms V4 V4_no_colon [of a] lastIndex_append [OF Itoa_no_colon, of "showIPv4 a" n]
    by (auto simp: ParseAddrPort_def JoinHostPort_def Let_def split: if_splits option.splits)
next
  case (V6 a zone)
  let ?h = "CHR ''['' # addrString ip @ '']''"
  have "lastIndex (CHR '':'') (?h @ CHR '':'' # Itoa n) = Some (length ?h)"
    by (rule lastIndex_append [OF Itoa_no_colon])
  moreover have "JoinHostPort (addrString ip) (Itoa n) = ?h @ CHR '':'' # Itoa n"
    using V6_colon [of a zone] V6 by (simp add: JoinHostPort_def del: addrString.simps)
  ultimately show ?thesis
    using assms V6 ParseAddr_addrString [of ip]
    by (auto simp: ParseAddrPort_def Let_def simp del: addrString.simps split: if_splits option.splits)
qed

lemma control_allows:
  "control loop extra block (JoinHostPort (addrString ip) (Itoa n)) = None \<Longrightarrow> allowed ip loop extra block"
  by (auto simp: control_def split: option.splits if_splits dest: ParseAddrPort_Join)

lemma ParseAddrPort_addr:
  assumes "ip \<noteq> NoAddr" and "0 \<le> n" and "n < 65536"
  shows "ParseAddrPort (JoinHostPort (addrString ip) (Itoa n)) = Some (ip, n)"
proof (cases ip)
  case (V4 a)
  have "ParseUint (Itoa n) 16 = Some n" using assms(2,3) by (simp add: ParseUint_def Itoa_def)
  moreover have "Itoa n \<noteq> []" using assms(2) Itoa_digits by simp
  ultimately show ?thesis
    using V4 V4_no_colon [of a] lastIndex_append [OF Itoa_no_colon, of "showIPv4 a" n] addrString_nonempty [of ip]
    by (simp add: ParseAddrPort_def JoinHostPort_def Let_def ParseAddr_showIPv4)
next
  case (V6 a zone)
  let ?h = "CHR ''['' # addrString ip @ '']''"
  have "ParseUint (Itoa n) 16 = Some n" using assms(2,3) by (simp add: ParseUint_def Itoa_def)
  moreover have "Itoa n \<noteq> []" using assms(2) Itoa_digits by simp
  moreover have "lastIndex (CHR '':'') (?h @ CHR '':'' # Itoa n) = Some (length ?h)"
    by (rule lastIndex_append [OF Itoa_no_colon])
  moreover have "JoinHostPort (addrString ip) (Itoa n) = ?h @ CHR '':'' # Itoa n"
    using V6_colon [of a zone] V6 by (simp add: JoinHostPort_def del: addrString.simps)
  ultimately show ?thesis
    using V6 ParseAddr_addrString [of ip] by (simp add: ParseAddrPort_def Let_def del: addrString.simps)
qed (use assms(1) in simp)

lemma control_iff:
  "ip \<noteq> NoAddr \<Longrightarrow> 0 \<le> n \<Longrightarrow> n < 65536 \<Longrightarrow>
   control loop extra block (JoinHostPort (addrString ip) (Itoa n)) = (if allowed ip loop extra block then None else Some errBlocked)"
  by (simp add: control_def ParseAddrPort_addr)

text \<open>Dialling an address by its text.\<close>

lemma dialer_literal:
  assumes "lookupPort w port = Inr n" and "CHR '':'' \<notin> set port" and "CHR ''['' \<notin> set port" and "CHR '']'' \<notin> set port"
  shows "dialer w loop extra block (JoinHostPort (addrString (V4 a)) port) =
    dialSerial w (control loop extra block) n [V4 a] (badAddress w)"
proof -
  have "CHR ''['' \<notin> set (showIPv4 a)" "CHR '']'' \<notin> set (showIPv4 a)"
    using showIPv4_chars [of "CHR ''[''" a] showIPv4_chars [of "CHR '']''" a] isHex_plain by auto
  then have "SplitHostPort (JoinHostPort (showIPv4 a) port) = Some (showIPv4 a, port)"
    using assms by (intro SplitHostPort_Join) auto
  then show ?thesis using assms(1) by (simp add: dialer_def DialContext_def ParseAddr_showIPv4 del: dialSerial.simps)
qed

lemma dialSerial_guarded:
  "dialSerial w (control loop extra block) n ips e = (r, tr) \<Longrightarrow>
   (\<forall>ip \<in> set tr. ip \<in> set ips \<and> allowed ip loop extra block) \<and> (\<forall>ip. r = Inr ip \<longrightarrow> ip \<in> set tr)"
proof (induction ips arbitrary: e r tr)
  case (Cons ip ips)
  show ?case
    using Cons.prems Cons.IH control_allows [of loop extra block ip n]
    by (auto split: option.splits prod.splits sum.splits)
qed simp

text \<open>What a dial with the control function promises: only allowed addresses are contacted, and a
  connection is to one of them.\<close>

definition guarded :: "(addr \<Rightarrow> bool) \<Rightarrow> (go_err + addr) \<times> addr list \<Rightarrow> bool" where
  "guarded ok x \<longleftrightarrow> (\<forall>ip \<in> set (snd x). ok ip) \<and> (\<forall>ip. fst x = Inr ip \<longrightarrow> ip \<in> set (snd x))"

lemma dialer_guarded: "guarded (\<lambda>ip. allowed ip loop extra block) (dialer w loop extra block address)"
proof -
  have serial: "guarded (\<lambda>ip. allowed ip loop extra block) (dialSerial w (control loop extra block) n ips e)" for n ips e
    using dialSerial_guarded [of w loop extra block n ips e] by (cases "dialSerial w (control loop extra block) n ips e") (auto simp: guarded_def)
  have none: "guarded (\<lambda>ip. allowed ip loop extra block) (Inl e, [])" for e by (simp add: guarded_def)
  show ?thesis
    by (auto simp: dialer_def DialContext_def serial none simp del: dialSerial.simps split: option.splits sum.splits)
qed

lemma connectLoop_guarded:
  assumes "\<And>s. guarded ok (d s)"
  shows "guarded ok (connectLoop d port ips e)"
proof (induction ips arbitrary: e)
  case (Cons ip ips)
  obtain r tr where d: "d (JoinHostPort (addrString ip) port) = (r, tr)" by fastforce
  obtain r' tr' where l: "connectLoop d port ips (case r of Inl e \<Rightarrow> e) = (r', tr')" by fastforce
  have "guarded ok (r, tr)" "guarded ok (r', tr')" using assms d Cons.IH l by metis+
  then show ?case using d l by (cases r) (auto simp: guarded_def)
qed (simp add: guarded_def)

text \<open>The addresses a target of the operator's list resolves to.\<close>

definition granted_addrs :: "outside \<Rightarrow> Checker \<Rightarrow> string \<Rightarrow> addr list" where
  "granted_addrs w c connectTo =
     (if \<not> listed w c connectTo then []
      else (case SplitHostPort connectTo of
        None \<Rightarrow> []
      | Some (host, _) \<Rightarrow> (case lookup w host of Inl _ \<Rightarrow> [] | Inr found \<Rightarrow> map (\<lambda>ip. unmap (withoutZone ip)) found)))"

lemma dialConnectTo_guarded:
  "guarded (\<lambda>ip. allowed ip (loopback c) (granted_addrs w c connectTo) (Block c)) (dialConnectTo w c connectTo)"
proof (cases "listed w c connectTo")
  case True
  show ?thesis
  proof (cases "SplitHostPort connectTo")
    case (Some hp)
    obtain host port where hp: "hp = (host, port)" by fastforce
    show ?thesis
    proof (cases "lookup w host")
      case (Inr found)
      then show ?thesis
        using True Some hp dialer_guarded
        by (simp add: dialConnectTo_def granted_addrs_def Let_def connectLoop_guarded)
    qed (use True Some hp in \<open>simp add: dialConnectTo_def guarded_def\<close>)
  qed (use True in \<open>simp add: dialConnectTo_def guarded_def\<close>)
qed (use dialer_guarded [of "loopback c" "[]" "Block c" w connectTo] in \<open>simp add: dialConnectTo_def granted_addrs_def\<close>)

text \<open>C22: Whatever name resolution answers, a check contacts only addresses that the filter allows, and
  the connection it returns is to one of them. A private address is among them only when the
  operator's list names the host and port the target connects to, and then only if that name
  resolves to it.\<close>

theorem dial_guarded:
  assumes "clientDial w c connectTo address = (r, contacted)"
  shows "(\<forall>ip \<in> set contacted.
      allowed ip (loopback c) [] (Block c) \<or>
      (connectTo \<noteq> [] \<and> listed w c connectTo \<and> unmap (withoutZone ip) \<in> set (granted_addrs w c connectTo) \<and>
       allowed ip (loopback c) (granted_addrs w c connectTo) (Block c))) \<and>
    (\<forall>ip. r = Inr ip \<longrightarrow> ip \<in> set contacted)"
proof (cases "connectTo = []")
  case True
  then show ?thesis
    using assms dialer_guarded [of "loopback c" "[]" "Block c" w address] by (simp add: clientDial_def guarded_def)
next
  case False
  have mono: "allowed ip l [] b \<or> unmap (withoutZone ip) \<in> set extra" if "allowed ip l extra b" for ip l extra b
    using that by (auto simp: allowed_def Let_def split: if_splits)
  have "guarded (\<lambda>ip. allowed ip (loopback c) (granted_addrs w c connectTo) (Block c)) (r, contacted)"
    using assms False dialConnectTo_guarded [of c w connectTo] by (simp add: clientDial_def)
  moreover have "granted_addrs w c connectTo = []" if "\<not> listed w c connectTo" using that by (simp add: granted_addrs_def)
  ultimately show ?thesis using False mono by (fastforce simp: guarded_def)
qed

text \<open>A host at home behind the operator's list, and one address that must never be contacted.\<close>

definition home :: outside where
  "home = \<lparr>lookup = (\<lambda>h. if h = ''nas'' then Inr [V4 0xc0a80105, V4 0x7f000001] else Inl errBlocked),
     lookupPort = (\<lambda>p. case ParseUint p 16 of Some n \<Rightarrow> Inr n | None \<Rightarrow> Inl errBlocked), badAddress = errBlocked,
     equalFold = (=), connect = (\<lambda>_ _. None)\<rparr>"

lemma home_dials:
  "clientDial home \<lparr>PrivateAllow = [''nas:80''], Block = [], loopback = False\<rparr> ''nas:80'' [] = (Inr (V4 0xc0a80105), [V4 0xc0a80105])"
proof -
  have "SplitHostPort ''nas:80'' = Some (''nas'', ''80'')" "ParseUint ''80'' 16 = Some 80"
    "allowed (V4 0xc0a80105) False [V4 0xc0a80105, V4 0x7f000001] []" by code_simp+
  moreover have "unmap (V4 a) = V4 a" "withoutZone (V4 a) = V4 a" for a by simp_all
  ultimately show ?thesis
    by (simp add: clientDial_def dialConnectTo_def listed_def home_def dialer_literal control_iff del: addrString.simps)
qed

theorem dial_guarded_witness:
  "V4 0xc0a80105 \<in> set (granted_addrs home \<lparr>PrivateAllow = [''nas:80''], Block = [], loopback = False\<rparr> ''nas:80'')"
proof -
  have "\<not> allowed (V4 0xc0a80105) False [] []" by code_simp
  then show ?thesis using dial_guarded [OF home_dials] by auto
qed

end
