(* ===== verification/Incident_State.thy ===== *)
theory Incident_State
  imports Prelude
begin

text \<open>
  The incident state machine of \<^verbatim>\<open>internal/monitor/state.go\<close>: one check result moves the
  state of a target and may report that the target went down or came back up. The reference
  is the streak of failures at the end of the history; the machine is shown to compute it.
\<close>

section \<open>The machine\<close>

datatype event = EvNone | EvDown | EvUp

record state =
  fails :: int
  firstFail :: time
  cause :: string
  isOpen :: bool
  startedAt :: time
  incident :: int

definition init_state :: state where
  "init_state = \<lparr>fails = 0, firstFail = zeroTime, cause = [], isOpen = False,
     startedAt = zeroTime, incident = 0\<rparr>"

definition next_state :: "state \<Rightarrow> bool \<Rightarrow> string \<Rightarrow> time \<Rightarrow> int \<Rightarrow> state \<times> event" where
  "next_state s ok c at threshold =
     (if ok then
        let s1 = s\<lparr>fails := 0, firstFail := zeroTime, cause := []\<rparr>
        in if isOpen s1 then (s1\<lparr>isOpen := False\<rparr>, EvUp) else (s1, EvNone)
      else
        let s1 = (if fails s = 0 then s\<lparr>firstFail := at\<rparr> else s);
            s2 = s1\<lparr>fails := fails s1 + 1, cause := c\<rparr>
        in if \<not> isOpen s2 \<and> threshold \<le> fails s2
           then (s2\<lparr>isOpen := True, startedAt := firstFail s2\<rparr>, EvDown)
           else (s2, EvNone))"

section \<open>Histories\<close>

text \<open>An observation is the outcome of one check; a history lists them, the oldest first.\<close>

record obs =
  ob_ok :: bool
  ob_err :: string
  ob_at :: time

definition observe :: "int \<Rightarrow> obs \<Rightarrow> state \<Rightarrow> state \<times> event" where
  "observe threshold b s = next_state s (ob_ok b) (ob_err b) (ob_at b) threshold"

fun run_obs :: "int \<Rightarrow> state \<Rightarrow> obs list \<Rightarrow> state \<times> event list" where
  "run_obs threshold s [] = (s, [])"
| "run_obs threshold s (b # bs) =
     (let (s1, e) = observe threshold b s; (s2, es) = run_obs threshold s1 bs in (s2, e # es))"

text \<open>The failures since the last success, the oldest first.\<close>

definition streak :: "obs list \<Rightarrow> obs list" where
  "streak bs = rev (takeWhile (\<lambda>b. \<not> ob_ok b) (rev bs))"

section \<open>The machine computes the streak\<close>

lemma streak_Nil [simp]: "streak [] = []"
  by (simp add: streak_def)

lemma streak_snoc [simp]: "streak (bs @ [b]) = (if ob_ok b then [] else streak bs @ [b])"
  by (simp add: streak_def)

lemma run_obs_snoc:
  "run_obs thr s (bs @ [b]) =
     (let (s1, es) = run_obs thr s bs; (s2, e) = observe thr b s1 in (s2, es @ [e]))"
  by (induction bs arbitrary: s) (simp_all add: split_beta Let_def)

lemma length_run_obs [simp]: "length (snd (run_obs thr s bs)) = length bs"
  by (induction bs arbitrary: s) (simp_all add: split_beta Let_def)

text \<open>What the state says of a history, for a threshold of at least one.\<close>

definition tracks :: "int \<Rightarrow> obs list \<Rightarrow> state \<Rightarrow> bool" where
  "tracks thr bs s \<longleftrightarrow>
     fails s = int (length (streak bs)) \<and>
     (isOpen s \<longleftrightarrow> thr \<le> int (length (streak bs))) \<and>
     (streak bs \<noteq> [] \<longrightarrow> firstFail s = ob_at (hd (streak bs)) \<and> cause s = ob_err (last (streak bs))) \<and>
     (isOpen s \<longrightarrow> startedAt s = ob_at (hd (streak bs)))"

lemma tracks_init: "1 \<le> thr \<Longrightarrow> tracks thr [] init_state"
  by (simp add: tracks_def init_state_def)

lemma tracks_observe:
  assumes "1 \<le> thr" and "tracks thr bs s"
  shows "tracks thr (bs @ [b]) (fst (observe thr b s))"
  using assms by (cases "streak bs") (auto simp: tracks_def observe_def next_state_def Let_def)

lemma observe_event:
  assumes "1 \<le> thr" and "tracks thr bs s"
  shows "snd (observe thr b s) =
    (if ob_ok b then (if thr \<le> int (length (streak bs)) then EvUp else EvNone)
     else if thr = int (length (streak bs)) + 1 then EvDown else EvNone)"
  using assms by (auto simp: tracks_def observe_def next_state_def Let_def)

lemma run_obs_tracks:
  assumes "1 \<le> thr"
  shows "tracks thr bs (fst (run_obs thr init_state bs))"
proof (induction bs rule: rev_induct)
  case Nil
  then show ?case using assms by (simp add: tracks_init)
next
  case (snoc b bs)
  then show ?case
    using tracks_observe [OF assms snoc] by (simp add: run_obs_snoc split_beta Let_def)
qed

lemma run_obs_events:
  assumes "1 \<le> thr" and "i < length bs"
  shows "snd (run_obs thr init_state bs) ! i =
    (if ob_ok (bs ! i)
     then (if thr \<le> int (length (streak (take i bs))) then EvUp else EvNone)
     else if int (length (streak (take (Suc i) bs))) = thr then EvDown else EvNone)"
  using assms(2)
proof (induction bs rule: rev_induct)
  case (snoc b bs)
  show ?case
  proof (cases "i < length bs")
    case True
    with snoc.IH show ?thesis
      by (simp add: run_obs_snoc split_beta Let_def nth_append)
  next
    case False
    with snoc.prems have i: "i = length bs" by simp
    have ev: "snd (run_obs thr init_state (bs @ [b])) ! i =
      snd (observe thr b (fst (run_obs thr init_state bs)))"
      by (simp add: run_obs_snoc split_beta Let_def nth_append i)
    show ?thesis
      unfolding ev observe_event [OF assms(1) run_obs_tracks [OF assms(1)]]
      by (auto simp: i)
  qed
qed simp

text \<open>C1: After any history of checks the machine holds exactly the streak of failures at its
  end: it counts them, remembers the time of the first and the cause of the last, has an
  incident open exactly when they reached the threshold, and dates it at the first failure.\<close>

theorem run_obs_streak:
  assumes "1 \<le> thr" and "run_obs thr init_state bs = (s, es)"
  shows "fails s = int (length (streak bs)) \<and>
     (isOpen s \<longleftrightarrow> thr \<le> int (length (streak bs))) \<and>
     (streak bs \<noteq> [] \<longrightarrow>
        firstFail s = ob_at (hd (streak bs)) \<and> cause s = ob_err (last (streak bs))) \<and>
     (isOpen s \<longrightarrow> startedAt s = ob_at (hd (streak bs)))"
  using run_obs_tracks [OF assms(1), of bs] assms(2) by (simp add: tracks_def)

theorem run_obs_streak_witness:
  "let bs = [\<lparr>ob_ok = True, ob_err = [], ob_at = 5\<rparr>, \<lparr>ob_ok = False, ob_err = ''a'', ob_at = 7\<rparr>,
      \<lparr>ob_ok = False, ob_err = ''b'', ob_at = 9\<rparr>];
       s = fst (run_obs 2 init_state bs)
   in fails s = 2 \<and> isOpen s \<and> startedAt s = 7 \<and> cause s = ''b''"
  using run_obs_streak [of 2 "[\<lparr>ob_ok = True, ob_err = [], ob_at = 5\<rparr>,
      \<lparr>ob_ok = False, ob_err = ''a'', ob_at = 7\<rparr>, \<lparr>ob_ok = False, ob_err = ''b'', ob_at = 9\<rparr>]", OF _ prod.collapse [symmetric]]
  by (simp add: streak_def)

text \<open>C2: The machine reports a target down at exactly the check that completes the threshold
  of consecutive failures, and up at exactly the first success after such a streak; every
  other check reports nothing. So each incident is announced once, and its end once.\<close>

theorem run_obs_reports:
  assumes "1 \<le> thr" and "i < length bs"
  shows "snd (run_obs thr init_state bs) ! i =
    (if ob_ok (bs ! i)
     then (if thr \<le> int (length (streak (take i bs))) then EvUp else EvNone)
     else if int (length (streak (take (Suc i) bs))) = thr then EvDown else EvNone)"
  using assms by (rule run_obs_events)

theorem run_obs_reports_witness:
  "snd (run_obs 1 init_state [\<lparr>ob_ok = False, ob_err = ''a'', ob_at = 7\<rparr>,
      \<lparr>ob_ok = True, ob_err = [], ob_at = 9\<rparr>]) ! 1 = EvUp"
  using run_obs_reports [of 1 1 "[\<lparr>ob_ok = False, ob_err = ''a'', ob_at = 7\<rparr>,
      \<lparr>ob_ok = True, ob_err = [], ob_at = 9\<rparr>]"]
  by (simp add: streak_def)

end
