(* ===== verification/Store_Incidents.thy ===== *)
theory Store_Incidents
  imports Store_Targets
begin

text \<open>
  The operations of \<^verbatim>\<open>internal/store/incidents.go\<close>. What the incident table promises its
  clients is an abstract log: a map from each target to the identifier of its open incident.
  The locale \<open>incident_log\<close> states the promise, the interpretation at the end discharges it
  for the store's own operations.
\<close>

section \<open>Incidents\<close>

record Incident =
  inc_ID :: int
  inc_TargetID :: int
  inc_TargetName :: string
  inc_StartedAt :: time
  inc_EndedAt :: time
  inc_Cause :: string
  inc_MailedDown :: bool
  inc_MailedUp :: bool

definition incident_Open :: "Incident \<Rightarrow> bool" where
  "incident_Open i \<longleftrightarrow> isZero (inc_EndedAt i)"

definition mk_incident :: "int \<Rightarrow> int \<times> int \<times> string \<Rightarrow> incident_row" where
  "mk_incident n c = (case c of (target, started, why) \<Rightarrow>
     \<lparr>i_id = n, i_target = target, i_started = started, i_ended = None, i_cause = why,
      i_mailed_down = False, i_mailed_up = False\<rparr>)"

definition scanIncident :: "incident_row \<times> target_row \<Rightarrow> Incident" where
  "scanIncident r = (case r of (i, t) \<Rightarrow>
     \<lparr>inc_ID = i_id i, inc_TargetID = i_target i, inc_TargetName = Name t,
      inc_StartedAt = fromUnix (i_started i),
      inc_EndedAt = (case i_ended i of Some e \<Rightarrow> fromUnix e | None \<Rightarrow> zeroTime),
      inc_Cause = i_cause i, inc_MailedDown = i_mailed_down i, inc_MailedUp = i_mailed_up i\<rparr>)"

text \<open>\<^verbatim>\<open>incidents i join targets t on t.id = i.target_id\<close>\<close>

definition incidentSelect :: "db \<Rightarrow> (incident_row \<times> target_row) list" where
  "incidentSelect d = [(i, t). i \<leftarrow> incidents d, t \<leftarrow> targets d, ID t = i_target i]"

definition OpenIncident :: "int \<Rightarrow> time \<Rightarrow> string \<Rightarrow> db \<Rightarrow> int result \<times> db" where
  "OpenIncident target started why = exec (\<lambda>d.
     if list_ex (open_at target) (incidents d) then (Inl ErrIncidentOpen, d)
     else if \<not> target_exists target d then (Inl ErrConstraint, d)
     else let n = next_rowid (map i_id (incidents d))
          in (Inr n, d\<lparr>incidents := incidents d @ [mk_incident n (target, unixSec started, why)]\<rparr>))"

definition CloseIncident :: "int \<Rightarrow> time \<Rightarrow> db \<Rightarrow> unit result \<times> db" where
  "CloseIncident n t = exec (\<lambda>d.
     (affected (count_where (\<lambda>i. i_id i = n \<and> i_ended i = None) (incidents d)),
      d\<lparr>incidents := update_where (\<lambda>i. i_id i = n \<and> i_ended i = None)
          (\<lambda>i. i\<lparr>i_ended := Some (unixSec t)\<rparr>) (incidents d)\<rparr>))"

definition ClosePausedIncident :: "time \<Rightarrow> int \<Rightarrow> db \<Rightarrow> unit result \<times> db" where
  "ClosePausedIncident now target = exec (\<lambda>d.
     (Inr (), d\<lparr>incidents := update_where (open_at target)
        (\<lambda>i. i\<lparr>i_ended := Some (unixSec now), i_mailed_down := True, i_mailed_up := True\<rparr>)
        (incidents d)\<rparr>))"

definition LastIncidentEnd :: "int \<Rightarrow> db \<Rightarrow> time result \<times> db" where
  "LastIncidentEnd target = exec (\<lambda>d.
     (case [e. i \<leftarrow> incidents d, i_target i = target, e \<leftarrow> (case i_ended i of Some e \<Rightarrow> [e] | None \<Rightarrow> [])] of
        [] \<Rightarrow> (Inr zeroTime, d)
      | e # es \<Rightarrow> (Inr (fromUnix (fold max es e)), d)))"

definition OpenIncidentFor :: "int \<Rightarrow> db \<Rightarrow> Incident result \<times> db" where
  "OpenIncidentFor target = exec (\<lambda>d.
     (case find (\<lambda>(i, t). open_at target i) (incidentSelect d) of
        None \<Rightarrow> (Inl ErrNotFound, d)
      | Some r \<Rightarrow> (Inr (scanIncident r), d)))"

definition newest_first :: "(incident_row \<times> target_row) list \<Rightarrow> (incident_row \<times> target_row) list" where
  "newest_first rs = rev (sort_key (\<lambda>(i, t). (i_started i, i_id i)) rs)"

text \<open>The rows a query selects, scanned one by one.\<close>

definition query_incidents ::
    "((incident_row \<times> target_row) list \<Rightarrow> (incident_row \<times> target_row) list) \<Rightarrow> db \<Rightarrow> Incident list result \<times> db" where
  [simp]: "query_incidents sel d = (Inr (map scanIncident (sel (incidentSelect d))), d)"

definition RecentIncidents ::
    "int \<Rightarrow> time \<Rightarrow> bool \<Rightarrow> db \<Rightarrow> Incident list result \<times> db" where
  "RecentIncidents n since publicOnly = exec (query_incidents (\<lambda>rs. limit_rows n (newest_first (filter (\<lambda>(i, t).
     (case i_ended i of None \<Rightarrow> True | Some e \<Rightarrow> unixSec since \<le> e) \<and> (\<not> publicOnly \<or> Public t)) rs))))"

definition TargetIncidents ::
    "int \<Rightarrow> int \<Rightarrow> time \<Rightarrow> db \<Rightarrow> Incident list result \<times> db" where
  "TargetIncidents target n since = exec (query_incidents (\<lambda>rs. limit_rows n (newest_first (filter (\<lambda>(i, t).
     i_target i = target \<and> (case i_ended i of None \<Rightarrow> True | Some e \<Rightarrow> unixSec since \<le> e)) rs))))"

definition MarkMailed :: "int \<Rightarrow> bool \<Rightarrow> db \<Rightarrow> unit result \<times> db" where
  "MarkMailed n up = exec (\<lambda>d.
     if up
     then (affected (count_where (\<lambda>i. i_id i = n \<and> i_ended i \<noteq> None) (incidents d)),
           d\<lparr>incidents := update_where (\<lambda>i. i_id i = n \<and> i_ended i \<noteq> None)
               (\<lambda>i. i\<lparr>i_mailed_up := True\<rparr>) (incidents d)\<rparr>)
     else (affected (count_where (\<lambda>i. i_id i = n) (incidents d)),
           d\<lparr>incidents := update_where (\<lambda>i. i_id i = n)
               (\<lambda>i. i\<lparr>i_mailed_down := True\<rparr>) (incidents d)\<rparr>))"

definition UnmailedIncidents :: "time \<Rightarrow> db \<Rightarrow> Incident list result \<times> db" where
  "UnmailedIncidents since = exec (query_incidents (\<lambda>rs. sort_key (\<lambda>(i, t). (i_started i, i_id i)) (filter (\<lambda>(i, t).
     (\<not> i_mailed_down i \<and> unixSec since \<le> i_started i) \<or>
     (\<not> i_mailed_up i \<and> (case i_ended i of None \<Rightarrow> False | Some e \<Rightarrow> unixSec since \<le> e))) rs)))"

text \<open>The abstract log: the identifier of the open incident of a target.\<close>

definition open_of :: "incident_row list \<Rightarrow> int \<Rightarrow> int option" where
  "open_of rs t = map_option i_id (find (open_at t) rs)"

definition current :: "db \<Rightarrow> int \<Rightarrow> int option" where
  "current d = open_of (incidents d)"

section \<open>Every operation keeps the schema\<close>

interpretation incident_rows: rowid_table i_id mk_incident
  by unfold_locales (simp add: mk_incident_def split: prod.split)

lemma mk_incident_sel [simp]:
  "i_id (mk_incident n c) = n" "i_target (mk_incident n (t, s, w)) = t"
  "i_ended (mk_incident n c) = None" "i_mailed_up (mk_incident n c) = False"
  "i_started (mk_incident n (t, s, w)) = s" "i_cause (mk_incident n (t, s, w)) = w"
  by (simp_all add: mk_incident_def split: prod.split)

lemma update_incidents_ok:
  assumes ok: "db_ok d" and same: "\<And>i. i_id (f i) = i_id i" "\<And>i. i_target (f i) = i_target i"
    and close: "\<And>i. i_ended (f i) = None \<Longrightarrow> i_ended i = None"
    and mailed: "\<And>i. i \<in> set (incidents d) \<Longrightarrow> p i \<Longrightarrow> i_mailed_up (f i) \<Longrightarrow> i_ended (f i) \<noteq> None"
  shows "db_ok (d\<lparr>incidents := update_where p f (incidents d)\<rparr>)"
proof (rule db_ok_incidentsI [OF ok])
  show "rows_ok i_id (update_where p f (incidents d))"
    using same(1) db_okD(9) [OF ok] by (rule incident_rows.update_ok)
  show "one_open (update_where p f (incidents d))"
  proof (rule one_openI)
    fix i j assume i: "i \<in> set (update_where p f (incidents d))" "i_ended i = None"
      and j: "j \<in> set (update_where p f (incidents d))" "i_ended j = None" "i_target i = i_target j"
    obtain i' where "i' \<in> set (incidents d)" and "i = i' \<or> i = f i' \<and> p i'"
      using i(1) by (rule update_where_origin)
    with i(2) have i': "i' \<in> set (incidents d)" "i_ended i' = None" "i_id i' = i_id i"
      "i_target i' = i_target i"
      using same [of i'] close [of i'] by auto
    obtain j' where "j' \<in> set (incidents d)" and "j = j' \<or> j = f j' \<and> p j'"
      using j(1) by (rule update_where_origin)
    with j(2) have j': "j' \<in> set (incidents d)" "i_ended j' = None" "i_id j' = i_id j"
      "i_target j' = i_target j"
      using same [of j'] close [of j'] by auto
    have "i_id i' = i_id j'"
      using i'(4) j'(4) j(3) by (intro one_openD [OF db_okD(10) [OF ok] i'(1) j'(1) i'(2) j'(2)]) simp
    then show "i_id i = i_id j" using i'(3) j'(3) by simp
  qed
qed (use db_okD(11,12) [OF ok] same(2) mailed in auto)

lemma insert_incident_ok:
  assumes ok: "db_ok d" and "target_exists t d" and none: "\<not> list_ex (open_at t) (incidents d)"
  shows "db_ok (d\<lparr>incidents := incidents d @ [mk_incident (next_rowid (map i_id (incidents d))) (t, s, w)]\<rparr>)"
proof (rule db_ok_incidentsI [OF ok incident_rows.insert_ok [OF db_okD(9) [OF ok]]])
  show "one_open (incidents d @ [mk_incident (next_rowid (map i_id (incidents d))) (t, s, w)])"
    using none by (intro one_open_snoc [OF db_okD(10) [OF ok]]) (auto simp: list_ex_iff)
qed (use assms(2) db_okD(11,12) [OF ok] in auto)

lemma OpenIncident_keeps: "db_ok d \<Longrightarrow> db_ok (snd (OpenIncident t s w d))"
  unfolding OpenIncident_def
  by (rule schema.exec_keeps) (simp_all add: Let_def insert_incident_ok)

lemma CloseIncident_keeps: "db_ok d \<Longrightarrow> db_ok (snd (CloseIncident n t d))"
  unfolding CloseIncident_def
  by (rule schema.exec_keeps) (auto intro!: update_incidents_ok)

lemma ClosePausedIncident_keeps: "db_ok d \<Longrightarrow> db_ok (snd (ClosePausedIncident now t d))"
  unfolding ClosePausedIncident_def
  by (rule schema.exec_keeps) (auto intro!: update_incidents_ok)

lemma MarkMailed_keeps: "db_ok d \<Longrightarrow> db_ok (snd (MarkMailed n up d))"
  unfolding MarkMailed_def
  by (rule schema.exec_keeps) (auto intro!: update_incidents_ok dest: db_okD(12))

lemma incident_queries_read [simp]:
  "reads (LastIncidentEnd t)" "reads (OpenIncidentFor t)" "reads (RecentIncidents n since p)"
  "reads (TargetIncidents t n since)" "reads (UnmailedIncidents since)"
  unfolding LastIncidentEnd_def OpenIncidentFor_def RecentIncidents_def TargetIncidents_def
    UnmailedIncidents_def
  by (rule reads_exec, simp split: option.split list.split)+

section \<open>The incident log\<close>

text \<open>The contract: opening an incident succeeds only where none is open and enters it in the
  log, closing one removes exactly it, a refused operation leaves the log as it was, and an
  incident belongs to one target.\<close>

locale incident_log =
  fixes opn :: "int \<Rightarrow> time \<Rightarrow> string \<Rightarrow> 'd \<Rightarrow> int result \<times> 'd"
    and cls :: "int \<Rightarrow> time \<Rightarrow> 'd \<Rightarrow> unit result \<times> 'd"
    and cur :: "'d \<Rightarrow> int \<Rightarrow> int option"
    and inv :: "'d \<Rightarrow> bool"
  assumes opened: "inv d \<Longrightarrow> opn t s w d = (Inr n, d') \<Longrightarrow> cur d t = None \<and> cur d' = (cur d)(t \<mapsto> n)"
    and open_refused: "inv d \<Longrightarrow> opn t s w d = (Inl e, d') \<Longrightarrow>
      cur d' = cur d \<and> (e = ErrIncidentOpen \<longrightarrow> cur d t \<noteq> None)"
    and closed: "inv d \<Longrightarrow> cls n a d = (Inr (), d') \<Longrightarrow>
      \<exists>t. cur d t = Some n \<and> cur d' = (cur d)(t := None)"
    and close_refused: "inv d \<Longrightarrow> cls n a d = (Inl e, d') \<Longrightarrow>
      cur d' = cur d \<and> (e = ErrNotFound \<longrightarrow> (\<forall>t. cur d t \<noteq> Some n))"
    and one_target: "inv d \<Longrightarrow> cur d t = Some n \<Longrightarrow> cur d t' = Some n \<Longrightarrow> t = t'"
    and inv_opn: "inv d \<Longrightarrow> inv (snd (opn t s w d))"
    and inv_cls: "inv d \<Longrightarrow> inv (snd (cls n a d))"
begin

text \<open>Opening twice fails the second time; a closed incident cannot be closed again.\<close>

lemma no_second_open:
  "inv d \<Longrightarrow> opn t s w d = (Inr n, d') \<Longrightarrow> opn t s' w' d' \<noteq> (Inr n', d'')"
  using opened [of d t s w n d'] opened [of d' t s' w' n' d''] inv_opn [of d t s w] by auto

lemma no_second_close:
  assumes "inv d" and "cls n a d = (Inr (), d')"
  shows "cls n a' d' \<noteq> (Inr (), d'')"
proof
  assume "cls n a' d' = (Inr (), d'')"
  moreover have "inv d'" using inv_cls [OF assms(1), of n a] assms(2) by simp
  ultimately obtain t' where t': "cur d' t' = Some n" using closed by blast
  obtain t where t: "cur d t = Some n" "cur d' = (cur d)(t := None)"
    using closed [OF assms] by blast
  then show False using t' one_target [OF assms(1) t(1), of t'] by (auto split: if_splits)
qed

lemma close_after_open:
  assumes "inv d" and "opn t s w d = (Inr n, d')" and "cls n a d' = (Inr (), d'')"
  shows "cur d'' = cur d"
proof -
  have d': "inv d'" and c: "cur d t = None" "cur d' = (cur d)(t \<mapsto> n)"
    using inv_opn [OF assms(1), of t s w] opened [OF assms(1,2)] assms(2) by auto
  obtain t' where t': "cur d' t' = Some n" "cur d'' = (cur d')(t' := None)"
    using closed [OF d' assms(3)] by blast
  have "t' = t" using one_target [OF d' t'(1), of t] c(2) by simp
  then show ?thesis using t'(2) c by (auto simp: fun_eq_iff)
qed

end

lemma find_Some_mem: "find p xs = Some x \<Longrightarrow> x \<in> set xs \<and> p x"
  by (auto simp: find_Some_iff)

lemma open_of_Some:
  assumes "one_open rs"
  shows "open_of rs t = Some n \<longleftrightarrow> (\<exists>i \<in> set rs. open_at t i \<and> i_id i = n)"
proof
  assume "open_of rs t = Some n"
  then show "\<exists>i \<in> set rs. open_at t i \<and> i_id i = n"
    by (auto simp: open_of_def dest: find_Some_mem)
next
  assume "\<exists>i \<in> set rs. open_at t i \<and> i_id i = n"
  then obtain i where i: "i \<in> set rs" "open_at t i" "i_id i = n" by blast
  then obtain j where j: "find (open_at t) rs = Some j"
    by (metis find_None_iff not_None_eq)
  then have "j \<in> set rs" "open_at t j" by (auto dest: find_Some_mem)
  with i have "i_id j = n"
    using one_openD [OF assms, of j i] by (simp add: open_at_def)
  with j show "open_of rs t = Some n" by (simp add: open_of_def)
qed

lemma open_of_one_target:
  assumes ok: "one_open rs" "rows_ok i_id rs" and "open_of rs t = Some n" "open_of rs t' = Some n"
  shows "t = t'"
proof -
  obtain i where "i \<in> set rs" "open_at t i" "i_id i = n"
    using assms(3) by (auto simp: open_of_Some [OF ok(1)])
  moreover obtain j where "j \<in> set rs" "open_at t' j" "i_id j = n"
    using assms(4) by (auto simp: open_of_Some [OF ok(1)])
  ultimately show ?thesis
    using rows_ok_inj [OF ok(2), of i j] by (auto simp: open_at_def)
qed

lemma open_of_None: "open_of rs t = None \<longleftrightarrow> \<not> list_ex (open_at t) rs"
  by (auto simp: open_of_def find_None_iff list_ex_iff)

lemma open_of_update_same:
  assumes "\<And>i. i_id (f i) = i_id i \<and> i_target (f i) = i_target i \<and> i_ended (f i) = i_ended i"
  shows "open_of (update_where p f rs) = open_of rs"
proof
  show "open_of (update_where p f rs) t = open_of rs t" for t
    by (induction rs) (auto simp: open_of_def update_where_simps open_at_def assms)
qed

lemma open_of_insert:
  "open_of rs t = None \<Longrightarrow> open_of (rs @ [mk_incident n (t, s, w)]) = (open_of rs)(t \<mapsto> n)"
  by (auto simp: fun_eq_iff open_of_def find_append open_at_def split: option.splits)

text \<open>Ending the incidents that satisfy \<open>p\<close> takes them out of the log and nothing else.\<close>

lemma open_of_close:
  assumes ok: "one_open rs" "rows_ok i_id rs" and ends: "\<And>i. i_ended (f i) \<noteq> None"
  shows "open_of (update_where p f rs) t =
    (if \<exists>i \<in> set rs. open_at t i \<and> p i then None else open_of rs t)"
proof -
  have find: "find (open_at t) (update_where p f rs) = find (\<lambda>i. open_at t i \<and> \<not> p i) rs" for rs
    by (induction rs) (auto simp: update_where_simps open_at_def ends)
  show ?thesis
  proof (cases "\<exists>i \<in> set rs. open_at t i \<and> p i")
    case True
    then obtain i where i: "i \<in> set rs" "open_at t i" "p i" by blast
    have "\<not> (open_at t j \<and> \<not> p j)" if j: "j \<in> set rs" for j
    proof
      assume "open_at t j \<and> \<not> p j"
      with i j have "i_id j = i_id i"
        using one_openD [OF ok(1), of j i] by (simp add: open_at_def)
      then have "j = i" using rows_ok_inj [OF ok(2) j i(1)] by simp
      with i \<open>open_at t j \<and> \<not> p j\<close> show False by simp
    qed
    then have "find (\<lambda>i. open_at t i \<and> \<not> p i) rs = None"
      by (auto simp: find_None_iff)
    with True show ?thesis by (simp add: open_of_def find)
  next
    case False
    then have "find (\<lambda>i. open_at t i \<and> \<not> p i) rs = find (open_at t) rs"
      by (intro find_cong) auto
    then show ?thesis using False unfolding open_of_def find by (simp only: if_False)
  qed
qed

lemma current_faults [simp]: "current (d\<lparr>faults := fs\<rparr>) = current d"
  by (simp add: current_def)

lemma current_reads: "reads q \<Longrightarrow> current (snd (q d)) = current d"
  unfolding reads_def by (metis current_faults)

lemma MarkMailed_current [simp]: "current (snd (MarkMailed n up d)) = current d"
  unfolding MarkMailed_def by (rule exec_rule) (simp_all add: current_def open_of_update_same)

lemma OpenIncident_log:
  "(case OpenIncident t s w d of
      (Inr n, d') \<Rightarrow> current d t = None \<and> current d' = (current d)(t \<mapsto> n)
    | (Inl e, d') \<Rightarrow> current d' = current d \<and> (e = ErrIncidentOpen \<longrightarrow> current d t \<noteq> None))"
  unfolding OpenIncident_def
  by (rule exec_rule) (simp_all add: current_def open_of_None open_of_insert Let_def)

lemma CloseIncident_log:
  assumes ok: "db_ok d"
  shows "(case CloseIncident n a d of
      (Inr _, d') \<Rightarrow> \<exists>t. current d t = Some n \<and> current d' = (current d)(t := None)
    | (Inl e, d') \<Rightarrow> current d' = current d \<and> (e = ErrNotFound \<longrightarrow> (\<forall>t. current d t \<noteq> Some n)))"
proof -
  let ?p = "\<lambda>i. i_id i = n \<and> i_ended i = None" and ?f = "\<lambda>i. i\<lparr>i_ended := Some (unixSec a)\<rparr>"
  let ?rs = "incidents d"
  note some = open_of_Some [OF db_okD(10) [OF ok]]
  have after: "open_of (update_where ?p ?f ?rs) t = (if open_of ?rs t = Some n then None else open_of ?rs t)" for t
    using open_of_close [OF db_okD(10) [OF ok] db_okD(9) [OF ok], of ?f ?p t] some [of t n]
    by (auto simp: open_at_def)
  show ?thesis
  proof (cases "\<exists>t. open_of ?rs t = Some n")
    case True
    then obtain t where t: "open_of ?rs t = Some n" by blast
    then obtain i where i: "i \<in> set ?rs" "open_at t i" "i_id i = n" using some by blast
    have uniq: "t' = t" if t': "open_of ?rs t' = Some n" for t'
      by (rule open_of_one_target [OF db_okD(10) [OF ok] db_okD(9) [OF ok] t' t])
    have "open_of (update_where ?p ?f ?rs) = (open_of ?rs)(t := None)"
    proof
      show "open_of (update_where ?p ?f ?rs) t' = ((open_of ?rs)(t := None)) t'" for t'
        unfolding after using t uniq [of t'] by (cases "t' = t") auto
    qed
    moreover have "count_where ?p ?rs \<noteq> 0"
      using i by (auto simp: count_where_zero open_at_def)
    ultimately show ?thesis
      unfolding CloseIncident_def using t
      by - (rule exec_rule, auto simp: current_def affected_def)
  next
    case False
    have "\<not> ?p i" if "i \<in> set ?rs" for i
      using False some [of "i_target i" n] that by (auto simp: open_at_def)
    then have "update_where ?p ?f ?rs = ?rs" "count_where ?p ?rs = 0"
      by (simp_all add: update_where_none count_where_zero)
    with False show ?thesis
      unfolding CloseIncident_def by - (rule exec_rule, simp_all add: current_def affected_def)
  qed
qed

interpretation log: incident_log OpenIncident CloseIncident current db_ok
proof unfold_locales
  show "current d t = None \<and> current d' = (current d)(t \<mapsto> n)"
    if "OpenIncident t s w d = (Inr n, d')" for d t s w n d'
    using OpenIncident_log [where t = t and s = s and w = w and d = d] that by simp
  show "current d' = current d \<and> (e = ErrIncidentOpen \<longrightarrow> current d t \<noteq> None)"
    if "OpenIncident t s w d = (Inl e, d')" for d t s w e d'
    using OpenIncident_log [where t = t and s = s and w = w and d = d] that by simp
  show "\<exists>t. current d t = Some n \<and> current d' = (current d)(t := None)"
    if "db_ok d" "CloseIncident n a d = (Inr (), d')" for d n a d'
    using CloseIncident_log [OF that(1), of n a] that(2) by simp
  show "current d' = current d \<and> (e = ErrNotFound \<longrightarrow> (\<forall>t. current d t \<noteq> Some n))"
    if "db_ok d" "CloseIncident n a d = (Inl e, d')" for d n a e d'
    using CloseIncident_log [OF that(1), of n a] that(2) by simp
  show "t = t'" if "db_ok d" "current d t = Some n" "current d t' = Some n" for d t n t'
    using that(2,3) by (auto simp: current_def intro: open_of_one_target [OF db_okD(10,9) [OF that(1)]])
qed (simp_all add: OpenIncident_keeps CloseIncident_keeps)

lemma ClosePausedIncident_current:
  assumes ok: "db_ok d"
  shows "(case ClosePausedIncident now t d of
      (Inr _, d') \<Rightarrow> current d' = (current d)(t := None)
    | (Inl e, d') \<Rightarrow> current d' = current d)"
proof -
  let ?f = "\<lambda>i. i\<lparr>i_ended := Some (unixSec now), i_mailed_down := True, i_mailed_up := True\<rparr>"
  have "open_of (update_where (open_at t) ?f (incidents d)) = (open_of (incidents d))(t := None)"
  proof
    fix t'
    have "(\<exists>i \<in> set (incidents d). open_at t' i \<and> open_at t i) \<longleftrightarrow> t' = t \<and> open_of (incidents d) t \<noteq> None"
      by (auto simp: open_of_None list_ex_iff open_at_def simp del: not_None_eq)
    then show "open_of (update_where (open_at t) ?f (incidents d)) t' = ((open_of (incidents d))(t := None)) t'"
      using open_of_close [OF db_okD(10) [OF ok] db_okD(9) [OF ok], of ?f "open_at t" t'] by auto
  qed
  then show ?thesis
    unfolding ClosePausedIncident_def by - (rule exec_rule, simp_all add: current_def)
qed

end
