(* ===== verification/Store_Sessions.thy ===== *)
theory Store_Sessions
  imports Store_Targets
begin

text \<open>
  Logins: the sessions, remembered devices and the admin account of
  \<^verbatim>\<open>internal/store/sessions.go\<close>, \<^verbatim>\<open>devices.go\<close> and \<^verbatim>\<open>admin.go\<close>. Tokens are drawn by the
  caller from \<^verbatim>\<open>crypto/rand\<close>, so they are arguments here; the token hash (SHA-256 in
  hexadecimal, defined in \<open>Web_Admin\<close>) is the parameter \<open>hashToken\<close>.
\<close>

section \<open>Operations\<close>

definition SessionIdle :: int where "SessionIdle = 12 * 3600"
definition SessionMax :: int where "SessionMax = 7 * 24 * 3600"
definition DeviceMax :: int where "DeviceMax = 90 * 24 * 3600"

record Session =
  ses_CSRF :: string
  ses_CreatedAt :: time
  ses_ExpiresAt :: time
  ses_LastSeen :: time

definition mk_session :: "string \<Rightarrow> int \<Rightarrow> string \<times> int \<times> int \<Rightarrow> session_row" where
  "mk_session h e c = (case c of (csrf, created, seen) \<Rightarrow>
     \<lparr>s_hash = h, s_csrf = csrf, s_created = created, s_expires = e, s_seen = seen\<rparr>)"

definition mk_device :: "string \<Rightarrow> int \<Rightarrow> int \<Rightarrow> device_row" where
  "mk_device h e created = \<lparr>d_hash = h, d_created = created, d_expires = e\<rparr>"

definition CreateSession ::
    "(string \<Rightarrow> string) \<Rightarrow> string \<Rightarrow> string \<Rightarrow> time \<Rightarrow> db \<Rightarrow> (string \<times> Session) result \<times> db" where
  "CreateSession hashToken token csrf clock = exec (\<lambda>d.
     let now = truncTime clock second;
         sess = \<lparr>ses_CSRF = csrf, ses_CreatedAt = now,
                 ses_ExpiresAt = addTime now (SessionIdle * second), ses_LastSeen = now\<rparr>
     in if hashToken token \<in> s_hash ` set (sessions d) then (Inl ErrConstraint, d)
        else (Inr (token, sess),
              d\<lparr>sessions := sessions d @
                  [mk_session (hashToken token) (unixSec (ses_ExpiresAt sess))
                     (csrf, unixSec now, unixSec now)]\<rparr>))"

definition StoreSession :: "(string \<Rightarrow> string) \<Rightarrow> string \<Rightarrow> time \<Rightarrow> db \<Rightarrow> Session result \<times> db" where
  "StoreSession hashToken token now = exec (\<lambda>d.
     (case live_row s_hash s_expires (hashToken token) (unixSec now) (sessions d) of
        None \<Rightarrow> (Inl ErrNotFound, d)
      | Some r \<Rightarrow> (Inr \<lparr>ses_CSRF = s_csrf r, ses_CreatedAt = fromUnix (s_created r),
          ses_ExpiresAt = fromUnix (s_expires r), ses_LastSeen = fromUnix (s_seen r)\<rparr>, d)))"

definition TouchSession :: "(string \<Rightarrow> string) \<Rightarrow> string \<Rightarrow> time \<Rightarrow> db \<Rightarrow> unit result \<times> db" where
  "TouchSession hashToken token clock = exec (\<lambda>d.
     let now = unixSec clock; p = (\<lambda>r. s_hash r = hashToken token \<and> now < s_expires r)
     in (affected (count_where p (sessions d)),
         d\<lparr>sessions := update_where p (\<lambda>r. r\<lparr>s_seen := now,
             s_expires := min (now + SessionIdle) (s_created r + SessionMax)\<rparr>) (sessions d)\<rparr>))"

definition DeleteSession :: "(string \<Rightarrow> string) \<Rightarrow> string \<Rightarrow> db \<Rightarrow> unit result \<times> db" where
  "DeleteSession hashToken token = exec (\<lambda>d.
     (Inr (), d\<lparr>sessions := delete_where (\<lambda>r. s_hash r = hashToken token) (sessions d)\<rparr>))"

definition DeleteExpiredSessions :: "time \<Rightarrow> db \<Rightarrow> int result \<times> db" where
  "DeleteExpiredSessions now = exec (\<lambda>d.
     (Inr (count_where (\<lambda>r. s_expires r \<le> unixSec now) (sessions d)),
      d\<lparr>sessions := delete_where (\<lambda>r. s_expires r \<le> unixSec now) (sessions d)\<rparr>))"

definition CreateDevice :: "(string \<Rightarrow> string) \<Rightarrow> string \<Rightarrow> time \<Rightarrow> db \<Rightarrow> string result \<times> db" where
  "CreateDevice hashToken token clock = exec (\<lambda>d.
     let now = unixSec clock
     in if hashToken token \<in> d_hash ` set (devices d) then (Inl ErrConstraint, d)
        else (Inr token,
              d\<lparr>devices := devices d @ [mk_device (hashToken token) (now + DeviceMax) now]\<rparr>))"

definition KnownDevice :: "(string \<Rightarrow> string) \<Rightarrow> string \<Rightarrow> time \<Rightarrow> db \<Rightarrow> bool result \<times> db" where
  "KnownDevice hashToken token now = exec (\<lambda>d.
     (Inr (live_row d_hash d_expires (hashToken token) (unixSec now) (devices d) \<noteq> None), d))"

definition DeleteExpiredDevices :: "time \<Rightarrow> db \<Rightarrow> int result \<times> db" where
  "DeleteExpiredDevices now = exec (\<lambda>d.
     (Inr (count_where (\<lambda>r. d_expires r \<le> unixSec now) (devices d)),
      d\<lparr>devices := delete_where (\<lambda>r. d_expires r \<le> unixSec now) (devices d)\<rparr>))"

definition StoreAdmin :: "db \<Rightarrow> (string \<times> string) result \<times> db" where
  "StoreAdmin = exec (\<lambda>d.
     (case admin d of None \<Rightarrow> (Inl ErrNotFound, d) | Some a \<Rightarrow> (Inr (a_username a, a_pw_hash a), d)))"

definition SetAdmin :: "time \<Rightarrow> string \<Rightarrow> string \<Rightarrow> db \<Rightarrow> unit result \<times> db" where
  "SetAdmin now username pw = transact
     (and_then (exec (\<lambda>d. (Inr (), d\<lparr>admin := Some \<lparr>a_username = username, a_pw_hash = pw,
                  a_updated = unixSec now\<rparr>\<rparr>))) (\<lambda>_.
      and_then (exec (\<lambda>d. (Inr (), d\<lparr>sessions := []\<rparr>))) (\<lambda>_.
      exec (\<lambda>d. (Inr (), d\<lparr>devices := []\<rparr>)))))"

section \<open>The token interface\<close>

interpretation session_tokens: token_table s_hash s_expires mk_session
  by unfold_locales (simp_all add: mk_session_def split: prod.split)

interpretation device_tokens: token_table d_hash d_expires mk_device
  by unfold_locales (simp_all add: mk_device_def)

lemma mk_session_sel [simp]:
  "s_hash (mk_session h e c) = h" "s_expires (mk_session h e c) = e"
  "s_created (mk_session h e (csrf, created, seen)) = created"
  "s_seen (mk_session h e (csrf, created, seen)) = seen"
  "s_csrf (mk_session h e (csrf, created, seen)) = csrf"
  by (simp_all add: mk_session_def split: prod.split)

lemma session_queries_read [simp]:
  "reads (StoreSession ht token now)" "reads (KnownDevice ht token now)" "reads StoreAdmin"
  unfolding StoreSession_def KnownDevice_def StoreAdmin_def
  by (rule reads_exec, simp split: option.split)+

section \<open>Every operation keeps the schema\<close>

lemma CreateSession_keeps: "db_ok d \<Longrightarrow> db_ok (snd (CreateSession ht token csrf now d))"
  unfolding CreateSession_def
  by (rule schema.exec_keeps)
    (auto simp: Let_def intro!: db_ok_tokens session_tokens.tokens_insert_ok dest: db_okD)

lemma TouchSession_keeps: "db_ok d \<Longrightarrow> db_ok (snd (TouchSession ht token now d))"
  unfolding TouchSession_def
  by (rule schema.exec_keeps)
    (auto simp: Let_def intro!: db_ok_tokens session_tokens.tokens_update_ok dest: db_okD)

lemma DeleteSession_keeps: "db_ok d \<Longrightarrow> db_ok (snd (DeleteSession ht token d))"
  unfolding DeleteSession_def
  by (rule schema.exec_keeps)
    (auto intro!: db_ok_tokens session_tokens.tokens_delete_ok dest: db_okD)

lemma DeleteExpiredSessions_keeps: "db_ok d \<Longrightarrow> db_ok (snd (DeleteExpiredSessions now d))"
  unfolding DeleteExpiredSessions_def
  by (rule schema.exec_keeps)
    (auto intro!: db_ok_tokens session_tokens.tokens_delete_ok dest: db_okD)

lemma CreateDevice_keeps: "db_ok d \<Longrightarrow> db_ok (snd (CreateDevice ht token now d))"
  unfolding CreateDevice_def
  by (rule schema.exec_keeps)
    (auto simp: Let_def intro!: db_ok_tokens device_tokens.tokens_insert_ok dest: db_okD)

lemma DeleteExpiredDevices_keeps: "db_ok d \<Longrightarrow> db_ok (snd (DeleteExpiredDevices now d))"
  unfolding DeleteExpiredDevices_def
  by (rule schema.exec_keeps)
    (auto intro!: db_ok_tokens device_tokens.tokens_delete_ok dest: db_okD)

text \<open>A new password either logs everybody out, or nothing changed.\<close>

lemma SetAdmin_cases:
  obtains (fault) e fs where "SetAdmin now u pw d = (Inl e, d\<lparr>faults := fs\<rparr>)"
    | (reset) fs where "SetAdmin now u pw d = (Inr (), d\<lparr>admin := Some \<lparr>a_username = u, a_pw_hash = pw,
        a_updated = unixSec now\<rparr>, sessions := [], devices := [], faults := fs\<rparr>)"
proof (cases rule: transact_cases [where d = d,
    of "and_then (exec (\<lambda>d. (Inr (), d\<lparr>admin := Some \<lparr>a_username = u, a_pw_hash = pw,
                  a_updated = unixSec now\<rparr>\<rparr>))) (\<lambda>_.
      and_then (exec (\<lambda>d. (Inr (), d\<lparr>sessions := []\<rparr>))) (\<lambda>_.
      exec (\<lambda>d. (Inr (), d\<lparr>devices := []\<rparr>))))"])
  case (fault e fs)
  then show ?thesis using that(1) by (simp add: SetAdmin_def)
next
  case (run fs gs x d2)
  then show ?thesis
    using that(2) by (auto simp: SetAdmin_def and_then_def exec_def split: list.splits if_splits)
qed

lemma SetAdmin_keeps: "db_ok d \<Longrightarrow> db_ok (snd (SetAdmin now u pw d))"
proof (cases rule: SetAdmin_cases [of now u pw d])
  case (reset fs)
  assume "db_ok d"
  then have "db_ok (d\<lparr>admin := Some \<lparr>a_username = u, a_pw_hash = pw,
        a_updated = unixSec now\<rparr>, sessions := [], devices := []\<rparr>)"
    by (simp add: db_ok_tokens tokens_ok_def)
  then show ?thesis by (simp add: reset)
qed simp

section \<open>The life of a session\<close>

text \<open>What the web server does to the session table, as a sequence of operations, each recorded
  with whether it succeeded (the newest first).\<close>

datatype session_op =
    OpCreate string string time
  | OpTouch string time
  | OpLogout string
  | OpExpire time
  | OpSetAdmin time string string

definition succeeded :: "'a result \<times> db \<Rightarrow> bool" where
  "succeeded r = (case fst r of Inl _ \<Rightarrow> False | Inr _ \<Rightarrow> True)"

fun session_step :: "(string \<Rightarrow> string) \<Rightarrow> session_op \<Rightarrow> db \<Rightarrow> bool \<times> db" where
  "session_step ht (OpCreate token csrf now) d =
     (let r = CreateSession ht token csrf now d in (succeeded r, snd r))"
| "session_step ht (OpTouch token now) d =
     (let r = TouchSession ht token now d in (succeeded r, snd r))"
| "session_step ht (OpLogout token) d =
     (let r = DeleteSession ht token d in (succeeded r, snd r))"
| "session_step ht (OpExpire now) d =
     (let r = DeleteExpiredSessions now d in (succeeded r, snd r))"
| "session_step ht (OpSetAdmin now u pw) d =
     (let r = SetAdmin now u pw d in (succeeded r, snd r))"

fun session_run :: "(string \<Rightarrow> string) \<Rightarrow> session_op list \<Rightarrow> db \<Rightarrow> (session_op \<times> bool) list \<times> db" where
  "session_run ht [] d = ([], d)"
| "session_run ht (c # cs) d =
     (let (done_before, d1) = session_run ht cs d; (b, d2) = session_step ht c d1
      in ((c, b) # done_before, d2))"

text \<open>A step that takes the session with the given hash away.\<close>

fun revokes :: "(string \<Rightarrow> string) \<Rightarrow> string \<Rightarrow> session_op \<times> bool \<Rightarrow> bool" where
  "revokes ht h (OpLogout token, b) = (b \<and> ht token = h)"
| "revokes ht h (OpSetAdmin now u pw, b) = b"
| "revokes ht h (c, b) = False"

text \<open>The row was put there by a login in the past that nothing revoked since, and its expiry
  lies within both limits.\<close>

definition accounted :: "(string \<Rightarrow> string) \<Rightarrow> (session_op \<times> bool) list \<Rightarrow> session_row \<Rightarrow> bool" where
  "accounted ht past r \<longleftrightarrow>
     s_expires r \<le> s_created r + SessionMax \<and> s_expires r \<le> s_seen r + SessionIdle \<and>
     (\<exists>after before token now.
        past = after @ (OpCreate token (s_csrf r) now, True) # before \<and>
        ht token = s_hash r \<and> s_created r = unixSec now \<and>
        \<not> list_ex (revokes ht (s_hash r)) after)"

lemma accounted_Cons:
  assumes "accounted ht past r" and "\<not> revokes ht (s_hash r) x"
  shows "accounted ht (x # past) r"
proof -
  obtain after before token now where
    "past = after @ (OpCreate token (s_csrf r) now, True) # before" "ht token = s_hash r"
    "s_created r = unixSec now" "\<not> list_ex (revokes ht (s_hash r)) after"
    using assms(1) unfolding accounted_def by blast
  then have "x # past = (x # after) @ (OpCreate token (s_csrf r) now, True) # before \<and>
     ht token = s_hash r \<and> s_created r = unixSec now \<and>
     \<not> list_ex (revokes ht (s_hash r)) (x # after)"
    using assms(2) by simp
  then show ?thesis using assms(1) unfolding accounted_def by blast
qed

lemma accounted_new:
  "accounted ht ((OpCreate token csrf now, True) # past)
     (mk_session (ht token) (unixSec now + SessionIdle) (csrf, unixSec now, unixSec now))"
  unfolding accounted_def
  by (intro conjI exI [of _ "[]"] exI [of _ past] exI [of _ token] exI [of _ now])
    (simp_all add: SessionIdle_def SessionMax_def)

lemma accounted_touch:
  "accounted ht past r \<Longrightarrow>
   accounted ht past (r\<lparr>s_seen := now, s_expires := min (now + SessionIdle) (s_created r + SessionMax)\<rparr>)"
  by (simp add: accounted_def)

lemma truncTime_second: "truncTime t second = fromUnix (unixSec t)"
proof -
  have "(t - zeroTime) mod second = t mod second"
    using mod_mult_self1 [of t 62135596800 second] by (simp add: zeroTime_def)
  then show ?thesis
    by (simp add: truncTime_def unixSec_def fromUnix_def minus_mod_eq_div_mult)
qed

lemma CreateSession_accounted:
  assumes "\<forall>r \<in> set (sessions d). accounted ht past r"
  shows "\<forall>r \<in> set (sessions (snd (CreateSession ht token csrf now d))).
      accounted ht ((OpCreate token csrf now, succeeded (CreateSession ht token csrf now d)) # past) r"
  unfolding CreateSession_def
  by (rule exec_rule)
    (use assms in \<open>auto simp: Let_def truncTime_second addTime_def unixSec_add_seconds succeeded_def
       intro: accounted_Cons accounted_new\<close>)

lemma TouchSession_accounted:
  assumes "\<forall>r \<in> set (sessions d). accounted ht past r"
  shows "\<forall>r \<in> set (sessions (snd (TouchSession ht token now d))). accounted ht past r"
  unfolding TouchSession_def
  by (rule exec_rule) (use assms in \<open>auto simp: Let_def intro: accounted_touch\<close>)

lemma DeleteSession_accounted:
  assumes "\<forall>r \<in> set (sessions d). accounted ht past r"
  shows "\<forall>r \<in> set (sessions (snd (DeleteSession ht token d))).
      accounted ht ((OpLogout token, succeeded (DeleteSession ht token d)) # past) r"
  unfolding DeleteSession_def
  by (rule exec_rule) (use assms in \<open>auto simp: succeeded_def intro: accounted_Cons\<close>)

lemma DeleteExpiredSessions_accounted:
  assumes "\<forall>r \<in> set (sessions d). accounted ht past r"
  shows "\<forall>r \<in> set (sessions (snd (DeleteExpiredSessions now d))). accounted ht past r"
  unfolding DeleteExpiredSessions_def by (rule exec_rule) (use assms in auto)

lemma SetAdmin_accounted:
  assumes "\<forall>r \<in> set (sessions d). accounted ht past r"
  shows "\<forall>r \<in> set (sessions (snd (SetAdmin now u pw d))).
      accounted ht ((OpSetAdmin now u pw, succeeded (SetAdmin now u pw d)) # past) r"
  by (cases rule: SetAdmin_cases [of now u pw d])
    (use assms in \<open>auto simp: succeeded_def intro: accounted_Cons\<close>)

lemma accounted_step:
  assumes inv: "\<forall>r \<in> set (sessions d). accounted ht past r"
    and step: "session_step ht c d = (b, d')"
  shows "\<forall>r \<in> set (sessions d'). accounted ht ((c, b) # past) r"
proof (cases c)
  case (OpCreate token csrf now)
  then show ?thesis using step CreateSession_accounted [OF inv, of token csrf now] by (auto simp: Let_def)
next
  case (OpTouch token now)
  then show ?thesis
    using step TouchSession_accounted [OF inv, of token now] by (auto simp: Let_def intro: accounted_Cons)
next
  case (OpLogout token)
  then show ?thesis using step DeleteSession_accounted [OF inv, of token] by (auto simp: Let_def)
next
  case (OpExpire now)
  then show ?thesis
    using step DeleteExpiredSessions_accounted [OF inv, of now] by (auto simp: Let_def intro: accounted_Cons)
next
  case (OpSetAdmin now u pw)
  then show ?thesis using step SetAdmin_accounted [OF inv, of now u pw] by (auto simp: Let_def)
qed

lemma session_run_accounted:
  "sessions d = [] \<Longrightarrow> session_run ht cs d = (past, d') \<Longrightarrow>
   \<forall>r \<in> set (sessions d'). accounted ht past r"
proof (induction cs arbitrary: past d')
  case (Cons c cs)
  obtain past1 d1 where run: "session_run ht cs d = (past1, d1)" by force
  obtain b d2 where step: "session_step ht c d1 = (b, d2)" by force
  show ?case
    using accounted_step [OF Cons.IH [OF Cons.prems(1) run] step] Cons.prems(2) run step by simp
qed simp

lemma StoreSession_Inr:
  "StoreSession ht token now d = (Inr s, d') \<Longrightarrow>
   \<exists>r \<in> set (sessions d). s_hash r = ht token \<and> unixSec now < s_expires r \<and>
      ses_CSRF s = s_csrf r \<and> ses_CreatedAt s = fromUnix (s_created r) \<and>
      ses_LastSeen s = fromUnix (s_seen r)"
proof -
  have "\<forall>s d'. StoreSession ht token now d = (Inr s, d') \<longrightarrow>
     (\<exists>r \<in> set (sessions d). s_hash r = ht token \<and> unixSec now < s_expires r \<and>
      ses_CSRF s = s_csrf r \<and> ses_CreatedAt s = fromUnix (s_created r) \<and>
      ses_LastSeen s = fromUnix (s_seen r))"
    unfolding StoreSession_def
    by (rule exec_rule) (auto split: option.splits dest: session_tokens.live_row_member)
  then show "StoreSession ht token now d = (Inr s, d') \<Longrightarrow> ?thesis" by blast
qed

text \<open>C12: A session that authenticates was issued by a login less than seven days ago and seen
  less than twelve hours ago, whatever was done to the session table in between and whichever
  statements failed; no logout of that token and no change of the password came after the
  login.\<close>

theorem session_provenance:
  assumes "sessions d = []" and "session_run ht cs d = (past, d1)"
    and "StoreSession ht token now d1 = (Inr s, d2)"
  shows "\<exists>after before issued t.
     past = after @ (OpCreate issued (ses_CSRF s) t, True) # before \<and> ht issued = ht token \<and>
     \<not> list_ex (revokes ht (ht token)) after \<and>
     unixSec now < unixSec t + 7 * 24 * 3600 \<and>
     unixSec now < unixSec (ses_LastSeen s) + 12 * 3600"
proof -
  obtain r where r: "r \<in> set (sessions d1)" "s_hash r = ht token" "unixSec now < s_expires r"
      "ses_CSRF s = s_csrf r" "ses_LastSeen s = fromUnix (s_seen r)"
    using StoreSession_Inr [OF assms(3)] by blast
  have "accounted ht past r" using session_run_accounted [OF assms(1,2)] r(1) by blast
  then show ?thesis
    using r by (auto simp: accounted_def SessionMax_def SessionIdle_def) force
qed

theorem session_provenance_witness:
  "\<exists>after before issued t.
     fst (session_run id [OpTouch ''tok'' (9000 * second), OpCreate ''tok'' ''c'' 5] empty_db) =
       after @ (OpCreate issued ''c'' t, True) # before \<and> issued = ''tok'' \<and>
     \<not> list_ex (revokes id ''tok'') after \<and> unixSec (9500 * second) < unixSec t + 7 * 24 * 3600 \<and>
     unixSec (9500 * second) < unixSec (fromUnix 9000) + 12 * 3600"
proof -
  let ?r = "\<lparr>s_hash = ''tok'', s_csrf = ''c'', s_created = 0, s_expires = 52200, s_seen = 9000\<rparr>"
  let ?s = "\<lparr>ses_CSRF = ''c'', ses_CreatedAt = fromUnix 0, ses_ExpiresAt = fromUnix 52200,
      ses_LastSeen = fromUnix 9000\<rparr>"
  have run: "session_run id [OpTouch ''tok'' (9000 * second), OpCreate ''tok'' ''c'' 5] empty_db =
     ([(OpTouch ''tok'' (9000 * second), True), (OpCreate ''tok'' ''c'' 5, True)],
      empty_db\<lparr>sessions := [?r]\<rparr>)"
    by (simp add: empty_db_def CreateSession_def TouchSession_def exec_def Let_def mk_session_def
        time_defs SessionIdle_def SessionMax_def succeeded_def affected_def sql_simps)
  have get: "StoreSession id ''tok'' (9500 * second) (empty_db\<lparr>sessions := [?r]\<rparr>) =
     (Inr ?s, empty_db\<lparr>sessions := [?r]\<rparr>)"
    by (simp add: empty_db_def StoreSession_def exec_def live_row_def time_defs)
  show ?thesis using session_provenance [OF _ run get] run by (simp add: empty_db_def)
qed

end
