(* ===== verification/Store_Rollup.thy ===== *)
theory Store_Rollup
  imports Complex_Main "HOL-Library.Multiset" Store_Targets
begin

text \<open>
  The hourly aggregation of \<^verbatim>\<open>internal/store/rollup.go\<close> and the retention of
  \<^verbatim>\<open>retention.go\<close>. A ratio (\<^verbatim>\<open>float64\<close> in the code) is the exact rational quotient here.
\<close>

section \<open>Latency statistics\<close>

record stats =
  st_total :: int
  st_ok :: int
  st_lat :: "int list"

definition empty_stats :: stats where
  "empty_stats = \<lparr>st_total = 0, st_ok = 0, st_lat = []\<rparr>"

definition stats_add :: "bool \<Rightarrow> int \<Rightarrow> stats \<Rightarrow> stats" where
  "stats_add ok lat st =
     (let st1 = st\<lparr>st_total := st_total st + 1\<rparr>
      in if ok then st1\<lparr>st_ok := st_ok st1 + 1, st_lat := st_lat st1 @ [lat]\<rparr> else st1)"

text \<open>Average, 95th percentile and maximum; \<open>None\<close> is an index out of range.\<close>

definition latency :: "stats \<Rightarrow> (int \<times> int \<times> int) option" where
  "latency st =
     (let n = int (length (st_lat st))
      in if n = 0 then Some (0, 0, 0)
         else let xs = sort (st_lat st)
              in (case (go_nth xs ((95 * n + 99) sdiv 100 - 1), go_nth xs (n - 1)) of
                    (Some p95, Some mx) \<Rightarrow> Some (sum_list xs sdiv n, p95, mx)
                  | _ \<Rightarrow> None))"

section \<open>Rollup\<close>

type_synonym hour_key = "int \<times> int"

definition bucket_hour :: "int \<Rightarrow> int" where
  "bucket_hour t = t - t smod hour_len"

fun add_bucket :: "hour_key \<Rightarrow> bool \<Rightarrow> int \<Rightarrow> (hour_key \<times> stats) list \<Rightarrow> (hour_key \<times> stats) list" where
  "add_bucket k ok lat [] = [(k, stats_add ok lat empty_stats)]"
| "add_bucket k ok lat ((k', st) # bs) =
     (if k = k' then (k', stats_add ok lat st) # bs else (k', st) # add_bucket k ok lat bs)"

definition row_key :: "check_row \<Rightarrow> hour_key" where
  "row_key c = (c_target c, bucket_hour (c_at c))"

definition buckets :: "check_row list \<Rightarrow> (hour_key \<times> stats) list" where
  "buckets cs = fold (\<lambda>c. add_bucket (row_key c) (c_ok c) (c_latency c)) cs []"

definition put_hour :: "hourly_row \<Rightarrow> db \<Rightarrow> unit result \<times> db" where
  "put_hour h = exec (\<lambda>d.
     if target_exists (h_target h) d
     then (Inr (), d\<lparr>hourly := delete_where (\<lambda>g. h_target g = h_target h \<and> h_hour g = h_hour h)
              (hourly d) @ [h]\<rparr>)
     else (Inl ErrConstraint, d))"

fun write_hours :: "(hour_key \<times> stats) list \<Rightarrow> db \<Rightarrow> unit result \<times> db" where
  "write_hours [] d = (Inr (), d)"
| "write_hours (((target, hr), st) # bs) d =
     (case latency st of
        None \<Rightarrow> (Inl ErrPanic, d)
      | Some (avg, p95, mx) \<Rightarrow>
          and_then (put_hour \<lparr>h_target = target, h_hour = hr, h_total = st_total st,
              h_ok = st_ok st, h_avg = avg, h_p95 = p95, h_max = mx\<rparr>) (\<lambda>_. write_hours bs) d)"

definition rollup_rows :: "int \<Rightarrow> int \<Rightarrow> check_row list \<Rightarrow> check_row list" where
  "rollup_rows from_s cur cs =
     sort_key (\<lambda>c. (c_target c, c_at c)) (filter (\<lambda>c. from_s \<le> c_at c \<and> c_at c < cur) cs)"

definition Rollup :: "time \<Rightarrow> db \<Rightarrow> unit result \<times> db" where
  "Rollup now =
     (let cur = hourStart now; from_s = cur - 2 * hour_len
      in transact (and_then (exec (\<lambda>d. (Inr (rollup_rows from_s cur (checks d)), d)))
           (\<lambda>rows. write_hours (buckets rows))))"

section \<open>Uptime, hours and latency\<close>

record Uptime =
  up_Day :: rat
  up_Week :: rat
  up_Month :: rat

definition ratio :: "int \<Rightarrow> int \<Rightarrow> rat" where
  "ratio ok tot = (if tot = 0 then - 1 else of_int ok / of_int tot)"

definition sum_hours :: "(hourly_row \<Rightarrow> int) \<Rightarrow> int \<Rightarrow> hourly_row list \<Rightarrow> int" where
  "sum_hours f since hs = sum_list (map f (filter (\<lambda>h. since \<le> h_hour h) hs))"

definition rawHour :: "int \<Rightarrow> int \<Rightarrow> db \<Rightarrow> (int \<times> int) result \<times> db" where
  "rawHour target start = exec (\<lambda>d.
     let cs = filter (\<lambda>c. c_target c = target \<and> start \<le> c_at c) (checks d)
     in (Inr (int (length cs), count_where c_ok cs), d))"

definition StoreUptime :: "time \<Rightarrow> int \<Rightarrow> db \<Rightarrow> Uptime result \<times> db" where
  "StoreUptime now target =
     (let cur = hourStart now in
      and_then (exec (\<lambda>d.
        let hs = filter (\<lambda>h. h_target h = target \<and> h_hour h < cur \<and> cur - 719 * hour_len \<le> h_hour h)
                   (hourly d)
        in (Inr (sum_hours h_total (cur - 23 * hour_len) hs, sum_hours h_ok (cur - 23 * hour_len) hs,
                 sum_hours h_total (cur - 167 * hour_len) hs, sum_hours h_ok (cur - 167 * hour_len) hs,
                 sum_list (map h_total hs), sum_list (map h_ok hs)), d)))
        (\<lambda>(dayT, dayOK, weekT, weekOK, monthT, monthOK).
      and_then (rawHour target cur) (\<lambda>(tot, ok) d.
        (Inr \<lparr>up_Day = ratio (dayOK + ok) (dayT + tot),
              up_Week = ratio (weekOK + ok) (weekT + tot),
              up_Month = ratio (monthOK + ok) (monthT + tot)\<rparr>, d))))"

record Hour =
  hr_Start :: time
  hr_Total :: int
  hr_OK :: int

text \<open>Writing into a cell panics out of range.\<close>

fun put_cells :: "int \<Rightarrow> hourly_row list \<Rightarrow> Hour list \<Rightarrow> Hour list option" where
  "put_cells first [] cells = Some cells"
| "put_cells first (h # hs) cells =
     (let i = (h_hour h - first) sdiv hour_len
      in if 0 \<le> i \<and> i < int (length cells)
         then put_cells first hs
                (cells[nat i := (cells ! nat i)\<lparr>hr_Total := h_total h, hr_OK := h_ok h\<rparr>])
         else None)"

definition Hours :: "time \<Rightarrow> int \<Rightarrow> int \<Rightarrow> db \<Rightarrow> Hour list result \<times> db" where
  "Hours now target n =
     (let cur = hourStart now; first = cur - (n - 1) * hour_len in
      if n < 0 then (\<lambda>d. (Inl ErrPanic, d)) else
      and_then (exec (\<lambda>d. (Inr (filter (\<lambda>h. h_target h = target \<and> first \<le> h_hour h \<and> h_hour h < cur)
                        (hourly d)), d))) (\<lambda>rows d.
        case put_cells first rows
               (map (\<lambda>i. \<lparr>hr_Start = fromUnix (first + int i * hour_len), hr_Total = 0, hr_OK = 0\<rparr>)
                  [0..<nat n]) of
          None \<Rightarrow> (Inl ErrPanic, d)
        | Some cells \<Rightarrow>
            (case go_nth cells (n - 1) of
               None \<Rightarrow> (Inl ErrPanic, d)
             | Some last_cell \<Rightarrow>
                 and_then (rawHour target cur) (\<lambda>(tot, ok) d.
                   (Inr (cells[nat (n - 1) := last_cell\<lparr>hr_Total := tot, hr_OK := ok\<rparr>]), d)) d)))"

record Point =
  pt_At :: time
  pt_Avg :: int
  pt_P95 :: int
  pt_Max :: int

definition step_len :: int where "step_len = 600"

definition flush_point :: "int \<Rightarrow> stats \<Rightarrow> Point list \<Rightarrow> Point list option" where
  "flush_point bucket st out =
     (case latency st of
        None \<Rightarrow> None
      | Some (avg, p95, mx) \<Rightarrow>
          Some (out @ [\<lparr>pt_At = fromUnix bucket, pt_Avg = avg, pt_P95 = p95, pt_Max = mx\<rparr>]))"

fun latency_loop :: "(int \<times> int) list \<Rightarrow> int \<Rightarrow> stats \<Rightarrow> Point list \<Rightarrow> Point list option" where
  "latency_loop [] bucket st out = (if 0 \<le> bucket then flush_point bucket st out else Some out)"
| "latency_loop ((t, lat) # rows) bucket st out =
     (let b = t - t smod step_len
      in if b \<noteq> bucket
         then (if 0 \<le> bucket
               then (case flush_point bucket st out of
                       None \<Rightarrow> None
                     | Some out1 \<Rightarrow> latency_loop rows b (stats_add True lat empty_stats) out1)
               else latency_loop rows b (stats_add True lat st) out)
         else latency_loop rows bucket (stats_add True lat st) out)"

definition hourlyLatency :: "int \<Rightarrow> int \<Rightarrow> db \<Rightarrow> Point list result \<times> db" where
  "hourlyLatency target since = exec (\<lambda>d.
     (Inr (map (\<lambda>h. \<lparr>pt_At = fromUnix (h_hour h), pt_Avg = h_avg h, pt_P95 = h_p95 h, pt_Max = h_max h\<rparr>)
        (sort_key h_hour (filter (\<lambda>h. h_target h = target \<and> since \<le> h_hour h \<and> 0 < h_ok h) (hourly d)))), d))"

definition Latency :: "time \<Rightarrow> int \<Rightarrow> duration \<Rightarrow> db \<Rightarrow> Point list result \<times> db" where
  "Latency now target dur =
     (let since = unixSec (addTime now (- dur)) in
      if 24 * hourDur < dur then hourlyLatency target (since - since smod hour_len)
      else and_then (exec (\<lambda>d. (Inr (map (\<lambda>c. (c_at c, c_latency c)) (sort_key c_at
                (filter (\<lambda>c. c_target c = target \<and> c_ok c \<and> since \<le> c_at c) (checks d)))), d)))
             (\<lambda>rows d. case latency_loop rows (- 1) empty_stats [] of
                None \<Rightarrow> (Inl ErrPanic, d)
              | Some out \<Rightarrow> (Inr out, d)))"

section \<open>Retention\<close>

definition hourlyKeep :: duration where "hourlyKeep = 400 * 24 * hourDur"

definition Prune :: "time \<Rightarrow> int \<Rightarrow> db \<Rightarrow> unit result \<times> db" where
  "Prune now days =
     (let checksBefore = unixSec (addTime now (- (days * 24 * hourDur)));
          keepBefore = unixSec (addTime now (- hourlyKeep)) in
      and_then (exec (\<lambda>d. (Inr (), d\<lparr>checks := delete_where (\<lambda>c. c_at c < checksBefore) (checks d)\<rparr>))) (\<lambda>_.
      and_then (exec (\<lambda>d. (Inr (), d\<lparr>hourly := delete_where (\<lambda>h. h_hour h < keepBefore) (hourly d)\<rparr>))) (\<lambda>_.
      exec (\<lambda>d. (Inr (), d\<lparr>incidents := delete_where (\<lambda>i.
              case i_ended i of None \<Rightarrow> False | Some e \<Rightarrow> e < keepBefore) (incidents d)\<rparr>)))))"

section \<open>The percentile\<close>

lemma p95_index:
  "0 < n \<Longrightarrow> 0 \<le> (95 * n + 99) sdiv 100 - 1 \<and> (95 * n + 99) sdiv 100 - 1 < (n :: int)"
  by (simp add: go_arith) linarith

lemma latency_nonempty:
  assumes "st_lat st \<noteq> []"
  shows "latency st = Some (sum_list (st_lat st) sdiv int (length (st_lat st)),
    sort (st_lat st) ! nat ((95 * int (length (st_lat st)) + 99) sdiv 100 - 1),
    sort (st_lat st) ! (length (st_lat st) - 1))"
proof -
  have sum: "sum_list (sort xs) = sum_list xs" for xs :: "int list"
    by (metis mset_sort sum_mset_sum_list)
  have "nat (int (length (st_lat st)) - 1) = length (st_lat st) - 1" by simp
  then show ?thesis
    using assms p95_index [of "int (length (st_lat st))"]
    by (simp add: latency_def Let_def go_nth_def sum del: nat_diff_distrib)
qed

lemma latency_defined: "latency st \<noteq> None"
proof (cases "st_lat st = []")
  case True
  then show ?thesis by (simp add: latency_def)
next
  case False
  then show ?thesis by (simp add: latency_nonempty)
qed

lemma latency_mset: "mset (st_lat a) = mset (st_lat b) \<Longrightarrow> latency a = latency b"
proof -
  assume eq: "mset (st_lat a) = mset (st_lat b)"
  then have "sort (st_lat a) = sort (st_lat b)" by (metis sorted_list_of_multiset_mset)
  moreover have "length (st_lat a) = length (st_lat b)" using eq by (metis size_mset)
  ultimately show ?thesis by (simp add: latency_def Let_def)
qed

lemma sum_list_bounds:
  fixes xs :: "int list"
  shows "(\<And>x. x \<in> set xs \<Longrightarrow> a \<le> x) \<Longrightarrow> a * int (length xs) \<le> sum_list xs"
    and "(\<And>x. x \<in> set xs \<Longrightarrow> x \<le> b) \<Longrightarrow> sum_list xs \<le> b * int (length xs)"
  by (induction xs) (auto simp: algebra_simps intro: add_mono)

lemma average_bounds:
  fixes xs :: "int list"
  assumes "xs \<noteq> []" and "\<forall>x \<in> set xs. 0 \<le> x"
  shows "Min (set xs) \<le> sum_list xs sdiv int (length xs)" "sum_list xs sdiv int (length xs) \<le> Max (set xs)"
proof -
  have n: "0 < int (length xs)" using assms(1) by simp
  have lo: "Min (set xs) * int (length xs) \<le> sum_list xs" by (rule sum_list_bounds(1)) simp
  have hi: "sum_list xs \<le> Max (set xs) * int (length xs)" by (rule sum_list_bounds(2)) simp
  have "0 \<le> sum_list xs" using assms(2) by (simp add: sum_list_nonneg)
  then have avg: "sum_list xs sdiv int (length xs) = sum_list xs div int (length xs)"
    using n by (simp add: go_arith)
  show "Min (set xs) \<le> sum_list xs sdiv int (length xs)"
    unfolding avg using zdiv_mono1 [OF lo n] assms(1) by simp
  show "sum_list xs sdiv int (length xs) \<le> Max (set xs)"
    unfolding avg using zdiv_mono1 [OF hi n] assms(1) by simp
qed

lemma sorted_rank:
  fixes xs :: "int list"
  assumes "sorted xs" and "i < length xs"
  shows "Suc i \<le> length (filter (\<lambda>x. x \<le> xs ! i) xs)" and "length (filter (\<lambda>x. x < xs ! i) xs) \<le> i"
proof -
  have split: "filter P xs = filter P (take k xs) @ filter P (drop k xs)" for P k
    by (metis append_take_drop_id filter_append)
  have "filter (\<lambda>x. x \<le> xs ! i) (take (Suc i) xs) = take (Suc i) xs"
    using assms by (auto simp: filter_id_conv in_set_conv_nth sorted_nth_mono)
  then have "length (filter (\<lambda>x. x \<le> xs ! i) (take (Suc i) xs)) = Suc i"
    using assms(2) by simp
  then show "Suc i \<le> length (filter (\<lambda>x. x \<le> xs ! i) xs)"
    by (simp add: split [of _ "Suc i"])
  have "filter (\<lambda>x. x < xs ! i) (drop i xs) = []"
    using assms by (auto simp: filter_empty_conv in_set_conv_nth not_less intro!: sorted_nth_mono)
  then show "length (filter (\<lambda>x. x < xs ! i) xs) \<le> i"
    using length_filter_le [of "\<lambda>x. x < xs ! i" "take i xs"] by (simp add: split [of _ i])
qed

lemma sorted_last_is_Max:
  fixes xs :: "int list"
  assumes "sorted xs" and "0 < length xs"
  shows "xs ! (length xs - 1) = Max (set xs)"
proof (rule Max_eqI [symmetric])
  show "x \<le> xs ! (length xs - 1)" if "x \<in> set xs" for x
    using that assms by (auto simp: in_set_conv_nth intro!: sorted_nth_mono)
qed (use assms in auto)

lemma length_filter_sort: "length (filter P (sort xs)) = length (filter P xs)"
  by (metis mset_filter mset_sort size_mset)

text \<open>C8: The latency summary never indexes out of range. For a non-empty sample its 95th
  percentile is the nearest-rank percentile: a measured value that at least 95 percent of the
  sample do not exceed and that fewer than 95 percent stay below; its maximum is the largest
  measured value and its average lies between the smallest and the largest.\<close>

theorem latency_percentile:
  assumes "st_lat st \<noteq> []" and "\<forall>l \<in> set (st_lat st). 0 \<le> l"
  shows "\<exists>avg p95 mx. latency st = Some (avg, p95, mx) \<and> p95 \<in> set (st_lat st) \<and>
    95 * length (st_lat st) \<le> 100 * length (filter (\<lambda>l. l \<le> p95) (st_lat st)) \<and>
    100 * length (filter (\<lambda>l. l < p95) (st_lat st)) < 95 * length (st_lat st) \<and>
    mx = Max (set (st_lat st)) \<and> Min (set (st_lat st)) \<le> avg \<and> avg \<le> Max (set (st_lat st))"
proof -
  let ?xs = "st_lat st" and ?n = "length (st_lat st)"
  let ?i = "nat ((95 * int ?n + 99) sdiv 100 - 1)"
  have i: "?i < ?n" and i100: "95 * ?n \<le> 100 * Suc ?i" "100 * ?i < 95 * ?n"
    using assms(1) by (auto simp: go_arith simp flip: length_greater_0_conv)
  have p: "sort ?xs ! ?i \<in> set ?xs" using i by (metis length_sort nth_mem set_sort)
  have "Suc ?i \<le> length (filter (\<lambda>l. l \<le> sort ?xs ! ?i) ?xs)"
    "length (filter (\<lambda>l. l < sort ?xs ! ?i) ?xs) \<le> ?i"
    using sorted_rank [of "sort ?xs" ?i] i by (simp_all add: length_filter_sort)
  moreover have "sort ?xs ! (?n - 1) = Max (set ?xs)"
    using sorted_last_is_Max [of "sort ?xs"] assms(1) by simp
  ultimately show ?thesis
    using i100 p average_bounds [OF assms] latency_nonempty [OF assms(1)] by auto
qed

theorem latency_percentile_witness:
  "\<exists>avg p95 mx. latency \<lparr>st_total = 4, st_ok = 3, st_lat = [30, 10, 20]\<rparr> = Some (avg, p95, mx) \<and>
     p95 \<in> {10, 20, 30} \<and> mx = 30 \<and> avg \<le> 30"
  using latency_percentile [of "\<lparr>st_total = 4, st_ok = 3, st_lat = [30, 10, 20]\<rparr>"] by auto

section \<open>Buckets\<close>

text \<open>What a list of checks amounts to.\<close>

definition stats_of :: "check_row list \<Rightarrow> stats" where
  "stats_of cs = \<lparr>st_total = int (length cs), st_ok = count_where c_ok cs,
     st_lat = map c_latency (filter c_ok cs)\<rparr>"

lemma stats_of_Nil [simp]: "stats_of [] = empty_stats"
  by (simp add: stats_of_def empty_stats_def count_where_def)

lemma stats_of_snoc: "stats_of (cs @ [c]) = stats_add (c_ok c) (c_latency c) (stats_of cs)"
  by (simp add: stats_of_def stats_add_def Let_def count_where_def)

lemma map_of_add_bucket:
  "map_of (add_bucket k ok lat bs) =
     (map_of bs)(k \<mapsto> stats_add ok lat (case map_of bs k of None \<Rightarrow> empty_stats | Some st \<Rightarrow> st))"
  by (induction k ok lat bs rule: add_bucket.induct) (auto simp: fun_eq_iff)

lemma fst_add_bucket: "fst ` set (add_bucket k ok lat bs) = insert k (fst ` set bs)"
  by (induction k ok lat bs rule: add_bucket.induct) auto

lemma distinct_add_bucket:
  "distinct (map fst bs) \<Longrightarrow> distinct (map fst (add_bucket k ok lat bs))"
  by (induction k ok lat bs rule: add_bucket.induct) (auto simp: fst_add_bucket)

lemma buckets_snoc:
  "buckets (cs @ [c]) = add_bucket (row_key c) (c_ok c) (c_latency c) (buckets cs)"
  by (simp add: buckets_def)

lemma distinct_buckets: "distinct (map fst (buckets cs))"
  by (induction cs rule: rev_induct) (simp_all add: buckets_snoc distinct_add_bucket, simp add: buckets_def)

lemma map_of_buckets:
  "map_of (buckets cs) k =
     (let rs = filter (\<lambda>c. row_key c = k) cs in if rs = [] then None else Some (stats_of rs))"
proof (induction cs rule: rev_induct)
  case Nil
  then show ?case by (simp add: buckets_def)
next
  case (snoc c cs)
  show ?case
  proof (cases "row_key c = k")
    case True
    then show ?thesis
      using snoc by (auto simp: buckets_snoc map_of_add_bucket stats_of_snoc Let_def
          stats_of_snoc [of "[]", simplified])
  next
    case False
    then show ?thesis using snoc by (simp add: buckets_snoc map_of_add_bucket Let_def)
  qed
qed

section \<open>Writing the hours\<close>

definition find_hour :: "int \<Rightarrow> int \<Rightarrow> hourly_row list \<Rightarrow> hourly_row option" where
  "find_hour g h hs = find (\<lambda>r. h_target r = g \<and> h_hour r = h) hs"

definition hour_row :: "hour_key \<Rightarrow> stats \<Rightarrow> hourly_row" where
  "hour_row k st = (case the (latency st) of (avg, p95, mx) \<Rightarrow>
     \<lparr>h_target = fst k, h_hour = snd k, h_total = st_total st, h_ok = st_ok st, h_avg = avg,
      h_p95 = p95, h_max = mx\<rparr>)"

lemma hour_row_sel [simp]:
  "h_target (hour_row k st) = fst k" "h_hour (hour_row k st) = snd k"
  "h_total (hour_row k st) = st_total st" "h_ok (hour_row k st) = st_ok st"
  by (simp_all add: hour_row_def split: prod.split)

lemma write_hours_Cons:
  "write_hours ((k, st) # bs) = and_then (put_hour (hour_row k st)) (\<lambda>_. write_hours bs)"
proof -
  obtain avg p95 mx where "latency st = Some (avg, p95, mx)"
    using latency_defined [of st] by auto
  then show ?thesis by (cases k) (simp add: hour_row_def fun_eq_iff)
qed

lemma find_hour_put:
  "find_hour g h (delete_where (\<lambda>r. h_target r = h_target x \<and> h_hour r = h_hour x) hs @ [x]) =
     (if g = h_target x \<and> h = h_hour x then Some x else find_hour g h hs)"
  by (induction hs) (auto simp: find_hour_def delete_where_simps)

lemma put_hour_Inr:
  "put_hour x d = (Inr (), d') \<Longrightarrow>
   d'\<lparr>hourly := [], faults := []\<rparr> = d\<lparr>hourly := [], faults := []\<rparr> \<and>
   find_hour g h (hourly d') = (if g = h_target x \<and> h = h_hour x then Some x else find_hour g h (hourly d))"
proof -
  have "\<forall>d'. put_hour x d = (Inr (), d') \<longrightarrow>
   d'\<lparr>hourly := [], faults := []\<rparr> = d\<lparr>hourly := [], faults := []\<rparr> \<and>
   find_hour g h (hourly d') = (if g = h_target x \<and> h = h_hour x then Some x else find_hour g h (hourly d))"
    unfolding put_hour_def by (rule exec_rule) (auto simp: find_hour_put)
  then show "put_hour x d = (Inr (), d') \<Longrightarrow> ?thesis" by blast
qed

lemma write_hours_lookup:
  "distinct (map fst bs) \<Longrightarrow> write_hours bs d = (Inr (), d') \<Longrightarrow>
   d'\<lparr>hourly := [], faults := []\<rparr> = d\<lparr>hourly := [], faults := []\<rparr> \<and>
   find_hour g h (hourly d') =
     (case map_of bs (g, h) of Some st \<Rightarrow> Some (hour_row (g, h) st) | None \<Rightarrow> find_hour g h (hourly d))"
proof (induction bs arbitrary: d)
  case Nil
  then show ?case by simp
next
  case (Cons b bs)
  obtain k st where b: "b = (k, st)" by (rule prod.exhaust)
  obtain d1 where put: "put_hour (hour_row k st) d = (Inr (), d1)"
    and rest: "write_hours bs d1 = (Inr (), d')"
    using Cons.prems(2) unfolding b write_hours_Cons and_then_Inr by auto
  note one = put_hour_Inr [OF put, of g h]
  have ih: "d'\<lparr>hourly := [], faults := []\<rparr> = d1\<lparr>hourly := [], faults := []\<rparr> \<and> find_hour g h (hourly d') =
     (case map_of bs (g, h) of Some st \<Rightarrow> Some (hour_row (g, h) st) | None \<Rightarrow> find_hour g h (hourly d1))"
    using Cons.IH [OF _ rest] Cons.prems(1) by simp
  have "k \<noteq> (g, h) \<or> map_of bs (g, h) = None"
    using Cons.prems(1) b by (auto simp: map_of_eq_None_iff)
  then show ?case
    using one ih b by (cases k) (auto split: option.splits)
qed

text \<open>The checks of one target and hour that the rollup at \<open>now\<close> looks at.\<close>

definition window_checks :: "time \<Rightarrow> int \<Rightarrow> int \<Rightarrow> check_row list \<Rightarrow> check_row list" where
  "window_checks now g h cs = filter (\<lambda>c. c_target c = g \<and> bucket_hour (c_at c) = h \<and>
     hourStart now - 2 * hour_len \<le> c_at c \<and> c_at c < hourStart now) cs"

lemma rollup_bucket:
  "mset (filter (\<lambda>c. row_key c = (g, h)) (rollup_rows (hourStart now - 2 * hour_len) (hourStart now) cs)) =
   mset (window_checks now g h cs)"
  by (simp add: rollup_rows_def window_checks_def row_key_def filter_filter_mset conj_ac)

lemma stats_of_mset:
  assumes "mset cs = mset cs'"
  shows "hour_row k (stats_of cs) = hour_row k (stats_of cs')"
proof -
  have "mset (st_lat (stats_of cs)) = mset (st_lat (stats_of cs'))"
    using assms by (simp add: stats_of_def)
  then have "latency (stats_of cs) = latency (stats_of cs')" by (rule latency_mset)
  moreover have "st_total (stats_of cs) = st_total (stats_of cs')"
    "st_ok (stats_of cs) = st_ok (stats_of cs')"
    using assms by (simp_all add: stats_of_def count_where_def) (metis size_mset, metis mset_filter size_mset)
  ultimately show ?thesis by (simp add: hour_row_def)
qed

lemma Rollup_Inr:
  assumes "Rollup now d = (Inr (), d')"
  shows "d'\<lparr>hourly := [], faults := []\<rparr> = d\<lparr>hourly := [], faults := []\<rparr>"
    and "find_hour g h (hourly d') =
      (if window_checks now g h (checks d) = [] then find_hour g h (hourly d)
       else Some (hour_row (g, h) (stats_of (window_checks now g h (checks d)))))"
proof -
  let ?rows = "rollup_rows (hourStart now - 2 * hour_len) (hourStart now) (checks d)"
  let ?rs = "filter (\<lambda>c. row_key c = (g, h)) ?rows"
  obtain fs gs d1 where body: "write_hours (buckets ?rows) (d\<lparr>faults := fs\<rparr>) = (Inr (), d1)"
    and d': "d' = d1\<lparr>faults := gs\<rparr>"
    using assms unfolding Rollup_def Let_def
    by (cases rule: transact_cases [of "and_then (exec (\<lambda>d. (Inr (rollup_rows (hourStart now - 2 * hour_len)
           (hourStart now) (checks d)), d))) (\<lambda>rows. write_hours (buckets rows))" d])
      (auto simp: exec_def and_then_Inr split: list.splits if_splits)
  note look = write_hours_lookup [OF distinct_buckets body, of g h]
  show "d'\<lparr>hourly := [], faults := []\<rparr> = d\<lparr>hourly := [], faults := []\<rparr>"
    using look d' by simp
  have "?rs = [] \<longleftrightarrow> window_checks now g h (checks d) = []"
    using rollup_bucket [of g h now "checks d"] by (metis mset_zero_iff)
  moreover have "hour_row (g, h) (stats_of ?rs) = hour_row (g, h) (stats_of (window_checks now g h (checks d)))"
    by (rule stats_of_mset) (rule rollup_bucket)
  ultimately show "find_hour g h (hourly d') =
      (if window_checks now g h (checks d) = [] then find_hour g h (hourly d)
       else Some (hour_row (g, h) (stats_of (window_checks now g h (checks d)))))"
    using look d' by (simp add: map_of_buckets Let_def)
qed

section \<open>Rollup and retention keep the schema\<close>

lemma bucket_hour_dvd: "hour_len dvd bucket_hour t"
  by (simp add: bucket_hour_def minus_smod_eq_sdiv_mult)

lemma put_hour_keeps:
  assumes "db_ok d" and "hour_len dvd h_hour x" and "0 \<le> h_ok x" and "h_ok x \<le> h_total x"
  shows "db_ok (snd (put_hour x d))"
  unfolding put_hour_def
proof (rule schema.exec_keeps [OF _ assms(1)])
  fix d assume ok: "db_ok d"
  let ?hs = "delete_where (\<lambda>g. h_target g = h_target x \<and> h_hour g = h_hour x) (hourly d) @ [x]"
  have "distinct (map (\<lambda>h. (h_target h, h_hour h)) ?hs)"
    using db_okD(5) [OF ok] by (auto simp: delete_where_def distinct_map_filter)
  then have "target_exists (h_target x) d \<Longrightarrow> db_ok (d\<lparr>hourly := ?hs\<rparr>)"
    using assms(2-4) db_okD(6-8) [OF ok] by (intro db_ok_hourlyI [OF ok]) auto
  then show "db_ok (snd (if target_exists (h_target x) d then (Inr (), d\<lparr>hourly := ?hs\<rparr>)
      else (Inl ErrConstraint, d)))"
    using ok by simp
qed

lemma write_hours_keeps:
  "db_ok d \<Longrightarrow> (\<And>k st. (k, st) \<in> set bs \<Longrightarrow> hour_len dvd snd k \<and> 0 \<le> st_ok st \<and> st_ok st \<le> st_total st) \<Longrightarrow>
   db_ok (snd (write_hours bs d))"
proof (induction bs arbitrary: d)
  case (Cons b bs)
  obtain k st where b: "b = (k, st)" by (rule prod.exhaust)
  have "db_ok (snd (put_hour (hour_row k st) d))" if "db_ok d" for d
    using Cons.prems(2) [of k st] b that by (intro put_hour_keeps) auto
  moreover have "db_ok (snd (write_hours bs d))" if "db_ok d" for d
    by (rule Cons.IH [OF that]) (rule Cons.prems(2), simp)
  ultimately show ?case
    unfolding b write_hours_Cons using Cons.prems(1) by (rule schema.and_then_keeps)
qed simp

lemma buckets_ok:
  assumes "(k, st) \<in> set (buckets cs)"
  shows "hour_len dvd snd k \<and> 0 \<le> st_ok st \<and> st_ok st \<le> st_total st"
proof -
  have "map_of (buckets cs) k = Some st"
    using assms distinct_buckets by (simp add: map_of_is_SomeI)
  then have ne: "filter (\<lambda>c. row_key c = k) cs \<noteq> []"
    and st: "st = stats_of (filter (\<lambda>c. row_key c = k) cs)"
    by (auto simp: map_of_buckets Let_def split: if_splits)
  from ne obtain c where "row_key c = k" by (auto simp: filter_empty_conv)
  then have "hour_len dvd snd k" using bucket_hour_dvd by (auto simp: row_key_def)
  then show ?thesis using st by (simp add: stats_of_def count_where_le)
qed

lemma Rollup_keeps: "db_ok d \<Longrightarrow> db_ok (snd (Rollup now d))"
  unfolding Rollup_def Let_def
  by (rule schema.transact_keeps, rule schema.and_then_keeps, rule schema.exec_keeps)
    (auto intro: write_hours_keeps dest: buckets_ok)

lemma Prune_keeps: "db_ok d \<Longrightarrow> db_ok (snd (Prune now days d))"
  unfolding Prune_def Let_def
  by (intro schema.and_then_keeps schema.exec_keeps)
    (simp_all add: delete_checks_ok delete_hourly_ok delete_incidents_ok)

lemma rollup_queries_read [simp]: "reads (rawHour g start)" "reads (hourlyLatency g since)"
  unfolding rawHour_def hourlyLatency_def by (rule reads_exec, simp add: Let_def)+

end
