(* ===== verification/Mailer.thy ===== *)
theory Mailer
  imports Prelude
begin

text \<open>
  The mailer of \<^verbatim>\<open>internal/alert/smtp.go\<close>: the quota that every mail has to pass and the SMTP
  dialogue. The network may fail any command; \<open>wire\<close> scripts which of the coming commands fail
  (an exhausted script means no more failures). The commands a mail issued are returned with its
  result. The text of a mail is an argument; parsing the sender's address and building the
  message is the argument \<open>prepare\<close>, which gives the envelope sender or fails.
\<close>

section \<open>Quota\<close>

datatype mail_err = ErrLimit | ErrMail

definition perHour :: nat where "perHour = 20"
definition perHourTest :: nat where "perHourTest = 3"

record Mailer =
  Host :: string
  Port :: int
  User :: string
  Pass :: string
  From :: string
  To :: "string list"
  BaseURL :: string
  sent :: "time list"
  sentTest :: "time list"
  wire :: "bool list"

text \<open>The loop that counts the entries of more than an hour ago, then the slice behind them.\<close>

function cut_loop :: "time \<Rightarrow> time list \<Rightarrow> nat \<Rightarrow> nat" where
  "cut_loop now xs n =
     (if n < length xs \<and> \<not> addTime now (- hourDur) < xs ! n then cut_loop now xs (Suc n) else n)"
  by pat_completeness auto
termination by (relation "measure (\<lambda>(now, xs, n). length xs - n)") auto

declare cut_loop.simps [simp del]

definition reserve :: "bool \<Rightarrow> time \<Rightarrow> Mailer \<Rightarrow> (mail_err + unit) \<times> Mailer" where
  "reserve test now m =
     (let xs = (if test then sentTest m else sent m);
          limit = (if test then perHourTest else perHour);
          put = (\<lambda>ys m. if test then m\<lparr>sentTest := ys\<rparr> else m\<lparr>sent := ys\<rparr>);
          ys = drop (cut_loop now xs 0) xs
      in if limit \<le> length ys then (Inl ErrLimit, put ys m)
         else (Inr (), put (ys @ [now]) m))"

section \<open>Sending\<close>

datatype smtp_cmd =
    Dial
  | SetDeadline
  | NewClient
  | Auth
  | MailFrom string
  | Rcpt string
  | Data
  | Write "string"
  | CloseData
  | Quit

text \<open>The commands in the order in which the code issues them, each only after the one before
  succeeded.\<close>

definition dialogue :: "string \<Rightarrow> string \<Rightarrow> Mailer \<Rightarrow> smtp_cmd list" where
  "dialogue sender msg m =
     [Dial, SetDeadline, NewClient] @ (if User m \<noteq> [] then [Auth] else []) @ [MailFrom sender] @
     map Rcpt (To m) @ [Data, Write msg, CloseData]"

definition net_step :: "Mailer \<Rightarrow> bool \<times> Mailer" where
  "net_step m = (case wire m of [] \<Rightarrow> (True, m) | f # fs \<Rightarrow> (\<not> f, m\<lparr>wire := fs\<rparr>))"

fun smtp_talk :: "smtp_cmd list \<Rightarrow> Mailer \<Rightarrow> (mail_err + unit) \<times> Mailer \<times> smtp_cmd list" where
  "smtp_talk [] m = (Inr (), m, [])"
| "smtp_talk (c # cs) m =
     (case net_step m of
        (False, m1) \<Rightarrow> (Inl ErrMail, m1, [c])
      | (True, m1) \<Rightarrow> (case smtp_talk cs m1 of (r, m2, tr) \<Rightarrow> (r, m2, c # tr)))"

definition send ::
    "(string \<Rightarrow> (string \<times> string) option) \<Rightarrow> bool \<Rightarrow> time \<Rightarrow> Mailer \<Rightarrow> (mail_err + unit) \<times> Mailer \<times> smtp_cmd list" where
  "send prepare test now m =
     (case prepare (From m) of
        None \<Rightarrow> (Inl ErrMail, m, [])
      | Some (sender, msg) \<Rightarrow>
          (case reserve test now m of
             (Inl e, m1) \<Rightarrow> (Inl e, m1, [])
           | (Inr _, m1) \<Rightarrow>
               (case smtp_talk (dialogue sender msg m1) m1 of
                  (Inl e, m2, tr) \<Rightarrow> (Inl e, m2, tr)
                | (Inr _, m2, tr) \<Rightarrow> (Inr (), snd (net_step m2), tr @ [Quit]))))"

section \<open>The quota's law\<close>

lemma cut_loop_drop: "drop (cut_loop now xs n) xs = dropWhile (\<lambda>t. t \<le> now - hourDur) (drop n xs)"
proof (induction now xs n rule: cut_loop.induct)
  case (1 now xs n)
  show ?case
  proof (cases "n < length xs")
    case True
    then have "drop n xs = xs ! n # drop (Suc n) xs" by (simp add: Cons_nth_drop_Suc)
    then show ?thesis
      using 1 True by (subst cut_loop.simps) (auto simp: addTime_def not_less)
  qed (subst cut_loop.simps, simp)
qed

text \<open>A quota on one kind of calls among several: a call either leaves the log alone and is not
  granted, or it drops the entries of more than an hour ago and is granted exactly when fewer
  than \<open>limit\<close> remain.\<close>

locale mail_quota =
  fixes call :: "'a \<Rightarrow> time \<Rightarrow> 'm \<Rightarrow> bool \<times> 'm"
    and mine :: "'a \<Rightarrow> bool"
    and log_of :: "'m \<Rightarrow> time list"
    and limit :: nat
  assumes counted: "mine a \<Longrightarrow>
      call a now m = (g, m') \<Longrightarrow>
      \<not> g \<and> log_of m' = log_of m \<or>
      (let kept = dropWhile (\<lambda>t. t \<le> now - hourDur) (log_of m)
       in if length kept < limit then g \<and> log_of m' = kept @ [now] else \<not> g \<and> log_of m' = kept)"
    and other: "\<not> mine a \<Longrightarrow> log_of (snd (call a now m)) = log_of m"
begin

fun granted :: "('a \<times> time) list \<Rightarrow> 'm \<Rightarrow> time list" where
  "granted [] m = []"
| "granted ((a, now) # cs) m =
     (case call a now m of (g, m') \<Rightarrow> (if mine a \<and> g then [now] else []) @ granted cs m')"

definition in_hour :: "time \<Rightarrow> time list \<Rightarrow> nat" where
  "in_hour t xs = length (filter (\<lambda>u. t - hourDur < u \<and> u \<le> t) xs)"

definition accounts :: "time \<Rightarrow> time list \<Rightarrow> 'm \<Rightarrow> bool" where
  "accounts now gs m \<longleftrightarrow>
     (\<exists>old. gs = old @ log_of m \<and> (\<forall>u \<in> set old. u \<le> now - hourDur)) \<and>
     (\<forall>t. in_hour t gs \<le> limit)"

lemma in_hour_append: "in_hour t (xs @ ys) = in_hour t xs + in_hour t ys"
  by (simp add: in_hour_def)

lemma in_hour_old: "\<forall>u \<in> set xs. u \<le> s - hourDur \<Longrightarrow> s \<le> t \<Longrightarrow> in_hour t xs = 0"
  by (auto simp: in_hour_def filter_empty_conv)

lemma in_hour_grant:
  assumes "accounts now gs m" and "now \<le> now'" and "kept = dropWhile (\<lambda>t. t \<le> now' - hourDur) (log_of m)"
    and "length kept < limit"
  shows "in_hour t (gs @ [now']) \<le> limit"
proof (cases "t - hourDur < now' \<and> now' \<le> t")
  case True
  obtain old where gs: "gs = old @ log_of m" "\<forall>u \<in> set old. u \<le> now - hourDur"
    using assms(1) by (auto simp: accounts_def)
  have split: "log_of m = takeWhile (\<lambda>t. t \<le> now' - hourDur) (log_of m) @ kept"
    using assms(3) by simp
  have "in_hour t old = 0" using True assms(2) by (intro in_hour_old [OF gs(2)]) linarith
  moreover have "in_hour t (takeWhile (\<lambda>t. t \<le> now' - hourDur) (log_of m)) = 0"
    using True by (intro in_hour_old) (auto dest: set_takeWhileD)
  ultimately have "in_hour t gs = in_hour t kept" using gs(1) split by (metis add_0 in_hour_append)
  also have "\<dots> \<le> length kept" by (simp add: in_hour_def)
  finally show ?thesis using assms(4) by (simp add: in_hour_append in_hour_def)
next
  case False
  then have "in_hour t [now'] = 0" by (auto simp: in_hour_def)
  then show ?thesis using assms(1) by (simp add: accounts_def in_hour_append)
qed

lemma accounts_call:
  assumes acc: "accounts now gs m" and "now \<le> now'" and c: "call a now' m = (g, m')"
  shows "accounts now' (gs @ (if mine a \<and> g then [now'] else [])) m'"
proof -
  define kept where "kept = dropWhile (\<lambda>t. t \<le> now' - hourDur) (log_of m)"
  obtain old where gs: "gs = old @ log_of m" "\<forall>u \<in> set old. u \<le> now - hourDur"
    using acc by (auto simp: accounts_def)
  have bound: "\<forall>t. in_hour t gs \<le> limit" using acc by (simp add: accounts_def)
  consider "log_of m' = log_of m" "\<not> (mine a \<and> g)"
    | "mine a" "g" "length kept < limit" "log_of m' = kept @ [now']" | "\<not> g" "log_of m' = kept"
    using counted [OF _ c] other [of a now' m] c
    by (cases "mine a"; cases "length kept < limit") (auto simp: kept_def Let_def)
  then show ?thesis
  proof cases
    case 1
    have "\<forall>u \<in> set old. u \<le> now' - hourDur" using gs(2) assms(2) by auto
    then show ?thesis using 1 gs(1) bound by (auto simp: accounts_def)
  next
    case 2
    have split: "log_of m = takeWhile (\<lambda>t. t \<le> now' - hourDur) (log_of m) @ kept" by (simp add: kept_def)
    have "\<forall>u \<in> set (old @ takeWhile (\<lambda>t. t \<le> now' - hourDur) (log_of m)). u \<le> now' - hourDur"
      using gs(2) assms(2) by (auto dest: set_takeWhileD)
    moreover have "gs @ [now'] = (old @ takeWhile (\<lambda>t. t \<le> now' - hourDur) (log_of m)) @ log_of m'"
      using gs(1) split 2(4) by simp
    moreover have "\<forall>t. in_hour t (gs @ [now']) \<le> limit"
      using in_hour_grant [OF acc assms(2) kept_def 2(3)] by blast
    ultimately show ?thesis using 2(1,2) unfolding accounts_def by auto
  next
    case 3
    have "\<forall>u \<in> set (old @ takeWhile (\<lambda>t. t \<le> now' - hourDur) (log_of m)). u \<le> now' - hourDur"
      using gs(2) assms(2) by (auto dest: set_takeWhileD)
    moreover have "gs = (old @ takeWhile (\<lambda>t. t \<le> now' - hourDur) (log_of m)) @ log_of m'"
      using gs(1) 3(2) by (simp add: kept_def)
    ultimately show ?thesis using 3(1) bound unfolding accounts_def by auto
  qed
qed

lemma granted_accounts:
  "accounts now gs m \<Longrightarrow> sorted (now # map snd cs) \<Longrightarrow> in_hour t (gs @ granted cs m) \<le> limit"
proof (induction cs arbitrary: now gs m)
  case Nil
  then show ?case by (simp add: accounts_def)
next
  case (Cons c cs)
  obtain a now' where c: "c = (a, now')" by (rule prod.exhaust)
  obtain g m' where call: "call a now' m = (g, m')" by (rule prod.exhaust)
  have "accounts now' (gs @ (if mine a \<and> g then [now'] else [])) m'"
    using Cons.prems c by (intro accounts_call [OF Cons.prems(1) _ call]) auto
  from Cons.IH [OF this] Cons.prems(2) c call show ?case by simp
qed

lemma quota:
  assumes "log_of m = []" and "sorted (map snd cs)"
  shows "in_hour t (granted cs m) \<le> limit"
proof (cases cs)
  case (Cons c rest)
  have "accounts (snd c) [] m" using assms(1) by (simp add: accounts_def in_hour_def)
  from granted_accounts [OF this, of cs t] show ?thesis using assms(2) Cons by simp
qed (simp add: in_hour_def)

end

section \<open>The quota holds\<close>

lemma reserve_eq:
  "reserve test now m =
     (let xs = (if test then sentTest m else sent m);
          kept = dropWhile (\<lambda>t. t \<le> now - hourDur) xs;
          put = (\<lambda>ys. if test then m\<lparr>sentTest := ys\<rparr> else m\<lparr>sent := ys\<rparr>)
      in if length kept < (if test then perHourTest else perHour) then (Inr (), put (kept @ [now]))
         else (Inl ErrLimit, put kept))"
  by (simp add: reserve_def Let_def cut_loop_drop)

lemma net_step_cases:
  obtains fs where "net_step m = (True, m\<lparr>wire := fs\<rparr>)" | fs where "net_step m = (False, m\<lparr>wire := fs\<rparr>)"
proof (cases "wire m")
  case Nil
  then have "net_step m = (True, m\<lparr>wire := []\<rparr>)" by (simp add: net_step_def)
  then show ?thesis using that(1) by blast
next
  case (Cons f fs)
  then show ?thesis using that by (cases f) (simp_all add: net_step_def)
qed

lemma net_step_logs [simp]: "sent (snd (net_step m)) = sent m" "sentTest (snd (net_step m)) = sentTest m"
  by (rule net_step_cases [of m]; simp)+

text \<open>What the dialogue issued: all of it, or a prefix whose last command failed.\<close>

lemma smtp_talk_trace:
  "smtp_talk cs m = (r, m', tr) \<Longrightarrow>
     sent m' = sent m \<and> sentTest m' = sentTest m \<and>
     (r = Inr () \<and> tr = cs \<or> r = Inl ErrMail \<and> (\<exists>rest. cs = tr @ rest \<and> tr \<noteq> []))"
proof (induction cs arbitrary: m tr)
  case (Cons c cs)
  show ?case
  proof (rule net_step_cases [of m])
    fix fs assume n: "net_step m = (True, m\<lparr>wire := fs\<rparr>)"
    then obtain tr1 where conv: "smtp_talk cs (m\<lparr>wire := fs\<rparr>) = (r, m', tr1)" and "tr = c # tr1"
      using Cons.prems by (auto split: prod.splits)
    then show ?thesis using Cons.IH [OF conv] by auto
  next
    fix fs assume "net_step m = (False, m\<lparr>wire := fs\<rparr>)"
    then show ?thesis using Cons.prems by auto
  qed
qed simp

text \<open>Every attempt that reaches the network passed the quota, and the other way round.\<close>

lemma send_cases:
  obtains (unprepared) "send prepare test now m = (Inl ErrMail, m, [])"
    | (refused) m1 where "reserve test now m = (Inl ErrLimit, m1)" "send prepare test now m = (Inl ErrLimit, m1, [])"
    | (tried) sender msg m1 m2 r tr where "prepare (From m) = Some (sender, msg)" "reserve test now m = (Inr (), m1)"
        "send prepare test now m = (r, m2, tr)" "tr \<noteq> []"
        "sent m2 = sent m1" "sentTest m2 = sentTest m1"
        "r = Inr () \<and> tr = dialogue sender msg m @ [Quit] \<or>
         r = Inl ErrMail \<and> (\<exists>rest. dialogue sender msg m = tr @ rest)"
proof (cases "prepare (From m)")
  case None
  then show ?thesis using unprepared by (simp add: send_def)
next
  case (Some fm)
  obtain sender msg where fm: "fm = (sender, msg)" by (rule prod.exhaust)
  show ?thesis
  proof (cases "fst (reserve test now m)")
    case (Inl e)
    then have "reserve test now m = (Inl ErrLimit, snd (reserve test now m))"
      by (auto simp: reserve_eq Let_def split: if_splits)
    then show ?thesis using refused Some fm by (simp add: send_def)
  next
    case (Inr u)
    define m1 where "m1 = snd (reserve test now m)"
    have res: "reserve test now m = (Inr (), m1)" using Inr by (simp add: m1_def prod_eq_iff)
    have same: "dialogue sender msg m1 = dialogue sender msg m"
      using m1_def by (auto simp: dialogue_def reserve_eq Let_def)
    obtain r m2 tr where conv: "smtp_talk (dialogue sender msg m1) m1 = (r, m2, tr)" by (metis prod.exhaust)
    have sent: "sent m2 = sent m1" "sentTest m2 = sentTest m1"
      and out: "r = Inr () \<and> tr = dialogue sender msg m \<or>
        r = Inl ErrMail \<and> (\<exists>rest. dialogue sender msg m = tr @ rest \<and> tr \<noteq> [])"
      using smtp_talk_trace [OF conv] same by auto
    from out show ?thesis
    proof (elim disjE conjE)
      assume "r = Inr ()" "tr = dialogue sender msg m"
      then show ?thesis
        using sent Some fm res conv
        by (intro tried [of sender msg m1 "Inr ()" "snd (net_step m2)" "tr @ [Quit]"]) (simp_all add: send_def)
    next
      assume "r = Inl ErrMail" "\<exists>rest. dialogue sender msg m = tr @ rest \<and> tr \<noteq> []"
      then show ?thesis
        using sent Some fm res conv
        by (intro tried [of sender msg m1 "Inl ErrMail" m2 tr]) (auto simp: send_def)
    qed
  qed
qed

definition attempt :: "(string \<Rightarrow> (string \<times> string) option) \<Rightarrow> bool \<Rightarrow> time \<Rightarrow> Mailer \<Rightarrow> bool \<times> Mailer" where
  "attempt prepare test now m = (case send prepare test now m of (r, m', tr) \<Rightarrow> (tr \<noteq> [], m'))"

lemma attempt_counted:
  assumes "attempt prepare test now m = (g, m')"
  shows "\<not> g \<and> m' = m \<or>
      (let xs = (if test then sentTest m else sent m); xs' = (if test then sentTest m' else sent m');
           kept = dropWhile (\<lambda>t. t \<le> now - hourDur) xs
       in if length kept < (if test then perHourTest else perHour) then g \<and> xs' = kept @ [now] else \<not> g \<and> xs' = kept)"
  using assms
  by (cases rule: send_cases [of prepare test now m])
    (auto simp: attempt_def reserve_eq Let_def split: if_splits)

lemma attempt_other:
  "sent (snd (attempt prepare True now m)) = sent m"
  "sentTest (snd (attempt prepare False now m)) = sentTest m"
  by (cases rule: send_cases [of prepare True now m]; auto simp: attempt_def reserve_eq Let_def split: if_splits)
    (cases rule: send_cases [of prepare False now m]; auto simp: attempt_def reserve_eq Let_def split: if_splits)

interpretation alerts: mail_quota "attempt prepare" "\<lambda>test. \<not> test" sent perHour for prepare
proof
  fix a now m g m'
  assume "\<not> a" and "attempt prepare a now m = (g, m')"
  then show "\<not> g \<and> sent m' = sent m \<or>
      (let kept = dropWhile (\<lambda>t. t \<le> now - hourDur) (sent m)
       in if length kept < perHour then g \<and> sent m' = kept @ [now] else \<not> g \<and> sent m' = kept)"
    using attempt_counted [of prepare False now m g m'] by (auto simp: Let_def split: if_splits)
qed (simp add: attempt_other)

interpretation tests: mail_quota "attempt prepare" "\<lambda>test. test" sentTest perHourTest for prepare
proof
  fix a now m g m'
  assume a and "attempt prepare a now m = (g, m')"
  then show "\<not> g \<and> sentTest m' = sentTest m \<or>
      (let kept = dropWhile (\<lambda>t. t \<le> now - hourDur) (sentTest m)
       in if length kept < perHourTest then g \<and> sentTest m' = kept @ [now] else \<not> g \<and> sentTest m' = kept)"
    using attempt_counted [of prepare True now m g m'] by (auto simp: Let_def split: if_splits)
qed (simp add: attempt_other)

text \<open>The times at which a sequence of calls reached the network with a mail of one kind.\<close>

fun attempt_times ::
    "(string \<Rightarrow> (string \<times> string) option) \<Rightarrow> bool \<Rightarrow> (bool \<times> time) list \<Rightarrow> Mailer \<Rightarrow> time list" where
  "attempt_times prepare kind [] m = []"
| "attempt_times prepare kind ((test, now) # cs) m =
     (case send prepare test now m of
        (r, m', tr) \<Rightarrow> (if test = kind \<and> tr \<noteq> [] then [now] else []) @ attempt_times prepare kind cs m')"

lemma attempt_times_granted:
  "attempt_times prepare False cs m = alerts.granted prepare cs m"
  "attempt_times prepare True cs m = tests.granted prepare cs m"
  by (induction cs arbitrary: m) (auto simp: attempt_def split: prod.splits)

text \<open>C9: However calls for alert mails and test mails interleave, in every window of one hour at
  most 20 alert mails and at most 3 test mails reach the network.\<close>

theorem mail_limits:
  assumes "sorted (map snd cs)" and "sent m = []" and "sentTest m = []"
  shows "length (filter (\<lambda>u. t - hourDur < u \<and> u \<le> t) (attempt_times prepare False cs m)) \<le> 20 \<and>
    length (filter (\<lambda>u. t - hourDur < u \<and> u \<le> t) (attempt_times prepare True cs m)) \<le> 3"
  using alerts.quota [of m cs t prepare] tests.quota [of m cs t prepare] assms
  by (simp add: attempt_times_granted alerts.in_hour_def tests.in_hour_def perHour_def perHourTest_def)

definition sample_mailer :: Mailer where
  "sample_mailer = \<lparr>Host = ''mx'', Port = 465, User = ''u'', Pass = ''p'', From = ''a@b'', To = [''c@d''],
     BaseURL = [], sent = [], sentTest = [], wire = []\<rparr>"

theorem mail_limits_witness:
  "length (attempt_times (\<lambda>a. Some (a, [])) True [(True, 1), (True, 2), (False, 3), (True, 4), (True, 5)] sample_mailer) = 3 \<and>
   length (filter (\<lambda>u. 9 - hourDur < u \<and> u \<le> 9)
     (attempt_times (\<lambda>a. Some (a, [])) True [(True, 1), (True, 2), (False, 3), (True, 4), (True, 5)] sample_mailer)) \<le> 3"
proof
  show "length (attempt_times (\<lambda>a. Some (a, [])) True [(True, 1), (True, 2), (False, 3), (True, 4), (True, 5)] sample_mailer) = 3"
    by code_simp
  show "length (filter (\<lambda>u. 9 - hourDur < u \<and> u \<le> 9)
     (attempt_times (\<lambda>a. Some (a, [])) True [(True, 1), (True, 2), (False, 3), (True, 4), (True, 5)] sample_mailer)) \<le> 3"
    using mail_limits [of "[(True, 1), (True, 2), (False, 3), (True, 4), (True, 5)]" sample_mailer 9 "\<lambda>a. Some (a, [])"]
    by (simp add: sample_mailer_def)
qed

lemma smtp_talk_result:
  "fst (smtp_talk cs m) = (if True \<in> set (take (length cs) (wire m)) then Inl ErrMail else Inr ())"
proof (induction cs arbitrary: m)
  case (Cons c cs)
  show ?case
  proof (cases "wire m")
    case Nil
    have "fst (smtp_talk cs m) = Inr ()" using Cons.IH [of m] Nil by simp
    then show ?thesis using Nil by (auto simp: net_step_def split: prod.splits)
  next
    case (Cons f fs)
    have "fst (smtp_talk cs (m\<lparr>wire := fs\<rparr>)) = (if True \<in> set (take (length cs) fs) then Inl ErrMail else Inr ())"
      using Cons.IH [of "m\<lparr>wire := fs\<rparr>"] by simp
    then show ?thesis using Cons by (auto simp: net_step_def split: prod.splits bool.splits)
  qed
qed simp



end
