(* ===== verification/Monitor.thy ===== *)
theory Monitor
  imports Incident_State Store_Incidents Store_Sessions Store_Rollup Mailer
begin

text \<open>
  The manager of \<^verbatim>\<open>internal/monitor/scheduler.go\<close> and \<^verbatim>\<open>maintenance.go\<close>. A runner (one goroutine
  per target) moves through phases: it restores its state, waits in the \<^verbatim>\<open>select\<close>, queues for one
  of the eight slots of \<^verbatim>\<open>sem\<close>, has a check in flight and, when the check returns, does the
  rest of its round. The function field \<^verbatim>\<open>mail\<close> is the argument \<open>mail\<close>, a function on the mail
  system's state \<open>m_world\<close> that may fail (\<open>None\<close> for the \<^verbatim>\<open>nil\<close> field); the result of \<^verbatim>\<open>check\<close> is an
  argument of the step that ends a check. \<^verbatim>\<open>m.now\<close> and the store's clock are the argument \<open>now\<close>.
\<close>

section \<open>State\<close>

definition maxParallel :: nat where "maxParallel = 8"
definition checkNowGap :: duration where "checkNowGap = 10 * second"
definition retryWindow :: duration where "retryWindow = 24 * hourDur"

record Stat =
  stat_Checked :: bool
  stat_OK :: bool
  stat_LatencyMs :: int
  stat_At :: time
  stat_ChecksOK :: "64 word"
  stat_ChecksFail :: "64 word"

datatype phase = Starting | Waiting | Queued | Checking time | Exited

record runner =
  r_target :: Target
  r_state :: state
  r_phase :: phase
  r_nudged :: time

type_synonym mailKey = "int \<times> bool"

record 'w Manager =
  m_store :: db
  m_world :: 'w
  m_pending :: "mailKey \<rightharpoonup> bool"
  m_done :: bool
  m_sem :: nat
  m_runners :: "int \<rightharpoonup> runner"
  m_stats :: "int \<rightharpoonup> Stat"

type_synonym 'w mail_fn = "time \<Rightarrow> Incident \<Rightarrow> 'w \<Rightarrow> (mail_err + unit) \<times> 'w"

definition on_store :: "(db \<Rightarrow> 'a result \<times> db) \<Rightarrow> 'w Manager \<Rightarrow> 'a result \<times> 'w Manager" where
  "on_store q m = (case q (m_store m) of (r, d) \<Rightarrow> (r, m\<lparr>m_store := d\<rparr>))"

definition New :: "db \<Rightarrow> 'w \<Rightarrow> 'w Manager" where
  "New d w = \<lparr>m_store = d, m_world = w, m_pending = Map.empty, m_done = False, m_sem = 0,
     m_runners = Map.empty, m_stats = Map.empty\<rparr>"

section \<open>A round\<close>

definition record_stat :: "int \<Rightarrow> time \<Rightarrow> Result \<Rightarrow> 'w Manager \<Rightarrow> 'w Manager" where
  "record_stat i t res m =
     (let s = (case m_stats m i of
                 Some s \<Rightarrow> s
               | None \<Rightarrow> \<lparr>stat_Checked = False, stat_OK = False, stat_LatencyMs = 0, stat_At = zeroTime,
                           stat_ChecksOK = 0, stat_ChecksFail = 0\<rparr>);
          s1 = s\<lparr>stat_Checked := True, stat_OK := res_OK res, stat_LatencyMs := res_LatencyMs res, stat_At := t\<rparr>;
          s2 = (if res_OK res then s1\<lparr>stat_ChecksOK := stat_ChecksOK s1 + 1\<rparr>
                else s1\<lparr>stat_ChecksFail := stat_ChecksFail s1 + 1\<rparr>)
      in m\<lparr>m_stats := (m_stats m)(i \<mapsto> s2)\<rparr>)"

definition notify :: "'w mail_fn option \<Rightarrow> time \<Rightarrow> Incident \<Rightarrow> 'w Manager \<Rightarrow> (mail_err + unit) \<times> 'w Manager" where
  "notify mail now inc m =
     (case mail of
        None \<Rightarrow> (Inr (), m)
      | Some f \<Rightarrow>
          (case f now inc (m_world m) of
             (Inl e, w) \<Rightarrow> (Inl e, m\<lparr>m_world := w\<rparr>)
           | (Inr _, w) \<Rightarrow>
               (Inr (), snd (on_store (MarkMailed (inc_ID inc) (\<not> incident_Open inc)) (m\<lparr>m_world := w\<rparr>)))))"

definition round_down :: "'w mail_fn option \<Rightarrow> time \<Rightarrow> Target \<Rightarrow> state \<Rightarrow> 'w Manager \<Rightarrow> state \<times> 'w Manager" where
  "round_down mail now t nst m =
     (case on_store (OpenIncident (ID t) (startedAt nst) (cause nst)) m of
        (Inr n, m1) \<Rightarrow>
          (nst\<lparr>incident := n\<rparr>,
           snd (notify mail now \<lparr>inc_ID = n, inc_TargetID = ID t, inc_TargetName = Name t,
             inc_StartedAt = startedAt nst, inc_EndedAt = zeroTime, inc_Cause = cause nst,
             inc_MailedDown = False, inc_MailedUp = False\<rparr> m1))
      | (Inl e, m1) \<Rightarrow>
          if e = ErrIncidentOpen
          then (case on_store (OpenIncidentFor (ID t)) m1 of
                  (Inr inc, m2) \<Rightarrow> (nst\<lparr>startedAt := inc_StartedAt inc, incident := inc_ID inc\<rparr>, m2)
                | (Inl _, m2) \<Rightarrow> (nst\<lparr>isOpen := False\<rparr>, m2))
          else (nst\<lparr>isOpen := False\<rparr>, m1))"

definition round_up ::
    "'w mail_fn option \<Rightarrow> time \<Rightarrow> Target \<Rightarrow> state \<Rightarrow> time \<Rightarrow> state \<Rightarrow> 'w Manager \<Rightarrow> state \<times> 'w Manager" where
  "round_up mail now t st att nst m =
     (case on_store (CloseIncident (incident st) att) m of
        (r, m1) \<Rightarrow>
          if r \<noteq> Inr () \<and> r \<noteq> Inl ErrNotFound then (nst\<lparr>isOpen := True\<rparr>, m1)
          else (nst, snd (notify mail now \<lparr>inc_ID = incident st, inc_TargetID = ID t, inc_TargetName = Name t,
             inc_StartedAt = startedAt st, inc_EndedAt = att, inc_Cause = [],
             inc_MailedDown = False, inc_MailedUp = False\<rparr> m1)))"

text \<open>The part of \<^verbatim>\<open>round\<close> behind the check: it returned \<open>res\<close>, was started at \<open>att\<close>, and the
  context is not cancelled.\<close>

definition round_end ::
    "'w mail_fn option \<Rightarrow> time \<Rightarrow> Target \<Rightarrow> time \<Rightarrow> Result \<Rightarrow> state \<Rightarrow> 'w Manager \<Rightarrow> state \<times> 'w Manager" where
  "round_end mail now t att res st m =
     (let m1 = record_stat (ID t) att res m;
          m2 = snd (on_store (InsertCheck (ID t) att res) m1);
          (nst, ev) = next_state st (res_OK res) (res_Err res) att (FailThreshold t)
      in (case ev of
            EvDown \<Rightarrow> round_down mail now t nst m2
          | EvUp \<Rightarrow> round_up mail now t st att nst m2
          | EvNone \<Rightarrow> (nst, m2)))"

section \<open>Restoring a runner's state\<close>

fun restore_streak :: "time \<Rightarrow> Check list \<Rightarrow> state \<Rightarrow> state" where
  "restore_streak fin [] st = st"
| "restore_streak fin (c # cs) st =
     (if res_OK (chk_Result c) \<or> \<not> fin < chk_At c then st
      else restore_streak fin cs (st\<lparr>fails := fails st + 1, firstFail := chk_At c,
             cause := (if cause st = [] then res_Err (chk_Result c) else cause st)\<rparr>))"

text \<open>The gauge of a target that was not checked yet shows its newest stored check.\<close>

definition seed_stat :: "int \<Rightarrow> Check list \<Rightarrow> 'w Manager \<Rightarrow> 'w Manager" where
  "seed_stat i lst m =
     (case lst of
        [] \<Rightarrow> m
      | c # _ \<Rightarrow>
          if m_stats m i = None
          then m\<lparr>m_stats := (m_stats m)(i \<mapsto>
                 \<lparr>stat_Checked = True, stat_OK = res_OK (chk_Result c),
                  stat_LatencyMs = res_LatencyMs (chk_Result c), stat_At = chk_At c,
                  stat_ChecksOK = 0, stat_ChecksFail = 0\<rparr>)\<rparr>
          else m)"

definition restore :: "Target \<Rightarrow> 'w Manager \<Rightarrow> state \<times> 'w Manager" where
  "restore t m =
     (case on_store (OpenIncidentFor (ID t)) m of (r1, m1) \<Rightarrow>
      case on_store (LastIncidentEnd (ID t)) m1 of (r2, m2) \<Rightarrow>
      case on_store (LastChecks (ID t) (FailThreshold t)) m2 of (r3, m3) \<Rightarrow>
      let st = (case r1 of
                  Inr inc \<Rightarrow> init_state\<lparr>isOpen := True, startedAt := inc_StartedAt inc, incident := inc_ID inc\<rparr>
                | Inl _ \<Rightarrow> init_state);
          fin = (case r2 of Inr e \<Rightarrow> e | Inl _ \<Rightarrow> zeroTime);
          lst = (case r3 of Inr cs \<Rightarrow> cs | Inl _ \<Rightarrow> [])
      in (restore_streak fin lst st, seed_stat (ID t) lst m3))"

section \<open>Starting and stopping runners\<close>

definition start :: "Target \<Rightarrow> 'w Manager \<Rightarrow> 'w Manager" where
  "start t m = m\<lparr>m_runners := (m_runners m)(ID t \<mapsto>
     \<lparr>r_target = t, r_state = init_state, r_phase = Starting, r_nudged = zeroTime\<rparr>)\<rparr>"

text \<open>Leaving a check gives its slot back.\<close>

definition release :: "runner \<Rightarrow> 'w Manager \<Rightarrow> 'w Manager" where
  "release r m = (case r_phase r of Checking _ \<Rightarrow> m\<lparr>m_sem := m_sem m - 1\<rparr> | _ \<Rightarrow> m)"

text \<open>Cancel the runner and wait until it is done: a check in flight is given up.\<close>

definition stop :: "int \<Rightarrow> 'w Manager \<Rightarrow> 'w Manager" where
  "stop i m = (case m_runners m i of
     None \<Rightarrow> m
   | Some r \<Rightarrow> release r (m\<lparr>m_runners := (m_runners m)(i := None)\<rparr>))"

definition Start :: "'w Manager \<Rightarrow> unit result \<times> 'w Manager" where
  "Start m = (case on_store StoreTargets m of
     (Inl e, m1) \<Rightarrow> (Inl e, m1)
   | (Inr ts, m1) \<Rightarrow> (Inr (), fold start (filter (\<lambda>t. \<not> Paused t) ts) m1))"

definition Reload :: "time \<Rightarrow> int \<Rightarrow> 'w Manager \<Rightarrow> unit result \<times> 'w Manager" where
  "Reload now i m =
     (case on_store (StoreTarget i) (stop i m) of
        (Inl e, m1) \<Rightarrow> (Inl e, m1)
      | (Inr t, m1) \<Rightarrow>
          if Paused t then on_store (ClosePausedIncident now i) m1
          else (Inr (), if \<not> m_done m1 then start t m1 else m1))"

definition Delete :: "int \<Rightarrow> 'w Manager \<Rightarrow> unit result \<times> 'w Manager" where
  "Delete i m =
     (case on_store (DeleteTarget i) (stop i m) of
        (Inl e, m1) \<Rightarrow>
          (Inl e,
           if e \<noteq> ErrNotFound
           then (case on_store (StoreTarget i) m1 of
                   (Inl _, m2) \<Rightarrow> m2
                 | (Inr t, m2) \<Rightarrow> if \<not> Paused t \<and> \<not> m_done m2 then start t m2 else m2)
           else m1)
      | (Inr _, m1) \<Rightarrow> (Inr (), m1\<lparr>m_stats := (m_stats m1)(i := None)\<rparr>))"

text \<open>The unbuffered channel takes the nudge only while the runner waits for it.\<close>

definition CheckNow :: "time \<Rightarrow> int \<Rightarrow> 'w Manager \<Rightarrow> bool \<times> 'w Manager" where
  "CheckNow now i m =
     (case m_runners m i of
        None \<Rightarrow> (False, m)
      | Some r \<Rightarrow>
          if \<not> isZero (r_nudged r) \<and> subTime now (r_nudged r) < checkNowGap then (False, m)
          else if r_phase r = Waiting
          then (True, m\<lparr>m_runners := (m_runners m)(i \<mapsto> r\<lparr>r_phase := Queued, r_nudged := now\<rparr>)\<rparr>)
          else (True, m))"

definition Snapshot :: "'w Manager \<Rightarrow> int \<rightharpoonup> Stat" where "Snapshot m = m_stats m"

section \<open>Maintenance\<close>

definition rollup :: "time \<Rightarrow> 'w Manager \<Rightarrow> 'w Manager" where
  "rollup now m = snd (on_store (Rollup now) m)"

definition cleanup :: "time \<Rightarrow> int \<Rightarrow> 'w Manager \<Rightarrow> 'w Manager" where
  "cleanup now days m =
     snd (on_store (DeleteExpiredDevices now) (snd (on_store (DeleteExpiredSessions now)
       (snd (on_store (Prune now days) m)))))"

fun retry_loop ::
    "'w mail_fn option \<Rightarrow> time \<Rightarrow> Incident list \<Rightarrow> (mailKey \<rightharpoonup> bool) \<Rightarrow> 'w Manager \<Rightarrow> (mailKey \<rightharpoonup> bool) \<times> 'w Manager" where
  "retry_loop mail now [] pending m = (pending, m)"
| "retry_loop mail now (inc # incs) pending m =
     (if \<not> incident_Open inc \<and> inc_MailedUp inc then retry_loop mail now incs pending m
      else let k = (inc_ID inc, \<not> incident_Open inc)
           in (case m_pending m k of
                 Some False \<Rightarrow>
                   (case notify mail now inc m of
                      (r, m1) \<Rightarrow> retry_loop mail now incs (pending(k \<mapsto> r \<noteq> Inl ErrLimit)) m1)
               | Some True \<Rightarrow> retry_loop mail now incs (pending(k \<mapsto> True)) m
               | None \<Rightarrow> retry_loop mail now incs (pending(k \<mapsto> False)) m))"

definition retry :: "'w mail_fn option \<Rightarrow> time \<Rightarrow> 'w Manager \<Rightarrow> 'w Manager" where
  "retry mail now m =
     (case mail of
        None \<Rightarrow> m
      | Some _ \<Rightarrow>
          (case on_store (UnmailedIncidents (addTime now (- retryWindow))) m of
             (Inl _, m1) \<Rightarrow> m1
           | (Inr incs, m1) \<Rightarrow>
               (case retry_loop mail now incs Map.empty m1 of
                  (pending, m2) \<Rightarrow> m2\<lparr>m_pending := pending\<rparr>)))"

section \<open>The runners' steps\<close>

text \<open>What one goroutine does between two blocking points: it restores its state; the timer
  fires; it gets a slot and starts a check; the check returns; it sees the cancelled context.
  Each takes the runner as it is registered under its target's number.\<close>

definition set_runner :: "int \<Rightarrow> runner \<Rightarrow> 'w Manager \<Rightarrow> 'w Manager" where
  "set_runner i r m = m\<lparr>m_runners := (m_runners m)(i \<mapsto> r)\<rparr>"

definition run_restore :: "int \<Rightarrow> runner \<Rightarrow> 'w Manager \<Rightarrow> 'w Manager" where
  "run_restore i r m =
     (case restore (r_target r) m of (st, m1) \<Rightarrow> set_runner i (r\<lparr>r_state := st, r_phase := Waiting\<rparr>) m1)"

definition run_tick :: "int \<Rightarrow> runner \<Rightarrow> 'w Manager \<Rightarrow> 'w Manager" where
  "run_tick i r m = set_runner i (r\<lparr>r_phase := Queued\<rparr>) m"

definition round_begin :: "int \<Rightarrow> time \<Rightarrow> runner \<Rightarrow> 'w Manager \<Rightarrow> 'w Manager" where
  "round_begin i att r m = set_runner i (r\<lparr>r_phase := Checking att\<rparr>) (m\<lparr>m_sem := m_sem m + 1\<rparr>)"

definition round_return ::
    "'w mail_fn option \<Rightarrow> int \<Rightarrow> time \<Rightarrow> time \<Rightarrow> Result \<Rightarrow> runner \<Rightarrow> 'w Manager \<Rightarrow> 'w Manager" where
  "round_return mail i now att res r m =
     (let m1 = m\<lparr>m_sem := m_sem m - 1\<rparr>
      in if m_done m1 then set_runner i (r\<lparr>r_phase := Waiting\<rparr>) m1
         else (case round_end mail now (r_target r) att res (r_state r) m1 of
                 (st, m2) \<Rightarrow> set_runner i (r\<lparr>r_state := st, r_phase := Waiting\<rparr>) m2))"

definition run_exit :: "int \<Rightarrow> runner \<Rightarrow> 'w Manager \<Rightarrow> 'w Manager" where
  "run_exit i r m = set_runner i (r\<lparr>r_phase := Exited\<rparr>) m"

text \<open>Every interleaving of the runners, the manager's operations, the maintenance loop and the
  web server's writes.\<close>

inductive mstep :: "'w mail_fn option \<Rightarrow> 'w Manager \<Rightarrow> 'w Manager \<Rightarrow> bool" for mail where
  restored: "m_runners m i = Some r \<Longrightarrow> r_phase r = Starting \<Longrightarrow> mstep mail m (run_restore i r m)"
| ticked: "m_runners m i = Some r \<Longrightarrow> r_phase r = Waiting \<Longrightarrow> mstep mail m (run_tick i r m)"
| began: "m_runners m i = Some r \<Longrightarrow> r_phase r = Queued \<Longrightarrow> m_sem m < maxParallel \<Longrightarrow>
    mstep mail m (round_begin i att r m)"
| returned: "m_runners m i = Some r \<Longrightarrow> r_phase r = Checking att \<Longrightarrow>
    mstep mail m (round_return mail i now att res r m)"
| exited: "m_done m \<Longrightarrow> m_runners m i = Some r \<Longrightarrow> r_phase r \<in> {Waiting, Queued} \<Longrightarrow>
    mstep mail m (run_exit i r m)"
| nudged: "mstep mail m (snd (CheckNow now i m))"
| started: "m_runners m = Map.empty \<Longrightarrow> mstep mail m (snd (Start m))"
| reloaded: "mstep mail m (snd (Reload now i m))"
| deleted: "mstep mail m (snd (Delete i m))"
| cancelled: "mstep mail m (m\<lparr>m_done := True\<rparr>)"
| rolled: "mstep mail m (rollup now m)"
| cleaned: "mstep mail m (cleanup now days m)"
| retried: "mstep mail m (retry mail now m)"
| created: "mstep mail m (snd (on_store (CreateTarget now (t :: Target)) m))"
| updated: "mstep mail m (snd (on_store (UpdateTarget now (t :: Target)) m))"
| paused: "mstep mail m (snd (on_store (SetPaused now i b) m))"
| session_written: "mstep mail m (m\<lparr>m_store := snd (session_step ht op (m_store m))\<rparr>)"
| device_written: "mstep mail m (snd (on_store (CreateDevice ht token now) m))"

inductive reachable :: "'w mail_fn option \<Rightarrow> 'w Manager \<Rightarrow> bool" for mail where
  init: "db_ok d \<Longrightarrow> reachable mail (New d w)"
| step: "reachable mail m \<Longrightarrow> mstep mail m m' \<Longrightarrow> reachable mail m'"

end
