(* ===== verification/Monitor_Inv.thy ===== *)
theory Monitor_Inv
  imports Monitor
begin

text \<open>
  The manager's invariant: whatever the runners, the operations, the maintenance and the web
  server do in whatever order, and whichever driver calls and mails fail, a runner that
  believes its target is down names the one incident of that target that is open in the store,
  and no more than eight checks are in flight.
\<close>

section \<open>Store operations that leave the incident log alone\<close>

definition quiet :: "(db \<Rightarrow> 'a result \<times> db) \<Rightarrow> bool" where
  "quiet q \<longleftrightarrow> (\<forall>d. db_ok d \<longrightarrow> db_ok (snd (q d)) \<and> current (snd (q d)) = current d)"

lemma quietI: "(\<And>d. db_ok d \<Longrightarrow> db_ok (snd (q d))) \<Longrightarrow> (\<And>d. incidents (snd (q d)) = incidents d) \<Longrightarrow> quiet q"
  by (simp add: quiet_def current_def)

lemma quietD: "quiet q \<Longrightarrow> db_ok d \<Longrightarrow> q d = (r, d') \<Longrightarrow> db_ok d' \<and> current d' = current d"
  unfolding quiet_def by (metis snd_conv)

lemma quiet_reads: "reads q \<Longrightarrow> quiet q"
  by (simp add: quiet_def reads_db_ok current_reads)

lemma incidents_exec: "(\<And>d. incidents (snd (stmt d)) = incidents d) \<Longrightarrow> incidents (snd (exec stmt d)) = incidents d"
  by (cases rule: exec_cases [of stmt d]) simp_all

interpretation same_incidents: table_property "\<lambda>d. incidents d = rows" for rows
  by unfold_locales simp

lemma write_hours_incidents: "incidents (snd (write_hours bs d)) = incidents d"
proof (induction bs arbitrary: d)
  case (Cons b bs)
  obtain k st where b: "b = (k, st)" by (rule prod.exhaust)
  have "incidents (snd (put_hour x d)) = incidents d" for x d
    unfolding put_hour_def by (rule incidents_exec) simp
  then show ?case unfolding b write_hours_Cons
    by (intro same_incidents.and_then_keeps) (auto simp: Cons.IH)
qed simp

lemma Rollup_incidents: "incidents (snd (Rollup now d)) = incidents d"
  unfolding Rollup_def Let_def
  by (rule same_incidents.transact_keeps, rule same_incidents.and_then_keeps, rule same_incidents.exec_keeps)
    (simp_all add: write_hours_incidents)

lemma open_of_delete_ended:
  "(\<And>i. p i \<Longrightarrow> i_ended i \<noteq> None) \<Longrightarrow> open_of (delete_where p rs) = open_of rs"
  unfolding open_of_def
proof
  fix t assume "\<And>i. p i \<Longrightarrow> i_ended i \<noteq> None"
  then have "\<not> p i" if "open_at t i" for i using that by (metis open_at_def)
  then have "find (open_at t) (delete_where p rs) = find (open_at t) rs"
    by (induction rs) (auto simp: delete_where_simps)
  then show "map_option i_id (find (open_at t) (delete_where p rs)) = map_option i_id (find (open_at t) rs)" by simp
qed

interpretation same_log: table_property "\<lambda>d. current d = c" for c
  by unfold_locales simp

lemma Prune_current: "current (snd (Prune now days d)) = current d"
  unfolding Prune_def Let_def
  by (intro same_log.and_then_keeps same_log.exec_keeps)
    (auto simp: current_def open_of_delete_ended split: option.splits)

lemma session_step_keeps: "db_ok d \<Longrightarrow> db_ok (snd (session_step ht op d))"
  by (cases op) (simp_all add: Let_def CreateSession_keeps TouchSession_keeps DeleteSession_keeps
      DeleteExpiredSessions_keeps SetAdmin_keeps)

lemma SetAdmin_incidents: "incidents (snd (SetAdmin now u pw d)) = incidents d"
  by (cases rule: SetAdmin_cases [of now u pw d]) simp_all

lemma session_step_incidents: "incidents (snd (session_step ht op d)) = incidents d"
  by (cases op)
    (simp_all add: Let_def SetAdmin_incidents CreateSession_def TouchSession_def DeleteSession_def
      DeleteExpiredSessions_def incidents_exec split: option.splits)

lemma writes_incidents:
  "incidents (snd (InsertCheck i t r d)) = incidents d"
  "incidents (snd (DeleteExpiredSessions now d)) = incidents d"
  "incidents (snd (DeleteExpiredDevices now d)) = incidents d"
  "incidents (snd (CreateTarget now g d)) = incidents d"
  "incidents (snd (UpdateTarget now g d)) = incidents d"
  "incidents (snd (SetPaused now i b d)) = incidents d"
  "incidents (snd (CreateDevice ht token now d)) = incidents d"
  by (simp_all add: incidents_exec InsertCheck_def DeleteExpiredSessions_def
      DeleteExpiredDevices_def CreateTarget_def UpdateTarget_def SetPaused_def CreateDevice_def Let_def)

lemma quiet_writes [simp]:
  "quiet (InsertCheck i t r)" "quiet (Rollup now)" "quiet (DeleteExpiredSessions now)"
  "quiet (DeleteExpiredDevices now)" "quiet (CreateTarget now g)" "quiet (UpdateTarget now g)"
  "quiet (SetPaused now i b)" "quiet (CreateDevice ht token now)"
  by (simp_all add: quiet_def current_def writes_incidents Rollup_incidents InsertCheck_keeps Rollup_keeps
      DeleteExpiredSessions_keeps DeleteExpiredDevices_keeps CreateTarget_keeps UpdateTarget_keeps
      SetPaused_keeps CreateDevice_keeps)

lemma quiet_incident_writes [simp]: "quiet (MarkMailed n up)" "quiet (Prune now days)"
  by (simp_all add: quiet_def MarkMailed_keeps Prune_keeps Prune_current)

lemma DeleteTarget_current: "j \<noteq> i \<Longrightarrow> current (snd (DeleteTarget i d)) j = current d j"
proof -
  assume "j \<noteq> i"
  then have "find (open_at j) (delete_where (\<lambda>r. i_target r = i) rs) = find (open_at j) rs" for rs
    by (induction rs) (auto simp: delete_where_simps open_at_def)
  then show ?thesis
    unfolding DeleteTarget_def by (rule_tac exec_rule) (simp_all add: current_def open_of_def)
qed

lemma OpenIncidentFor_current:
  assumes "OpenIncidentFor i d = (Inr inc, d')" and "db_ok d"
  shows "current d i = Some (inc_ID inc)"
proof -
  have "\<forall>d'. OpenIncidentFor i d = (Inr inc, d') \<longrightarrow> (\<exists>row \<in> set (incidents d). open_at i row \<and> i_id row = inc_ID inc)"
    unfolding OpenIncidentFor_def
    by (rule exec_rule) (auto split: option.splits dest!: find_Some_mem simp: incidentSelect_def scanIncident_def)
  then show ?thesis
    using assms open_of_Some [OF db_okD(10) [OF assms(2)], of i "inc_ID inc"] by (simp add: current_def)
qed

lemma OpenIncidentFor_reads [simp]: "reads (OpenIncidentFor i)" "reads (LastIncidentEnd i)" "reads (UnmailedIncidents s)"
  unfolding OpenIncidentFor_def LastIncidentEnd_def UnmailedIncidents_def
  by (rule reads_exec, simp split: option.split list.split)+

section \<open>One round\<close>

text \<open>What the store operations and mails of a round leave alone.\<close>

definition same_control :: "'w Manager \<Rightarrow> 'w Manager \<Rightarrow> bool" where
  "same_control m m' \<longleftrightarrow> m_runners m' = m_runners m \<and> m_sem m' = m_sem m \<and> m_done m' = m_done m \<and>
     m_pending m' = m_pending m"

lemma same_control_refl [simp]: "same_control m m"
  by (simp add: same_control_def)

lemma same_control_trans: "same_control a b \<Longrightarrow> same_control b c \<Longrightarrow> same_control a c"
  by (simp add: same_control_def)

text \<open>A step of the manager that keeps the schema and the incident log.\<close>

definition silent :: "'w Manager \<Rightarrow> 'w Manager \<Rightarrow> bool" where
  "silent m m' \<longleftrightarrow> same_control m m' \<and>
     (db_ok (m_store m) \<longrightarrow> db_ok (m_store m') \<and> current (m_store m') = current (m_store m))"

lemma silent_refl [simp]: "silent m m"
  by (simp add: silent_def)

lemma silent_trans: "silent a b \<Longrightarrow> silent b c \<Longrightarrow> silent a c"
  unfolding silent_def by (metis same_control_trans)

lemma on_store_silent: "quiet q \<Longrightarrow> silent m (snd (on_store q m))"
  by (auto simp: silent_def same_control_def on_store_def quiet_def split: prod.split)

lemma on_store_eq: "on_store q m = (r, m') \<longleftrightarrow> (\<exists>d. q (m_store m) = (r, d) \<and> m' = m\<lparr>m_store := d\<rparr>)"
  by (auto simp: on_store_def split: prod.splits)

lemma record_stat_silent [simp]: "silent m (record_stat i t res m)"
  by (simp add: silent_def same_control_def record_stat_def Let_def)

lemma notify_silent: "silent m (snd (notify mail now inc m))"
proof (cases mail)
  case (Some f)
  obtain r w where f: "f now inc (m_world m) = (r, w)" by (rule prod.exhaust)
  have "silent m (m\<lparr>m_world := w\<rparr>)" by (simp add: silent_def same_control_def)
  then show ?thesis
    using Some f silent_trans [OF _ on_store_silent [of "MarkMailed (inc_ID inc) (\<not> incident_Open inc)" "m\<lparr>m_world := w\<rparr>"]]
    by (cases r) (simp_all add: notify_def)
qed (simp add: notify_def)

definition backed :: "db \<Rightarrow> int \<Rightarrow> state \<Rightarrow> bool" where
  "backed d i st \<longleftrightarrow> (isOpen st \<longrightarrow> current d i = Some (incident st))"

text \<open>What a round of target \<open>i\<close> may change.\<close>

definition round_of :: "int \<Rightarrow> 'w Manager \<Rightarrow> 'w Manager \<Rightarrow> bool" where
  "round_of i m m' \<longleftrightarrow> same_control m m' \<and> db_ok (m_store m') \<and>
     (\<forall>j. j \<noteq> i \<longrightarrow> current (m_store m') j = current (m_store m) j)"

lemma silent_round: "silent m m' \<Longrightarrow> db_ok (m_store m) \<Longrightarrow> round_of i m m' \<and> current (m_store m') = current (m_store m)"
  by (simp add: silent_def round_of_def)

lemma round_silent: "round_of i m m' \<Longrightarrow> silent m' m'' \<Longrightarrow> round_of i m m'' \<and> current (m_store m'') = current (m_store m')"
  by (auto simp: silent_def round_of_def intro: same_control_trans)

lemma round_down_backed:
  assumes "round_down mail now t nst m = (st', m')" and ok: "db_ok (m_store m)"
  shows "round_of (ID t) m m' \<and> backed (m_store m') (ID t) st'"
proof -
  obtain r m1 where op: "on_store (OpenIncident (ID t) (startedAt nst) (cause nst)) m = (r, m1)"
    by (rule prod.exhaust)
  then obtain d1 where d1: "OpenIncident (ID t) (startedAt nst) (cause nst) (m_store m) = (r, d1)" "m1 = m\<lparr>m_store := d1\<rparr>"
    by (auto simp: on_store_eq)
  have ok1: "db_ok (m_store m1)"
    using log.inv_opn [OF ok, of "ID t" "startedAt nst" "cause nst"] d1 by simp
  have sc: "same_control m m1" using d1 by (simp add: same_control_def)
  show ?thesis
  proof (cases r)
    case (Inr n)
    then have cur: "current (m_store m1) = (current (m_store m))(ID t \<mapsto> n)"
      using log.opened [OF ok] d1 by auto
    then have "round_of (ID t) m m1" using sc ok1 by (simp add: round_of_def)
    from round_silent [OF this notify_silent] show ?thesis
      using assms(1) op Inr cur by (auto simp: round_down_def backed_def)
  next
    case (Inl e)
    then have cur: "current (m_store m1) = current (m_store m)"
      using log.open_refused [OF ok] d1 by auto
    then have r1: "round_of (ID t) m m1" using sc ok1 by (simp add: round_of_def)
    obtain r2 m2 where op2: "on_store (OpenIncidentFor (ID t)) m1 = (r2, m2)" by (rule prod.exhaust)
    have "silent m1 m2" using on_store_silent [of "OpenIncidentFor (ID t)" m1] op2 by (simp add: quiet_reads)
    note r2 = round_silent [OF r1 this]
    have "r2 = Inr inc \<Longrightarrow> current (m_store m2) (ID t) = Some (inc_ID inc)" for inc
      using op2 r2 OpenIncidentFor_current [OF _ ok1, of "ID t" inc] by (auto simp: on_store_eq)
    then show ?thesis
      using assms(1) op Inl op2 r1 r2 by (auto simp: round_down_def backed_def split: if_splits sum.splits)
  qed
qed

lemma round_up_backed:
  assumes "round_up mail now t st att nst m = (st', m')" and ok: "db_ok (m_store m)"
    and "current (m_store m) (ID t) = Some (incident st)" and "incident nst = incident st" and "\<not> isOpen nst"
  shows "round_of (ID t) m m' \<and> backed (m_store m') (ID t) st'"
proof -
  obtain r m1 where op: "on_store (CloseIncident (incident st) att) m = (r, m1)" by (rule prod.exhaust)
  then obtain d1 where d1: "CloseIncident (incident st) att (m_store m) = (r, d1)" "m1 = m\<lparr>m_store := d1\<rparr>"
    by (auto simp: on_store_eq)
  have ok1: "db_ok (m_store m1)" using log.inv_cls [OF ok, of "incident st" att] d1 by simp
  have sc: "same_control m m1" using d1 by (simp add: same_control_def)
  show ?thesis
  proof (cases r)
    case (Inr u)
    then obtain t' where "current (m_store m) t' = Some (incident st)" "current (m_store m1) = (current (m_store m))(t' := None)"
      using log.closed [OF ok, of "incident st" att d1] d1 by auto
    then have "current (m_store m1) = (current (m_store m))(ID t := None)"
      using log.one_target [OF ok] assms(3) by metis
    then have "round_of (ID t) m m1" using sc ok1 by (simp add: round_of_def)
    from round_silent [OF this notify_silent] show ?thesis
      using assms op Inr by (auto simp: round_up_def backed_def)
  next
    case (Inl e)
    then have cur: "current (m_store m1) = current (m_store m)" "e \<noteq> ErrNotFound"
      using log.close_refused [OF ok] d1 assms(3) by auto
    then have "round_of (ID t) m m1" using sc ok1 by (simp add: round_of_def)
    then show ?thesis using assms op Inl cur by (auto simp: round_up_def backed_def)
  qed
qed

lemma next_state_none:
  "next_state st ok c att thr = (nst, EvNone) \<Longrightarrow> isOpen nst = isOpen st \<and> incident nst = incident st"
  by (auto simp: next_state_def Let_def split: if_splits)

lemma next_state_up:
  "next_state st ok c att thr = (nst, EvUp) \<Longrightarrow> isOpen st \<and> \<not> isOpen nst \<and> incident nst = incident st"
  by (auto simp: next_state_def Let_def split: if_splits)

lemma round_end_backed:
  assumes "round_end mail now t att res st m = (st', m')" and ok: "db_ok (m_store m)"
    and b: "backed (m_store m) (ID t) st"
  shows "round_of (ID t) m m' \<and> backed (m_store m') (ID t) st'"
proof -
  define m2 where "m2 = snd (on_store (InsertCheck (ID t) att res) (record_stat (ID t) att res m))"
  have "silent m m2"
    unfolding m2_def by (rule silent_trans [OF record_stat_silent on_store_silent]) simp
  then have r2: "round_of (ID t) m m2" and cur: "current (m_store m2) = current (m_store m)" and ok2: "db_ok (m_store m2)"
    using ok by (auto simp: silent_def round_of_def)
  have trans: "round_of (ID t) m m'" if "round_of (ID t) m2 m'"
    using that r2 cur by (auto simp: round_of_def intro: same_control_trans)
  obtain nst ev where nx: "next_state st (res_OK res) (res_Err res) att (FailThreshold t) = (nst, ev)"
    by (rule prod.exhaust)
  show ?thesis
  proof (cases ev)
    case EvNone
    then show ?thesis
      using assms(1) nx r2 b cur next_state_none
      by (auto simp: round_end_def m2_def [symmetric] backed_def Let_def)
  next
    case EvDown
    then have "round_down mail now t nst m2 = (st', m')"
      using assms(1) nx by (simp add: round_end_def m2_def [symmetric] Let_def)
    from round_down_backed [OF this ok2] show ?thesis using trans by simp
  next
    case EvUp
    then have "round_up mail now t st att nst m2 = (st', m')" "isOpen st" "\<not> isOpen nst" "incident nst = incident st"
      using assms(1) nx next_state_up by (auto simp: round_end_def m2_def [symmetric] Let_def)
    then show ?thesis
      using round_up_backed [OF _ ok2, of mail now t st att nst st' m'] b cur trans by (simp add: backed_def)
  qed
qed

lemma restore_streak_keeps [simp]:
  "isOpen (restore_streak fin cs st) = isOpen st" "incident (restore_streak fin cs st) = incident st"
  "startedAt (restore_streak fin cs st) = startedAt st"
  by (induction fin cs st rule: restore_streak.induct) auto

lemma target_checks_read [simp]: "reads (LastChecks i n)"
  by simp

lemma seed_stat_silent [simp]: "silent m (seed_stat i cs m)" "m_store (seed_stat i cs m) = m_store m"
  by (auto simp: seed_stat_def silent_def same_control_def split: list.split)

lemma restore_backed:
  assumes "restore t m = (st, m')" and ok: "db_ok (m_store m)"
  shows "silent m m' \<and> backed (m_store m') (ID t) st"
proof -
  obtain r1 m1 where o1: "on_store (OpenIncidentFor (ID t)) m = (r1, m1)" by (rule prod.exhaust)
  obtain r2 m2 where o2: "on_store (LastIncidentEnd (ID t)) m1 = (r2, m2)" by (rule prod.exhaust)
  obtain r3 m3 where o3: "on_store (LastChecks (ID t) (FailThreshold t)) m2 = (r3, m3)" by (rule prod.exhaust)
  have "silent m m1" "silent m1 m2" "silent m2 m3"
    using on_store_silent [of "OpenIncidentFor (ID t)" m] on_store_silent [of "LastIncidentEnd (ID t)" m1]
      on_store_silent [of "LastChecks (ID t) (FailThreshold t)" m2] o1 o2 o3
    by (simp_all add: quiet_reads)
  then have s: "silent m m3" by (blast intro: silent_trans)
  have m': "silent m3 m' \<and> m_store m' = m_store m3"
    using assms(1) o1 o2 o3 by (auto simp: restore_def Let_def)
  have "isOpen st \<Longrightarrow> current (m_store m) (ID t) = Some (incident st)"
    using assms(1) o1 o2 o3 OpenIncidentFor_current [OF _ ok, of "ID t"]
    by (auto simp: restore_def Let_def init_state_def on_store_eq split: sum.splits)
  moreover have "silent m m'" using s m' by (blast intro: silent_trans)
  ultimately show ?thesis using ok by (simp add: backed_def silent_def)
qed

section \<open>The invariant\<close>

definition in_flight :: "(int \<rightharpoonup> runner) \<Rightarrow> int set" where
  "in_flight rs = {i. \<exists>r att. rs i = Some r \<and> r_phase r = Checking att}"

definition runner_ok :: "db \<Rightarrow> int \<Rightarrow> runner \<Rightarrow> bool" where
  "runner_ok d i r \<longleftrightarrow> ID (r_target r) = i \<and> (r_phase r \<noteq> Starting \<longrightarrow> backed d i (r_state r))"

definition runners_ok :: "db \<Rightarrow> (int \<rightharpoonup> runner) \<Rightarrow> bool" where
  "runners_ok d rs \<longleftrightarrow> (\<forall>i r. rs i = Some r \<longrightarrow> runner_ok d i r)"

definition slots_ok :: "nat \<Rightarrow> (int \<rightharpoonup> runner) \<Rightarrow> bool" where
  "slots_ok n rs \<longleftrightarrow> finite (in_flight rs) \<and> n = card (in_flight rs) \<and> n \<le> maxParallel"

definition minv :: "'w Manager \<Rightarrow> bool" where
  "minv m \<longleftrightarrow> db_ok (m_store m) \<and> runners_ok (m_store m) (m_runners m) \<and> slots_ok (m_sem m) (m_runners m)"

lemma runners_ok_log: "current d' = current d \<Longrightarrow> runners_ok d' rs = runners_ok d rs"
  by (simp add: runners_ok_def runner_ok_def backed_def)

lemma minv_silent: "silent m m' \<Longrightarrow> minv m \<Longrightarrow> minv m'"
  using runners_ok_log [of "m_store m'" "m_store m" "m_runners m"]
  by (simp add: minv_def silent_def same_control_def)

lemma runners_ok_upd:
  assumes "runners_ok d rs" and "\<And>j. j \<noteq> i \<Longrightarrow> current d' j = current d j" and "runner_ok d' i r"
  shows "runners_ok d' (rs(i \<mapsto> r))"
  using assms unfolding runners_ok_def runner_ok_def backed_def by (metis fun_upd_apply option.inject)

lemma runners_ok_del:
  assumes "runners_ok d rs" and "\<And>j. j \<noteq> i \<Longrightarrow> current d' j = current d j"
  shows "runners_ok d' (rs(i := None))"
  using assms unfolding runners_ok_def runner_ok_def backed_def by (metis fun_upd_apply option.distinct(1))

lemma in_flight_upd:
  "in_flight (rs(i \<mapsto> r)) = (if \<exists>att. r_phase r = Checking att then insert i (in_flight rs) else in_flight rs - {i})"
  by (auto simp: in_flight_def)

lemma in_flight_del: "in_flight (rs(i := None)) = in_flight rs - {i}"
  by (auto simp: in_flight_def)

lemma in_flight_iff: "rs i = Some r \<Longrightarrow> i \<in> in_flight rs \<longleftrightarrow> (\<exists>att. r_phase r = Checking att)"
  by (simp add: in_flight_def)

lemma slots_same:
  assumes "slots_ok n rs" and "\<And>s. rs i = Some s \<Longrightarrow> \<forall>att. r_phase s \<noteq> Checking att" and "\<forall>att. r_phase r \<noteq> Checking att"
  shows "slots_ok n (rs(i \<mapsto> r))"
proof -
  have "i \<notin> in_flight rs" using assms(2) by (auto simp: in_flight_def)
  then have "in_flight (rs(i \<mapsto> r)) = in_flight rs" using assms(3) by (simp add: in_flight_upd)
  then show ?thesis using assms(1) by (simp add: slots_ok_def)
qed

lemma slots_take:
  assumes "slots_ok n rs" and "n < maxParallel" and "i \<notin> in_flight rs" and "r_phase r = Checking att"
  shows "slots_ok (n + 1) (rs(i \<mapsto> r))"
  using assms by (auto simp: slots_ok_def in_flight_upd)

lemma slots_give:
  assumes "slots_ok n rs" and "i \<in> in_flight rs" and "\<forall>att. r_phase r \<noteq> Checking att"
  shows "slots_ok (n - 1) (rs(i \<mapsto> r))" "slots_ok (n - 1) (rs(i := None))"
  using assms by (auto simp: slots_ok_def in_flight_upd in_flight_del)

lemma minv_stop:
  assumes "minv m"
  shows "minv (stop i m)" "m_runners (stop i m) i = None" "m_store (stop i m) = m_store m"
    "m_done (stop i m) = m_done m"
proof -
  show "m_runners (stop i m) i = None" "m_store (stop i m) = m_store m" "m_done (stop i m) = m_done m"
    by (auto simp: stop_def release_def split: option.split phase.split)
  show "minv (stop i m)"
  proof (cases "m_runners m i")
    case (Some r)
    have "runners_ok (m_store m) ((m_runners m)(i := None))"
      using assms runners_ok_del [of "m_store m" "m_runners m"] by (simp add: minv_def)
    moreover have "slots_ok (m_sem m - 1) ((m_runners m)(i := None))" if "i \<in> in_flight (m_runners m)"
      using assms that slots_give(2) [of "m_sem m" "m_runners m" i "r\<lparr>r_phase := Waiting\<rparr>"] by (simp add: minv_def)
    moreover have "slots_ok (m_sem m) ((m_runners m)(i := None))" if "i \<notin> in_flight (m_runners m)"
      using assms that by (simp add: minv_def slots_ok_def in_flight_del)
    ultimately show ?thesis
      using assms Some in_flight_iff [of "m_runners m" i r, OF Some]
      by (auto simp: stop_def release_def minv_def split: phase.split)
  qed (simp add: stop_def assms)
qed

lemma minv_start:
  assumes "minv m" and "m_runners m (ID t) = None"
  shows "minv (start t m)"
proof -
  let ?r = "\<lparr>r_target = t, r_state = init_state, r_phase = Starting, r_nudged = zeroTime\<rparr>"
  have "runners_ok (m_store m) ((m_runners m)(ID t \<mapsto> ?r))"
    using assms(1) by (intro runners_ok_upd [of "m_store m"]) (simp_all add: minv_def runner_ok_def)
  moreover have "slots_ok (m_sem m) ((m_runners m)(ID t \<mapsto> ?r))"
    using assms by (intro slots_same) (simp_all add: minv_def)
  ultimately show ?thesis using assms(1) by (simp add: start_def minv_def)
qed

lemma minv_starts:
  "minv m \<Longrightarrow> distinct (map ID ts) \<Longrightarrow> (\<And>t. t \<in> set ts \<Longrightarrow> m_runners m (ID t) = None) \<Longrightarrow> minv (fold start ts m)"
proof (induction ts arbitrary: m)
  case (Cons t ts)
  have "minv (fold start ts (start t m))"
  proof (rule Cons.IH)
    show "minv (start t m)" using Cons.prems by (intro minv_start) auto
    show "distinct (map ID ts)" using Cons.prems(2) by simp
    show "m_runners (start t m) (ID u) = None" if "u \<in> set ts" for u
    proof -
      have "ID u \<noteq> ID t" using Cons.prems(2) that by (metis distinct.simps(2) image_eqI list.set_map list.simps(9))
      then show ?thesis using Cons.prems(3) [of u] that by (simp add: start_def)
    qed
  qed
  then show ?case by simp
qed simp

section \<open>Every step keeps it\<close>

lemma minvI:
  "db_ok (m_store m) \<Longrightarrow> runners_ok (m_store m) (m_runners m) \<Longrightarrow> slots_ok (m_sem m) (m_runners m) \<Longrightarrow> minv m"
  by (simp add: minv_def)

lemma minvD:
  assumes "minv m"
  shows "db_ok (m_store m)" "runners_ok (m_store m) (m_runners m)" "slots_ok (m_sem m) (m_runners m)"
    "m_runners m i = Some r \<Longrightarrow> runner_ok (m_store m) i r"
  using assms by (simp_all add: minv_def runners_ok_def)

lemma minv_run_restore:
  assumes "minv m" and "m_runners m i = Some r" and "r_phase r = Starting"
  shows "minv (run_restore i r m)"
proof -
  obtain st m1 where re: "restore (r_target r) m = (st, m1)" by (rule prod.exhaust)
  have i: "ID (r_target r) = i" using minvD(4) [OF assms(1,2)] by (simp add: runner_ok_def)
  have sil: "silent m m1" and b: "backed (m_store m1) i st"
    using restore_backed [OF re minvD(1) [OF assms(1)]] i by auto
  have inv: "minv m1" and same: "m_runners m1 = m_runners m"
    using minv_silent [OF sil assms(1)] sil by (simp_all add: silent_def same_control_def)
  let ?r = "r\<lparr>r_state := st, r_phase := Waiting\<rparr>"
  have "runners_ok (m_store m1) ((m_runners m1)(i \<mapsto> ?r))"
    using b i by (intro runners_ok_upd [OF minvD(2) [OF inv]]) (simp_all add: runner_ok_def)
  moreover have "slots_ok (m_sem m1) ((m_runners m1)(i \<mapsto> ?r))"
    using assms(2,3) same by (intro slots_same [OF minvD(3) [OF inv]]) auto
  ultimately show ?thesis
    using minvD(1) [OF inv] by (intro minvI) (simp_all add: run_restore_def re set_runner_def)
qed

lemma minv_set_phase:
  assumes "minv m" and "m_runners m i = Some r" and "r_phase r \<in> {Waiting, Queued}" and "p \<in> {Waiting, Queued, Exited}"
    and "r_target r' = r_target r" "r_state r' = r_state r" "r_phase r' = p"
  shows "minv (set_runner i r' m)"
proof (rule minvI)
  have "runner_ok (m_store m) i r'"
    using minvD(4) [OF assms(1,2)] assms(3,5-7) by (auto simp: runner_ok_def)
  then show "runners_ok (m_store (set_runner i r' m)) (m_runners (set_runner i r' m))"
    using runners_ok_upd [OF minvD(2) [OF assms(1)]] by (simp add: set_runner_def)
  show "slots_ok (m_sem (set_runner i r' m)) (m_runners (set_runner i r' m))"
    using assms slots_same [OF minvD(3) [OF assms(1)], of i r'] by (auto simp: set_runner_def)
qed (use minvD(1) [OF assms(1)] in \<open>simp add: set_runner_def\<close>)

lemma minv_round_begin:
  assumes "minv m" and "m_runners m i = Some r" and "r_phase r = Queued" and "m_sem m < maxParallel"
  shows "minv (round_begin i att r m)"
proof (rule minvI)
  let ?r = "r\<lparr>r_phase := Checking att\<rparr>"
  have "runner_ok (m_store m) i ?r" using minvD(4) [OF assms(1,2)] assms(3) by (simp add: runner_ok_def)
  then show "runners_ok (m_store (round_begin i att r m)) (m_runners (round_begin i att r m))"
    using runners_ok_upd [OF minvD(2) [OF assms(1)]] by (simp add: round_begin_def set_runner_def)
  have "i \<notin> in_flight (m_runners m)" using in_flight_iff [of "m_runners m" i r] assms(2,3) by simp
  then show "slots_ok (m_sem (round_begin i att r m)) (m_runners (round_begin i att r m))"
    using slots_take [OF minvD(3) [OF assms(1)] assms(4), of i ?r att] by (simp add: round_begin_def set_runner_def)
qed (use minvD(1) [OF assms(1)] in \<open>simp add: round_begin_def set_runner_def\<close>)

lemma minv_round_return:
  assumes "minv m" and "m_runners m i = Some r" and "r_phase r = Checking att"
  shows "minv (round_return mail i now att res r m)"
proof -
  let ?m1 = "m\<lparr>m_sem := m_sem m - 1\<rparr>"
  have fl: "i \<in> in_flight (m_runners m)" using in_flight_iff [of "m_runners m" i r] assms(2,3) by simp
  have i: "ID (r_target r) = i" and b: "backed (m_store ?m1) i (r_state r)"
    using minvD(4) [OF assms(1,2)] assms(3) by (simp_all add: runner_ok_def)
  have key: "minv (set_runner i (r\<lparr>r_state := st, r_phase := Waiting\<rparr>) m2)"
    if "round_of i ?m1 m2" "backed (m_store m2) i st" for m2 st
  proof (rule minvI)
    let ?r = "r\<lparr>r_state := st, r_phase := Waiting\<rparr>"
    have same: "m_runners m2 = m_runners m" "m_sem m2 = m_sem m - 1"
      and cur: "\<And>j. j \<noteq> i \<Longrightarrow> current (m_store m2) j = current (m_store m) j"
      using that(1) by (simp_all add: round_of_def same_control_def)
    have "runners_ok (m_store m2) ((m_runners m)(i \<mapsto> ?r))"
      using that(2) i cur by (intro runners_ok_upd [OF minvD(2) [OF assms(1)]]) (simp_all add: runner_ok_def)
    then show "runners_ok (m_store (set_runner i ?r m2)) (m_runners (set_runner i ?r m2))"
      by (simp add: set_runner_def same)
    have "slots_ok (m_sem m - 1) ((m_runners m)(i \<mapsto> ?r))"
      by (rule slots_give(1) [OF minvD(3) [OF assms(1)] fl]) simp
    then show "slots_ok (m_sem (set_runner i ?r m2)) (m_runners (set_runner i ?r m2))"
      by (simp add: set_runner_def same)
    show "db_ok (m_store (set_runner i ?r m2))" using that(1) by (simp add: round_of_def set_runner_def)
  qed
  show ?thesis
  proof (cases "m_done m")
    case True
    have "round_of i ?m1 ?m1" using minvD(1) [OF assms(1)] by (simp add: round_of_def)
    from key [OF this b] show ?thesis using True by (simp add: round_return_def)
  next
    case False
    obtain st m2 where re: "round_end mail now (r_target r) att res (r_state r) ?m1 = (st, m2)" by (rule prod.exhaust)
    have "round_of i ?m1 m2 \<and> backed (m_store m2) i st"
      using round_end_backed [OF re] minvD(1) [OF assms(1)] b i by simp
    then show ?thesis using key False re by (simp add: round_return_def)
  qed
qed

lemma minv_CheckNow: "minv m \<Longrightarrow> minv (snd (CheckNow now i m))"
proof (cases "m_runners m i")
  case (Some r)
  assume "minv m"
  then have "minv (set_runner i (r\<lparr>r_phase := Queued, r_nudged := now\<rparr>) m)" if "r_phase r = Waiting"
    using Some that by (intro minv_set_phase [where p = Queued]) auto
  then show ?thesis using Some \<open>minv m\<close> by (simp add: CheckNow_def set_runner_def)
qed (simp add: CheckNow_def)

lemma minv_on_store: "minv m \<Longrightarrow> quiet q \<Longrightarrow> minv (snd (on_store q m))"
  by (rule minv_silent [OF on_store_silent])

lemma StoreTargets_distinct:
  assumes "StoreTargets d = (Inr ts, d')" and "db_ok d"
  shows "distinct (map ID ts)"
proof -
  have "\<forall>ts d'. StoreTargets d = (Inr ts, d') \<longrightarrow> distinct (map ID ts)"
    unfolding StoreTargets_def select_targets_def
    using db_okD(1) [OF assms(2)]
    by - (rule exec_rule, auto simp: rows_ok_def scanTarget_def comp_def distinct_map inj_on_def)
  then show ?thesis using assms(1) by blast
qed

lemma minv_Start:
  assumes "minv m" and "m_runners m = Map.empty"
  shows "minv (snd (Start m))"
proof -
  obtain r m1 where op: "on_store StoreTargets m = (r, m1)" by (rule prod.exhaust)
  have inv: "minv m1" and none: "m_runners m1 = Map.empty"
    using minv_on_store [OF assms(1), of StoreTargets] op assms(2) by (auto simp: quiet_reads on_store_eq)
  have "distinct (map ID ts)" if "r = Inr ts" for ts
    using op that StoreTargets_distinct [OF _ minvD(1) [OF assms(1)]] by (auto simp: on_store_eq)
  then have "minv (fold start (filter (\<lambda>t. \<not> Paused t) ts) m1)" if "r = Inr ts" for ts
    using that none by (intro minv_starts [OF inv]) (simp_all add: distinct_map_filter)
  then show ?thesis using op inv by (cases r) (simp_all add: Start_def)
qed

lemma StoreTarget_ID: "StoreTarget i d = (Inr t, d') \<Longrightarrow> ID t = i"
proof -
  have "\<forall>t d'. StoreTarget i d = (Inr t, d') \<longrightarrow> ID t = i"
    unfolding StoreTarget_def
    by (rule exec_rule) (auto split: option.splits dest!: find_Some_mem simp: find_row_def scanTarget_def)
  then show "StoreTarget i d = (Inr t, d') \<Longrightarrow> ID t = i" by blast
qed

lemma on_store_control: "on_store q m = (r, m') \<Longrightarrow> m_runners m' = m_runners m \<and> m_sem m' = m_sem m \<and> m_done m' = m_done m"
  by (auto simp: on_store_eq)

text \<open>A store operation that changes the log of one target only, while it has no runner.\<close>

lemma minv_on_store_stopped:
  assumes "minv m" and "m_runners m i = None" and "\<And>d. db_ok d \<Longrightarrow> db_ok (snd (q d))"
    and "\<And>d j. db_ok d \<Longrightarrow> j \<noteq> i \<Longrightarrow> current (snd (q d)) j = current d j"
  shows "minv (snd (on_store q m))"
proof -
  have "m_runners m = (m_runners m)(i := None)" using assms(2) by (simp add: fun_upd_idem)
  then have "runners_ok (snd (q (m_store m))) (m_runners m)"
    using runners_ok_del [OF minvD(2) [OF assms(1)], of i] assms(4) minvD(1) [OF assms(1)] by metis
  then show ?thesis
    using assms(3) [OF minvD(1) [OF assms(1)]] minvD(3) [OF assms(1)] by (simp add: on_store_def minv_def split_beta)
qed

lemma minv_start_loaded:
  assumes "minv m" and "m_runners m i = None" and "on_store (StoreTarget i) m = (Inr t, m')"
  shows "minv (start t m')"
proof -
  have "minv m'" using minv_on_store [OF assms(1), of "StoreTarget i"] assms(3) by (simp add: quiet_reads)
  moreover have "ID t = i" using assms(3) StoreTarget_ID by (auto simp: on_store_eq)
  ultimately show ?thesis using assms(2) on_store_control [OF assms(3)] by (intro minv_start) auto
qed

lemma minv_Reload: assumes "minv m" shows "minv (snd (Reload now i m))"
proof -
  note st = minv_stop [OF assms, of i]
  obtain r m1 where op: "on_store (StoreTarget i) (stop i m) = (r, m1)" by (rule prod.exhaust)
  have inv: "minv m1" using minv_on_store [OF st(1), of "StoreTarget i"] op by (simp add: quiet_reads)
  have none: "m_runners m1 i = None" using on_store_control [OF op] st(2) by simp
  have "current (snd (ClosePausedIncident now i d)) j = current d j" if "db_ok d" "j \<noteq> i" for d j
    using ClosePausedIncident_current [OF that(1), where now = now and t = i] that(2) by (auto split: prod.splits sum.splits)
  then have closed: "minv (snd (on_store (ClosePausedIncident now i) m1))"
    by (intro minv_on_store_stopped [OF inv none] ClosePausedIncident_keeps) auto
  show ?thesis
  proof (cases r)
    case (Inr t)
    then show ?thesis
      using minv_start_loaded [OF st(1,2)] op closed inv by (auto simp: Reload_def)
  qed (use op inv in \<open>simp add: Reload_def\<close>)
qed

lemma minv_Delete: assumes "minv m" shows "minv (snd (Delete i m))"
proof -
  note st = minv_stop [OF assms, of i]
  obtain r m1 where op: "on_store (DeleteTarget i) (stop i m) = (r, m1)" by (rule prod.exhaust)
  have inv: "minv m1"
    using minv_on_store_stopped [OF st(1,2), of "DeleteTarget i"] DeleteTarget_keeps DeleteTarget_current op by simp
  have none: "m_runners m1 i = None" using on_store_control [OF op] st(2) by simp
  obtain r2 m2 where op2: "on_store (StoreTarget i) m1 = (r2, m2)" by (rule prod.exhaust)
  have inv2: "minv m2" using minv_on_store [OF inv, of "StoreTarget i"] op2 by (simp add: quiet_reads)
  show ?thesis
  proof (cases r)
    case (Inl e)
    then show ?thesis
      using op op2 inv inv2 minv_start_loaded [OF inv none] by (cases r2) (auto simp: Delete_def)
  next
    case (Inr u)
    then show ?thesis using op inv by (simp add: Delete_def minv_def)
  qed
qed

lemma retry_loop_silent:
  "silent m (snd (retry_loop mail now incs pending m))"
proof (induction incs arbitrary: pending m)
  case (Cons inc incs)
  obtain r m1 where n: "notify mail now inc m = (r, m1)" by (rule prod.exhaust)
  have "silent m m1" using notify_silent [of m mail now inc] n by simp
  then have "silent m (snd (retry_loop mail now incs p m1))" for p using Cons.IH silent_trans by blast
  then show ?case using Cons.IH n by (auto simp: Let_def split: option.split bool.split)
qed simp

lemma minv_retry: assumes "minv m" shows "minv (retry mail now m)"
proof -
  obtain r m1 where op: "on_store (UnmailedIncidents (addTime now (- retryWindow))) m = (r, m1)" by (rule prod.exhaust)
  have inv: "minv m1"
    using minv_on_store [OF assms, of "UnmailedIncidents (addTime now (- retryWindow))"] op by (simp add: quiet_reads)
  have "minv ((snd (retry_loop mail now incs Map.empty m1))\<lparr>m_pending := p\<rparr>)" for incs p
    using minv_silent [OF retry_loop_silent inv, of mail now incs Map.empty] by (simp add: minv_def)
  then show ?thesis
    using op inv assms by (cases mail; cases r) (simp_all add: retry_def split_beta)
qed

lemma minv_cleanup: "minv m \<Longrightarrow> minv (cleanup now days m)"
  unfolding cleanup_def by (intro minv_on_store) simp_all

lemma minv_mstep:
  assumes "mstep mail m m'" and "minv m"
  shows "minv m'"
  using assms
proof (cases rule: mstep.cases)
  case (session_written ht op)
  have "current (snd (session_step ht op (m_store m))) = current (m_store m)"
    by (simp add: current_def session_step_incidents)
  then show ?thesis
    using assms(2) session_written session_step_keeps [of "m_store m" ht op]
      runners_ok_log [of "snd (session_step ht op (m_store m))" "m_store m" "m_runners m"] by (simp add: minv_def)
next
  case (cancelled)
  then show ?thesis using assms(2) by (simp add: minv_def)
next
  case (ticked i r)
  then show ?thesis using assms(2) by (simp add: run_tick_def minv_set_phase [where p = Queued])
next
  case (exited i r)
  then show ?thesis using assms(2) by (simp add: run_exit_def minv_set_phase [where p = Exited])
qed (use assms(2) in \<open>simp_all add: minv_run_restore minv_round_begin minv_round_return minv_CheckNow
       minv_Start minv_Reload minv_Delete rollup_def minv_on_store minv_cleanup minv_retry\<close>)

lemma minv_reachable: "reachable mail m \<Longrightarrow> minv m"
proof (induction rule: reachable.induct)
  case (init d w)
  then show ?case by (simp add: minv_def New_def runners_ok_def slots_ok_def in_flight_def)
qed (rule minv_mstep)

text \<open>What the invariant means for the incidents and the slots.\<close>

lemma minv_safe:
  assumes inv: "minv m"
  shows "db_ok (m_store m) \<and>
    (\<forall>i r. m_runners m i = Some r \<and> r_phase r \<noteq> Starting \<and> isOpen (r_state r) \<longrightarrow>
       (\<exists>row \<in> set (incidents (m_store m)). i_id row = incident (r_state r) \<and> open_at i row \<and>
          (\<forall>row' \<in> set (incidents (m_store m)). open_at i row' \<longrightarrow> row' = row))) \<and>
    card (in_flight (m_runners m)) \<le> 8"
proof -
  note ok = minvD(1) [OF inv]
  have "\<exists>row \<in> set (incidents (m_store m)). i_id row = incident (r_state r) \<and> open_at i row \<and>
          (\<forall>row' \<in> set (incidents (m_store m)). open_at i row' \<longrightarrow> row' = row)"
    if r: "m_runners m i = Some r" "r_phase r \<noteq> Starting" "isOpen (r_state r)" for i r
  proof -
    have "current (m_store m) i = Some (incident (r_state r))"
      using minvD(4) [OF inv r(1)] r(2,3) by (simp add: runner_ok_def backed_def)
    then obtain row where row: "row \<in> set (incidents (m_store m))" "open_at i row" "i_id row = incident (r_state r)"
      using open_of_Some [OF db_okD(10) [OF ok]] by (auto simp: current_def)
    have "row' = row" if "row' \<in> set (incidents (m_store m))" "open_at i row'" for row'
      using one_openD [OF db_okD(10) [OF ok] that(1) row(1)] that row(1,2) db_okD(9) [OF ok]
      by (auto simp: open_at_def rows_ok_def distinct_map inj_on_def)
    then show ?thesis using row by blast
  qed
  then show ?thesis using ok minvD(3) [OF inv] by (simp add: slots_ok_def maxParallel_def)
qed

text \<open>In every state the service can reach, under every interleaving of checks, admin
  operations, maintenance and shutdown and with any failures of the driver and of the mail
  system: the schema's constraints hold; a runner that has restored its state and believes its
  target is down names an incident of that target that is open in the store, and no other
  incident of that target is open; and at most eight checks are in flight.\<close>

lemma monitor_safe:
  assumes "reachable mail m"
  shows "db_ok (m_store m) \<and>
    (\<forall>i r. m_runners m i = Some r \<and> r_phase r \<noteq> Starting \<and> isOpen (r_state r) \<longrightarrow>
       (\<exists>row \<in> set (incidents (m_store m)). i_id row = incident (r_state r) \<and> open_at i row \<and>
          (\<forall>row' \<in> set (incidents (m_store m)). open_at i row' \<longrightarrow> row' = row))) \<and>
    card (in_flight (m_runners m)) \<le> 8"
  by (rule minv_safe [OF minv_reachable [OF assms]])

text \<open>A run: one target with threshold one is started, restored, checked and found down.\<close>

definition demo_target :: target_row where
  "demo_target = \<lparr>ID = 1, Name = ''api'', Kind = KindTCP, Address = ''a:1'', ExpectStatus = '''',
     Keyword = '''', ConnectTo = '''', IntervalS = 60, TimeoutMs = 5000, FailThreshold = 1,
     Public = True, Paused = False, Sort = 0, t_created = 0, t_updated = 0\<rparr>"

definition demo_result :: Result where
  "demo_result = \<lparr>res_OK = False, res_LatencyMs = 0, res_StatusCode = 0, res_Err = ''x'', res_Players = None,
     res_MaxPlayers = None, res_Version = []\<rparr>"

definition demo :: "unit mail_fn" where "demo now inc w = (Inr (), w)"

definition demo1 :: "unit Manager" where "demo1 = snd (Start (New (empty_db\<lparr>targets := [demo_target]\<rparr>) ()))"
definition demo2 :: "unit Manager" where "demo2 = run_restore 1 (the (m_runners demo1 1)) demo1"
definition demo3 :: "unit Manager" where "demo3 = run_tick 1 (the (m_runners demo2 1)) demo2"
definition demo4 :: "unit Manager" where "demo4 = round_begin 1 (fromUnix 50) (the (m_runners demo3 1)) demo3"
definition demo5 :: "unit Manager" where
  "demo5 = round_return (Some demo) 1 (fromUnix 51) (fromUnix 50) demo_result (the (m_runners demo4 1)) demo4"

lemma demo1_reachable: "reachable (Some demo) demo1"
proof -
  have "db_ok (empty_db\<lparr>targets := [demo_target]\<rparr>)" by code_simp
  then have "reachable (Some demo) (New (empty_db\<lparr>targets := [demo_target]\<rparr>) ())" by (rule reachable.init)
  then show ?thesis unfolding demo1_def by (rule reachable.step) (rule mstep.started, simp add: New_def)
qed

lemma demo2_reachable: "reachable (Some demo) demo2"
proof -
  have "m_runners demo1 1 \<noteq> None" "r_phase (the (m_runners demo1 1)) = Starting" by code_simp+
  then show ?thesis unfolding demo2_def by (intro reachable.step [OF demo1_reachable] mstep.restored) auto
qed

end
