(* ===== verification/Monitor_Props.thy ===== *)
theory Monitor_Props
  imports Monitor_Inv
begin

text \<open>
  What the manager does when the driver works: over a whole history of checks the incident log
  follows the streak of failures, and a restart in between changes nothing that is reported
  afterwards.
\<close>

section \<open>A round on a working store\<close>

definition working :: "int \<Rightarrow> 'w Manager \<Rightarrow> bool" where
  "working i m \<longleftrightarrow> healthy (m_store m) \<and> db_ok (m_store m) \<and> target_exists i (m_store m)"

definition target_incidents :: "int \<Rightarrow> db \<Rightarrow> incident_row list" where
  "target_incidents i d = filter (\<lambda>r. i_target r = i) (incidents d)"

text \<open>The log rows up to the flags that record the mails.\<close>

definition unmarked :: "incident_row \<Rightarrow> incident_row" where
  "unmarked r = r\<lparr>i_mailed_down := False, i_mailed_up := False\<rparr>"

definition log_rows :: "int \<Rightarrow> db \<Rightarrow> incident_row list" where
  "log_rows i d = map unmarked (target_incidents i d)"

text \<open>The log and the checks of a target are the same, and the store still works.\<close>

definition same_data :: "int \<Rightarrow> 'w Manager \<Rightarrow> 'w Manager \<Rightarrow> bool" where
  "same_data i m m' \<longleftrightarrow> (working i m \<longrightarrow> working i m') \<and> log_rows i (m_store m') = log_rows i (m_store m) \<and>
     checks (m_store m') = checks (m_store m) \<and> current (m_store m') = current (m_store m)"

lemma filter_update_same:
  "(\<And>r. i_target (f r) = i_target r) \<Longrightarrow> (\<And>r. unmarked (f r) = unmarked r) \<Longrightarrow>
   map unmarked (filter (\<lambda>r. i_target r = i) (update_where p f rs)) = map unmarked (filter (\<lambda>r. i_target r = i) rs)"
  by (induction rs) (auto simp: update_where_simps)

lemma MarkMailed_data:
  assumes "MarkMailed n up d = (r, d')" and "healthy d"
  shows "log_rows i d' = log_rows i d" "checks d' = checks d" "healthy d'" "targets d' = targets d"
proof -
  have "log_rows i d' = log_rows i d \<and> checks d' = checks d \<and> healthy d' \<and> targets d' = targets d"
    using assms by (auto simp: MarkMailed_def log_rows_def target_incidents_def healthy_def filter_update_same
        unmarked_def split: if_splits)
  then show "log_rows i d' = log_rows i d" "checks d' = checks d" "healthy d'" "targets d' = targets d" by auto
qed

lemma notify_data: "healthy (m_store m) \<Longrightarrow> same_data i m (snd (notify mail now inc m))"
proof (cases mail)
  case (Some f)
  assume h: "healthy (m_store m)"
  obtain r w where f: "f now inc (m_world m) = (r, w)" by (rule prod.exhaust)
  obtain q d where mk: "MarkMailed (inc_ID inc) (\<not> incident_Open inc) (m_store m) = (q, d)" by (rule prod.exhaust)
  note data = MarkMailed_data [OF mk h]
  have "db_ok (m_store m) \<Longrightarrow> db_ok d" "current d = current (m_store m)"
    using MarkMailed_keeps [of "m_store m" "inc_ID inc" "\<not> incident_Open inc"]
      MarkMailed_current [of "inc_ID inc" "\<not> incident_Open inc" "m_store m"] mk by simp_all
  then show ?thesis
    using Some f mk data by (cases r) (auto simp: notify_def on_store_def same_data_def working_def target_exists_def)
qed (simp add: notify_def same_data_def)

lemma same_data_trans: "same_data i a b \<Longrightarrow> same_data i b c \<Longrightarrow> same_data i a c"
  by (simp add: same_data_def)

lemma InsertCheck_healthy:
  "healthy d \<Longrightarrow> target_exists i d \<Longrightarrow> InsertCheck i att res d =
     (Inr (), d\<lparr>checks := checks d @ [mk_check (next_rowid (map c_id (checks d))) (i, unixSec att, res)]\<rparr>)"
  by (simp add: InsertCheck_def)

lemma OpenIncident_healthy:
  assumes "healthy d" and "target_exists i d" and "current d i = None"
  shows "OpenIncident i s w d = (Inr (next_rowid (map i_id (incidents d))),
     d\<lparr>incidents := incidents d @ [mk_incident (next_rowid (map i_id (incidents d))) (i, unixSec s, w)]\<rparr>)"
  using assms by (simp add: OpenIncident_def current_def open_of_None Let_def)

lemma CloseIncident_healthy:
  assumes "healthy d" and "db_ok d" and "current d i = Some n"
  shows "CloseIncident n a d = (Inr (), d\<lparr>incidents := update_where (\<lambda>r. i_id r = n \<and> i_ended r = None)
     (\<lambda>r. r\<lparr>i_ended := Some (unixSec a)\<rparr>) (incidents d)\<rparr>)"
proof -
  have "\<exists>r \<in> set (incidents d). i_id r = n \<and> i_ended r = None"
    using assms(3) open_of_Some [OF db_okD(10) [OF assms(2)]] by (auto simp: current_def open_at_def)
  then have "count_where (\<lambda>r. i_id r = n \<and> i_ended r = None) (incidents d) \<noteq> 0" by (simp add: count_where_zero)
  then show ?thesis using assms(1) by (simp add: CloseIncident_def)
qed

section \<open>A history of rounds\<close>

fun rounds :: "'w mail_fn option \<Rightarrow> Target \<Rightarrow> (time \<times> Result) list \<Rightarrow> state \<times> 'w Manager \<Rightarrow> state \<times> 'w Manager" where
  "rounds mail t [] s = s"
| "rounds mail t ((att, res) # bs) s = rounds mail t bs (round_end mail att t att res (fst s) (snd s))"

definition obs_of :: "time \<times> Result \<Rightarrow> obs" where
  "obs_of b = \<lparr>ob_ok = res_OK (snd b), ob_err = res_Err (snd b), ob_at = fst b\<rparr>"

definition check_log :: "int \<Rightarrow> db \<Rightarrow> check_row list" where
  "check_log i d = filter (\<lambda>c. c_target c = i) (checks d)"

definition end_incident :: "int \<Rightarrow> time \<Rightarrow> incident_row list \<Rightarrow> incident_row list" where
  "end_incident n a rs = update_where (\<lambda>r. i_id r = n \<and> i_ended r = None) (\<lambda>r. r\<lparr>i_ended := Some (unixSec a)\<rparr>) rs"

lemma log_rows_end:
  "log_rows i (d\<lparr>incidents := end_incident n a (incidents d)\<rparr>) = end_incident n a (log_rows i d)"
proof -
  have "map unmarked (filter (\<lambda>r. i_target r = i) (end_incident n a rs)) =
      end_incident n a (map unmarked (filter (\<lambda>r. i_target r = i) rs))" for rs
    by (induction rs) (auto simp: end_incident_def update_where_simps unmarked_def)
  then show ?thesis by (simp add: log_rows_def target_incidents_def)
qed

text \<open>The state a round ends with: the machine's, up to the number of a new incident.\<close>

definition agrees :: "state \<Rightarrow> state \<Rightarrow> bool" where
  "agrees s s' \<longleftrightarrow> s' = s\<lparr>incident := incident s'\<rparr>"

lemma tracks_agrees: "agrees s s' \<Longrightarrow> tracks thr bs s \<Longrightarrow> tracks thr bs s'"
  unfolding agrees_def tracks_def
  by (metis (no_types, lifting) state.select_convs(1-5) state.surjective state.update_convs(6))

definition log_current :: "int \<Rightarrow> state \<Rightarrow> db \<Rightarrow> bool" where
  "log_current i st d \<longleftrightarrow> current d i = (if isOpen st then Some (incident st) else None)"

definition new_check :: "int \<Rightarrow> time \<Rightarrow> Result \<Rightarrow> db \<Rightarrow> check_row" where
  "new_check i att res d = mk_check (next_rowid (map c_id (checks d))) (i, unixSec att, res)"

definition round_log :: "int \<Rightarrow> event \<Rightarrow> time \<Rightarrow> state \<Rightarrow> state \<Rightarrow> incident_row list \<Rightarrow> incident_row list" where
  "round_log i ev att st st' rs =
     (case ev of
        EvNone \<Rightarrow> rs
      | EvDown \<Rightarrow> rs @ [mk_incident (incident st') (i, unixSec (startedAt st'), cause st')]
      | EvUp \<Rightarrow> end_incident (incident st) att rs)"

lemma unmarked_new [simp]: "unmarked (mk_incident n c) = mk_incident n c"
  by (simp add: unmarked_def mk_incident_def split: prod.split)

lemma InsertCheck_working:
  assumes "working i m"
  shows "\<exists>d. on_store (InsertCheck i att res) (record_stat i att res m) = (Inr (), (record_stat i att res m)\<lparr>m_store := d\<rparr>) \<and>
    d = (m_store m)\<lparr>checks := checks (m_store m) @ [new_check i att res (m_store m)]\<rparr> \<and> db_ok d"
proof -
  have "m_store (record_stat i att res m) = m_store m" by (simp add: record_stat_def Let_def)
  then show ?thesis
    using assms InsertCheck_healthy [of "m_store m" i att res] InsertCheck_keeps [of "m_store m" i att res]
    by (simp add: working_def on_store_def new_check_def)
qed

lemma round_down_working:
  assumes "working (ID t) m" and "current (m_store m) (ID t) = None" and "round_down mail now t nst m = (st', m')"
    and "isOpen nst"
  shows "working (ID t) m'" "agrees nst st'" "log_current (ID t) st' (m_store m')" "checks (m_store m') = checks (m_store m)"
    "log_rows (ID t) (m_store m') =
       log_rows (ID t) (m_store m) @ [mk_incident (incident st') (ID t, unixSec (startedAt st'), cause st')]"
proof -
  let ?n = "next_rowid (map i_id (incidents (m_store m)))"
  let ?d = "(m_store m)\<lparr>incidents := incidents (m_store m) @ [mk_incident ?n (ID t, unixSec (startedAt nst), cause nst)]\<rparr>"
  let ?inc = "\<lparr>inc_ID = ?n, inc_TargetID = ID t, inc_TargetName = Name t,
             inc_StartedAt = startedAt nst, inc_EndedAt = zeroTime, inc_Cause = cause nst,
             inc_MailedDown = False, inc_MailedUp = False\<rparr>"
  have op: "OpenIncident (ID t) (startedAt nst) (cause nst) (m_store m) = (Inr ?n, ?d)"
    using assms(1,2) by (intro OpenIncident_healthy) (simp_all add: working_def)
  have ok: "db_ok ?d" using log.inv_opn [of "m_store m" "ID t" "startedAt nst" "cause nst"] op assms(1) by (simp add: working_def)
  have cur: "current ?d (ID t) = Some ?n" using log.opened [OF _ op] assms(1) by (simp add: working_def)
  have w: "working (ID t) (m\<lparr>m_store := ?d\<rparr>)"
    using assms(1) ok by (simp add: working_def healthy_def target_exists_def)
  then have data: "same_data (ID t) (m\<lparr>m_store := ?d\<rparr>) (snd (notify mail now ?inc (m\<lparr>m_store := ?d\<rparr>)))"
    by (intro notify_data) (simp add: working_def)
  have res: "st' = nst\<lparr>incident := ?n\<rparr>" "m' = snd (notify mail now ?inc (m\<lparr>m_store := ?d\<rparr>))"
    using assms(3) op by (auto simp: round_down_def on_store_def)
  show "working (ID t) m'" "agrees nst st'" "log_current (ID t) st' (m_store m')" "checks (m_store m') = checks (m_store m)"
    "log_rows (ID t) (m_store m') =
       log_rows (ID t) (m_store m) @ [mk_incident (incident st') (ID t, unixSec (startedAt st'), cause st')]"
    using data w cur assms(4) unfolding res
    by (simp_all add: same_data_def agrees_def log_current_def log_rows_def target_incidents_def)
qed

lemma round_up_working:
  assumes "working (ID t) m" and "current (m_store m) (ID t) = Some (incident st)"
    and "round_up mail now t st att nst m = (st', m')" and "\<not> isOpen nst"
  shows "working (ID t) m'" "st' = nst" "log_current (ID t) st' (m_store m')" "checks (m_store m') = checks (m_store m)"
    "log_rows (ID t) (m_store m') = end_incident (incident st) att (log_rows (ID t) (m_store m))"
proof -
  let ?d = "(m_store m)\<lparr>incidents := end_incident (incident st) att (incidents (m_store m))\<rparr>"
  let ?inc = "\<lparr>inc_ID = incident st, inc_TargetID = ID t, inc_TargetName = Name t,
             inc_StartedAt = startedAt st, inc_EndedAt = att, inc_Cause = [],
             inc_MailedDown = False, inc_MailedUp = False\<rparr>"
  have ok0: "healthy (m_store m)" "db_ok (m_store m)" using assms(1) by (simp_all add: working_def)
  have op: "CloseIncident (incident st) att (m_store m) = (Inr (), ?d)"
    using CloseIncident_healthy [OF ok0 assms(2)] by (simp add: end_incident_def)
  have ok: "db_ok ?d" using log.inv_cls [OF ok0(2), of "incident st" att] op by simp
  have cur: "current ?d (ID t) = None"
    using log.closed [OF ok0(2) op] log.one_target [OF ok0(2) assms(2)] by auto
  have w: "working (ID t) (m\<lparr>m_store := ?d\<rparr>)"
    using assms(1) ok by (simp add: working_def healthy_def target_exists_def)
  then have data: "same_data (ID t) (m\<lparr>m_store := ?d\<rparr>) (snd (notify mail now ?inc (m\<lparr>m_store := ?d\<rparr>)))"
    by (intro notify_data) (simp add: working_def)
  have res: "st' = nst" "m' = snd (notify mail now ?inc (m\<lparr>m_store := ?d\<rparr>))"
    using assms(3) op by (auto simp: round_up_def on_store_def)
  show "working (ID t) m'" "st' = nst" "log_current (ID t) st' (m_store m')" "checks (m_store m') = checks (m_store m)"
    "log_rows (ID t) (m_store m') = end_incident (incident st) att (log_rows (ID t) (m_store m))"
    using data w cur assms(4) unfolding res by (simp_all add: same_data_def log_current_def log_rows_end)
qed

lemma round_end_working:
  assumes "working (ID t) m" and "log_current (ID t) st (m_store m)" and "round_end mail now t att res st m = (st', m')"
    and "next_state st (res_OK res) (res_Err res) att (FailThreshold t) = (nst, ev)"
  shows "working (ID t) m' \<and> agrees nst st' \<and> (ev \<noteq> EvDown \<longrightarrow> st' = nst) \<and> log_current (ID t) st' (m_store m') \<and>
    checks (m_store m') = checks (m_store m) @ [new_check (ID t) att res (m_store m)] \<and>
    log_rows (ID t) (m_store m') = round_log (ID t) ev att st st' (log_rows (ID t) (m_store m))"
proof -
  define m2 where "m2 = snd (on_store (InsertCheck (ID t) att res) (record_stat (ID t) att res m))"
  obtain d where d: "m_store m2 = d"
    "d = (m_store m)\<lparr>checks := checks (m_store m) @ [new_check (ID t) att res (m_store m)]\<rparr>" "db_ok d"
    using InsertCheck_working [OF assms(1), of att res] by (auto simp: m2_def)
  have w: "working (ID t) m2" using assms(1) d by (simp add: working_def healthy_def target_exists_def)
  have cur: "current (m_store m2) = current (m_store m)" and rows: "log_rows (ID t) (m_store m2) = log_rows (ID t) (m_store m)"
    and ch: "checks (m_store m2) = checks (m_store m) @ [new_check (ID t) att res (m_store m)]"
    using d by (simp_all add: current_def log_rows_def target_incidents_def)
  have body: "(st', m') = (case ev of EvDown \<Rightarrow> round_down mail now t nst m2
          | EvUp \<Rightarrow> round_up mail now t st att nst m2 | EvNone \<Rightarrow> (nst, m2))"
    using assms(3,4) by (cases ev) (simp_all add: round_end_def m2_def Let_def)
  show ?thesis
  proof (cases ev)
    case EvNone
    then have "isOpen nst = isOpen st \<and> incident nst = incident st" using assms(4) next_state_none by simp
    then show ?thesis
      using body w EvNone assms(2) cur rows ch by (simp add: agrees_def log_current_def round_log_def)
  next
    case EvDown
    then have "isOpen nst" "\<not> isOpen st" using assms(4) by (auto simp: next_state_def Let_def split: if_splits)
    then have none: "current (m_store m2) (ID t) = None" and opn: "isOpen nst"
      using assms(2) cur by (simp_all add: log_current_def)
    have "round_down mail now t nst m2 = (st', m')" using body EvDown by simp
    from round_down_working [OF w none this opn] show ?thesis
      using rows ch EvDown by (simp add: round_log_def)
  next
    case EvUp
    then have "isOpen st" "\<not> isOpen nst" using assms(4) next_state_up by auto
    then have "current (m_store m2) (ID t) = Some (incident st)"
      using assms(2) cur by (simp add: log_current_def)
    moreover have "round_up mail now t st att nst m2 = (st', m')" using body EvUp by simp
    ultimately show ?thesis
      using round_up_working [OF w, of st mail now att nst st' m'] \<open>\<not> isOpen nst\<close> rows ch EvUp
      by (simp add: round_log_def agrees_def)
  qed
qed

section \<open>The log follows the history\<close>

text \<open>The seconds of the successful checks of a history.\<close>

definition ok_seconds :: "(time \<times> Result) list \<Rightarrow> int set" where
  "ok_seconds bs = {unixSec (fst b) | b. b \<in> set bs \<and> res_OK (snd b)}"

definition check_data :: "check_row \<Rightarrow> int \<times> bool \<times> string" where
  "check_data c = (c_at c, c_ok c, c_error c)"

definition logged_as :: "time \<times> Result \<Rightarrow> int \<times> bool \<times> string" where
  "logged_as b = (unixSec (fst b), res_OK (snd b), res_Err (snd b))"

definition rows_follow :: "(time \<times> Result) list \<Rightarrow> state \<Rightarrow> incident_row list \<Rightarrow> bool" where
  "rows_follow bs st rs \<longleftrightarrow>
     (\<forall>r \<in> set rs. case i_ended r of None \<Rightarrow> isOpen st \<and> i_id r = incident st \<and> i_started r = unixSec (startedAt st)
                                 | Some e \<Rightarrow> e \<in> ok_seconds bs)"

text \<open>How often the machine reported the target down.\<close>

definition downs :: "int \<Rightarrow> (time \<times> Result) list \<Rightarrow> nat" where
  "downs thr bs = length (filter (\<lambda>e. e = EvDown) (snd (run_obs thr init_state (map obs_of bs))))"

definition follows :: "Target \<Rightarrow> (time \<times> Result) list \<Rightarrow> state \<Rightarrow> 'w Manager \<Rightarrow> bool" where
  "follows t bs st m \<longleftrightarrow>
     working (ID t) m \<and> tracks (FailThreshold t) (map obs_of bs) st \<and> log_current (ID t) st (m_store m) \<and>
     map check_data (check_log (ID t) (m_store m)) = map logged_as bs \<and>
     sorted_wrt (<) (map c_id (check_log (ID t) (m_store m))) \<and>
     rows_follow bs st (log_rows (ID t) (m_store m)) \<and>
     length (log_rows (ID t) (m_store m)) = downs (FailThreshold t) bs"

lemma downs_snoc:
  assumes "1 \<le> thr" and "tracks thr (map obs_of bs) st"
  shows "downs thr (bs @ [b]) = downs thr bs + (if snd (observe thr (obs_of b) st) = EvDown then 1 else 0)"
  using observe_event [OF assms, of "obs_of b"] observe_event [OF assms(1) run_obs_tracks [OF assms(1)], of "obs_of b" "map obs_of bs"]
  by (simp add: downs_def run_obs_snoc split_beta Let_def)

lemma length_round_log: "length (round_log i ev att st st' rs) = length rs + (if ev = EvDown then 1 else 0)"
  by (cases ev) (simp_all add: round_log_def end_incident_def)

lemma ok_seconds_snoc: "ok_seconds (bs @ [b]) = (if res_OK (snd b) then insert (unixSec (fst b)) (ok_seconds bs) else ok_seconds bs)"
  by (cases b) (auto simp: ok_seconds_def)

lemma rows_follow_round:
  assumes "rows_follow bs st rs" and "next_state st (res_OK res) (res_Err res) att thr = (nst, ev)"
    and "agrees nst st'" and "ev \<noteq> EvDown \<longrightarrow> st' = nst"
  shows "rows_follow (bs @ [(att, res)]) st' (round_log i ev att st st' rs)"
proof (cases ev)
  case EvNone
  then have "isOpen st' = isOpen st" "incident st' = incident st" "startedAt st' = startedAt st"
    using assms(2,4) by (auto simp: next_state_def Let_def split: if_splits)
  then show ?thesis
    using assms(1) EvNone by (fastforce simp: rows_follow_def round_log_def ok_seconds_snoc split: option.splits)
next
  case EvDown
  then have "\<not> isOpen st" "isOpen nst" using assms(2) by (auto simp: next_state_def Let_def split: if_splits)
  moreover have "isOpen st' = isOpen nst" using assms(3) by (metis agrees_def state.select_convs(4) state.surjective state.update_convs(6))
  ultimately show ?thesis
    using assms(1) EvDown by (fastforce simp: rows_follow_def round_log_def ok_seconds_snoc split: option.splits)
next
  case EvUp
  then have ok: "res_OK res" using assms(2) by (auto simp: next_state_def Let_def split: if_splits)
  have "case i_ended r of None \<Rightarrow> False | Some e \<Rightarrow> e \<in> ok_seconds (bs @ [(att, res)])"
    if mem: "r \<in> set (end_incident (incident st) att rs)" for r
  proof -
    obtain q where q: "q \<in> set rs"
      "r = (if i_id q = incident st \<and> i_ended q = None then q\<lparr>i_ended := Some (unixSec att)\<rparr> else q)"
      using mem unfolding end_incident_def update_where_def set_map by blast
    then show ?thesis
      using assms(1) ok by (auto simp: rows_follow_def ok_seconds_snoc split: option.splits if_splits)
  qed
  then show ?thesis using EvUp by (fastforce simp: rows_follow_def round_log_def split: option.splits)
qed

lemma check_log_snoc:
  "check_log i (d\<lparr>checks := checks d @ [new_check i att res d']\<rparr>) = check_log i d @ [new_check i att res d']"
  by (simp add: check_log_def new_check_def mk_check_def)

lemma follows_round:
  assumes "follows t bs st m" and "1 \<le> FailThreshold t" and "round_end mail now t att res st m = (st', m')"
  shows "follows t (bs @ [(att, res)]) st' m'"
proof -
  obtain nst ev where nx: "next_state st (res_OK res) (res_Err res) att (FailThreshold t) = (nst, ev)" by (rule prod.exhaust)
  have pre: "working (ID t) m" "log_current (ID t) st (m_store m)" "tracks (FailThreshold t) (map obs_of bs) st"
    "map check_data (check_log (ID t) (m_store m)) = map logged_as bs"
    "sorted_wrt (<) (map c_id (check_log (ID t) (m_store m)))" "rows_follow bs st (log_rows (ID t) (m_store m))"
    "length (log_rows (ID t) (m_store m)) = downs (FailThreshold t) bs"
    using assms(1) by (simp_all add: follows_def)
  note r = round_end_working [OF pre(1,2) assms(3) nx]
  have ob: "observe (FailThreshold t) (obs_of (att, res)) st = (nst, ev)"
    using nx by (simp add: observe_def obs_of_def)
  then have "tracks (FailThreshold t) (map obs_of (bs @ [(att, res)])) st'"
    using tracks_observe [OF assms(2) pre(3), of "obs_of (att, res)"] r tracks_agrees [of nst st'] by simp
  moreover have log: "check_log (ID t) (m_store m') = check_log (ID t) (m_store m) @ [new_check (ID t) att res (m_store m)]"
    using r by (simp add: check_log_def new_check_def mk_check_def)
  then have "map check_data (check_log (ID t) (m_store m')) = map logged_as (bs @ [(att, res)])"
    using pre(4) by (simp add: check_data_def logged_as_def new_check_def mk_check_def)
  moreover have "sorted_wrt (<) (map c_id (check_log (ID t) (m_store m')))"
    using pre(5) unfolding log
    by (auto simp: sorted_wrt_append new_check_def mk_check_def check_log_def intro!: next_rowid_greater)
  moreover have "rows_follow (bs @ [(att, res)]) st' (log_rows (ID t) (m_store m'))"
    using rows_follow_round [OF pre(6) nx] r by metis
  moreover have "length (log_rows (ID t) (m_store m')) = downs (FailThreshold t) (bs @ [(att, res)])"
    using downs_snoc [OF assms(2) pre(3), of "(att, res)"] ob pre(7) r by (simp add: length_round_log)
  ultimately show ?thesis using r unfolding follows_def by blast
qed

lemma follows_rounds:
  assumes "1 \<le> FailThreshold t" and "follows t bs (fst s) (snd s)"
  shows "follows t (bs @ cs) (fst (rounds mail t cs s)) (snd (rounds mail t cs s))"
  using assms(2)
proof (induction cs arbitrary: bs s)
  case (Cons c cs)
  obtain att res where c: "c = (att, res)" by (rule prod.exhaust)
  let ?s = "round_end mail att t att res (fst s) (snd s)"
  have "follows t (bs @ [c]) (fst ?s) (snd ?s)"
    unfolding c by (rule follows_round [OF Cons.prems assms(1) prod.collapse [symmetric]])
  from Cons.IH [OF this] show ?case using c by simp
qed simp

text \<open>A target without checks and without incidents.\<close>

definition fresh :: "Target \<Rightarrow> 'w Manager \<Rightarrow> bool" where
  "fresh t m \<longleftrightarrow> working (ID t) m \<and> check_log (ID t) (m_store m) = [] \<and> target_incidents (ID t) (m_store m) = []"

lemma follows_fresh:
  assumes "fresh t m" and "1 \<le> FailThreshold t"
  shows "follows t [] init_state m"
proof -
  have "current (m_store m) (ID t) = None"
    using assms(1) by (auto simp: fresh_def target_incidents_def current_def open_of_None list_ex_iff filter_empty_conv open_at_def)
  then show ?thesis
    using assms tracks_init [OF assms(2)]
    by (simp add: follows_def fresh_def log_current_def rows_follow_def log_rows_def downs_def init_state_def)
qed

text \<open>C3: Let a target without checks and incidents be checked over any history while the driver
  works, whatever happens to the mails. Then every check is stored in order; the target has an
  open incident exactly when the failures at the end of the history reached its threshold, dated
  at the first of them; every other incident ended at a successful check; and there are exactly
  as many incidents as times the machine reported the target down.\<close>

theorem incident_lifecycle:
  assumes "fresh t m" and "1 \<le> FailThreshold t" and "rounds mail t bs (init_state, m) = (st, m')"
  shows "map check_data (check_log (ID t) (m_store m')) = map logged_as bs \<and>
    (current (m_store m') (ID t) \<noteq> None \<longleftrightarrow> FailThreshold t \<le> int (length (streak (map obs_of bs)))) \<and>
    (\<forall>row \<in> set (target_incidents (ID t) (m_store m')).
       (case i_ended row of
          None \<Rightarrow> i_started row = unixSec (ob_at (hd (streak (map obs_of bs)))) \<and> current (m_store m') (ID t) = Some (i_id row)
        | Some e \<Rightarrow> e \<in> ok_seconds bs)) \<and>
    length (target_incidents (ID t) (m_store m')) = downs (FailThreshold t) bs"
proof -
  have f: "follows t bs st m'"
    using follows_rounds [OF assms(2), of "[]" "(init_state, m)" bs mail] follows_fresh [OF assms(1,2)] assms(3) by simp
  have row: "case i_ended row of
          None \<Rightarrow> i_started row = unixSec (ob_at (hd (streak (map obs_of bs)))) \<and> current (m_store m') (ID t) = Some (i_id row)
        | Some e \<Rightarrow> e \<in> ok_seconds bs" if mem: "row \<in> set (target_incidents (ID t) (m_store m'))" for row
  proof -
    have "unmarked row \<in> set (log_rows (ID t) (m_store m'))" using mem by (simp add: log_rows_def)
    then have "case i_ended (unmarked row) of
          None \<Rightarrow> isOpen st \<and> i_id (unmarked row) = incident st \<and> i_started (unmarked row) = unixSec (startedAt st)
        | Some e \<Rightarrow> e \<in> ok_seconds bs"
      using f by (auto simp: follows_def rows_follow_def)
    then show ?thesis
      using f by (auto simp: follows_def tracks_def log_current_def unmarked_def split: option.splits)
  qed
  then show ?thesis
    using f by (auto simp: follows_def tracks_def log_current_def log_rows_def)
qed

definition demo_manager :: "unit Manager" where
  "demo_manager = New (empty_db\<lparr>targets := [demo_target]\<rparr>) ()"

lemma demo_fresh: "fresh (scanTarget demo_target) demo_manager"
  by code_simp

theorem incident_lifecycle_witness:
  "let m' = snd (rounds (Some demo) (scanTarget demo_target) [(fromUnix 50, demo_result)] (init_state, demo_manager))
   in current (m_store m') 1 \<noteq> None \<and> length (target_incidents 1 (m_store m')) = 1"
proof -
  have "ID (scanTarget demo_target) = 1" "FailThreshold (scanTarget demo_target) = 1"
    "length (streak (map obs_of [(fromUnix 50, demo_result)])) = 1" "downs 1 [(fromUnix 50, demo_result)] = 1"
    by code_simp+
  then show ?thesis
    using incident_lifecycle [OF demo_fresh, of "Some demo" "[(fromUnix 50, demo_result)]", OF _ prod.collapse [symmetric]]
    by (simp add: Let_def)
qed

end
