(* ===== verification/Monitor_Restart.thy ===== *)
theory Monitor_Restart
  imports Monitor_Props
begin

text \<open>
  A restart of the service, or a reload of one target, forgets the runner's state; \<^verbatim>\<open>restore\<close>
  rebuilds it from the stored checks and incidents. After any history that the working store
  recorded, the rebuilt state is the lost one as far as every later report and every later
  write of the incident table is concerned.
\<close>

section \<open>What the queries return\<close>

lemma incidentSelect_fst:
  assumes "db_ok d" and "i \<in> set (incidents d)"
  obtains g where "(i, g) \<in> set (incidentSelect d)"
  using db_okD(11) [OF assms] assms(2) by (auto simp: target_exists_def incidentSelect_def)

lemma OpenIncidentFor_none:
  assumes "healthy d" and "current d i = None"
  shows "OpenIncidentFor i d = (Inl ErrNotFound, d)"
proof -
  have "find (\<lambda>(r, t). open_at i r) (incidentSelect d) = None"
    using assms(2) by (auto simp: find_None_iff incidentSelect_def current_def open_of_None list_ex_iff)
  then show ?thesis using assms(1) by (simp add: OpenIncidentFor_def)
qed

lemma OpenIncidentFor_some:
  assumes "healthy d" and "db_ok d" and "current d i = Some n"
  obtains inc row where "OpenIncidentFor i d = (Inr inc, d)" "inc_ID inc = n"
    "row \<in> set (incidents d)" "open_at i row" "inc_StartedAt inc = fromUnix (i_started row)"
proof -
  obtain row where row: "row \<in> set (incidents d)" "open_at i row" "i_id row = n"
    using assms(3) open_of_Some [OF db_okD(10) [OF assms(2)]] by (auto simp: current_def)
  obtain g where "(row, g) \<in> set (incidentSelect d)" by (rule incidentSelect_fst [OF assms(2) row(1)])
  then have "find (\<lambda>(r, t). open_at i r) (incidentSelect d) \<noteq> None" using row(2) by (auto simp: find_None_iff)
  then obtain x where f: "find (\<lambda>(r, t). open_at i r) (incidentSelect d) = Some x" by blast
  obtain r t where x: "x = (r, t)" by (rule prod.exhaust)
  have r: "r \<in> set (incidents d)" "open_at i r"
    using f x by (auto dest!: find_Some_mem simp: incidentSelect_def)
  have op: "OpenIncidentFor i d = (Inr (scanIncident (r, t)), d)" using assms(1) f x by (simp add: OpenIncidentFor_def)
  have "current d i = Some (inc_ID (scanIncident (r, t)))" by (rule OpenIncidentFor_current [OF op assms(2)])
  then have "inc_ID (scanIncident (r, t)) = n" using assms(3) by simp
  from that [OF op this r] show ?thesis by (simp add: scanIncident_def)
qed

lemma LastIncidentEnd_value:
  assumes "healthy d"
  obtains fin where "LastIncidentEnd i d = (Inr fin, d)"
    "fin = zeroTime \<or> (\<exists>r e. r \<in> set (incidents d) \<and> i_target r = i \<and> i_ended r = Some e \<and> fin = fromUnix e)"
proof -
  let ?es = "[e. r \<leftarrow> incidents d, i_target r = i, e \<leftarrow> (case i_ended r of Some e \<Rightarrow> [e] | None \<Rightarrow> [])]"
  have mem: "\<exists>r. r \<in> set (incidents d) \<and> i_target r = i \<and> i_ended r = Some e" if "e \<in> set ?es" for e
    using that by (auto split: option.splits)
  have "fold max es e \<in> set (e # es)" for e :: int and es
    by (induction es arbitrary: e) (auto simp: max_def)
  then have "fold max es e \<in> set ?es" if "?es = e # es" for e es using that by metis
  then show ?thesis
    using assms that mem by (cases ?es) (fastforce simp: LastIncidentEnd_def)+
qed

lemma LastChecks_value:
  assumes "healthy d" and "sorted_wrt (<) (map c_id (check_log i d))" and "sorted (map c_at (check_log i d))"
  shows "LastChecks i n d = (Inr (map scanCheck (limit_rows n (rev (check_log i d)))), d)"
proof -
  have "sorted_wrt (<) (map c_id cs) \<Longrightarrow> sorted (map c_at cs) \<Longrightarrow> sorted (map (\<lambda>c. (c_at c, c_id c)) cs)" for cs
    by (induction cs) (auto simp: less_eq_prod_def less_le)
  then have "sorted (map (\<lambda>c. (c_at c, c_id c)) (check_log i d))" using assms(2,3) by blast
  then have "sort_key (\<lambda>c. (c_at c, c_id c)) (check_log i d) = check_log i d" by (simp add: sort_key_id_if_sorted)
  then show ?thesis using assms(1) by (simp add: LastChecks_def check_log_def)
qed

section \<open>The rebuilt streak\<close>

definition fresh_fail :: "time \<Rightarrow> Check \<Rightarrow> bool" where
  "fresh_fail fin c \<longleftrightarrow> \<not> res_OK (chk_Result c) \<and> fin < chk_At c"

lemma restore_streak_run:
  "fails (restore_streak fin cs st) = fails st + int (length (takeWhile (fresh_fail fin) cs))"
  "takeWhile (fresh_fail fin) cs \<noteq> [] \<Longrightarrow>
     firstFail (restore_streak fin cs st) = chk_At (last (takeWhile (fresh_fail fin) cs))"
  "takeWhile (fresh_fail fin) cs = [] \<Longrightarrow> restore_streak fin cs st = st"
  by (induction cs arbitrary: st) (auto simp: fresh_fail_def)

lemma streak_split: "bs = take (length bs - length (streak bs)) bs @ streak bs"
proof -
  have "rev bs = takeWhile (\<lambda>b. \<not> ob_ok b) (rev bs) @ dropWhile (\<lambda>b. \<not> ob_ok b) (rev bs)" by simp
  then have "bs = rev (dropWhile (\<lambda>b. \<not> ob_ok b) (rev bs)) @ streak bs"
    unfolding streak_def by (metis rev_append rev_rev_ident)
  then show ?thesis by (metis append_eq_conv_conj append_same_eq length_append diff_add_inverse2 append_take_drop_id)
qed

lemma streak_fails: "b \<in> set (streak bs) \<Longrightarrow> \<not> ob_ok b"
  by (auto simp: streak_def dest: set_takeWhileD)

lemma streak_after_ok:
  assumes "sorted_wrt (\<lambda>a b. unixSec (ob_at a) < unixSec (ob_at b)) bs" and "b \<in> set (streak bs)"
    and "a \<in> set bs" and "ob_ok a"
  shows "unixSec (ob_at a) < unixSec (ob_at b)"
proof -
  let ?pre = "take (length bs - length (streak bs)) bs"
  have "a \<in> set ?pre \<or> a \<in> set (streak bs)" using streak_split [of bs] assms(3) by (metis Un_iff set_append)
  then have "a \<in> set ?pre" using streak_fails assms(4) by blast
  moreover have "sorted_wrt (\<lambda>a b. unixSec (ob_at a) < unixSec (ob_at b)) (?pre @ streak bs)"
    using assms(1) streak_split [of bs] by metis
  ultimately show ?thesis using assms(2) by (simp add: sorted_wrt_append)
qed

text \<open>A stored check shows the observation it came from, at the resolution of a second.\<close>

definition shows_obs :: "Check \<Rightarrow> obs \<Rightarrow> bool" where
  "shows_obs c b \<longleftrightarrow> chk_At c = fromUnix (unixSec (ob_at b)) \<and> res_OK (chk_Result c) = ob_ok b"

lemma scan_shows:
  assumes "map check_data rows = map logged_as bs"
  shows "list_all2 shows_obs (map scanCheck rows) (map obs_of bs)"
  using assms
proof (induction bs arbitrary: rows)
  case (Cons b bs)
  then show ?case by (cases rows) (auto simp: check_data_def logged_as_def shows_obs_def scanCheck_def obs_of_def)
qed simp

lemma takeWhile_related:
  assumes "list_all2 R cs bs" and "\<And>c b. R c b \<Longrightarrow> b \<in> set bs \<Longrightarrow> \<not> q b \<Longrightarrow> \<not> p c"
    and "\<And>c b. R c b \<Longrightarrow> b \<in> set (takeWhile q bs) \<Longrightarrow> p c"
  shows "list_all2 R (takeWhile p cs) (takeWhile q bs)"
  using assms
proof (induction rule: list_all2_induct)
  case (Cons c cs b bs)
  have "list_all2 R (takeWhile p cs) (takeWhile q bs)" if "q b"
    using Cons.prems that by (intro Cons.IH) auto
  then show ?case using Cons.hyps(1) Cons.prems(1) [of c b] Cons.prems(2) [of c b] by auto
qed simp

lemma restored_run:
  assumes shown: "list_all2 shows_obs cs (rev bs)"
    and late: "\<And>b. b \<in> set (streak bs) \<Longrightarrow> fin < fromUnix (unixSec (ob_at b))"
  shows "list_all2 shows_obs (takeWhile (fresh_fail fin) cs) (rev (streak bs))"
proof -
  have rv: "rev (streak bs) = takeWhile (\<lambda>b. \<not> ob_ok b) (rev bs)" by (simp add: streak_def)
  show ?thesis
    unfolding rv
  proof (rule takeWhile_related [OF shown])
    show "fresh_fail fin c" if "shows_obs c b" "b \<in> set (takeWhile (\<lambda>b. \<not> ob_ok b) (rev bs))" for c b
      using that late [of b] unfolding rv [symmetric]
      by (auto simp: shows_obs_def fresh_fail_def dest: streak_fails)
  qed (auto simp: shows_obs_def fresh_fail_def)
qed

lemma takeWhile_prefix: "takeWhile p (take n xs) = take n (takeWhile p xs)"
  by (induction xs arbitrary: n) (auto simp: take_Cons split: nat.splits)

section \<open>States that behave alike\<close>

text \<open>Equal as far as later reports and later writes can tell.\<close>

definition alike :: "state \<Rightarrow> state \<Rightarrow> bool" where
  "alike a b \<longleftrightarrow> isOpen a = isOpen b \<and>
     (isOpen a \<longrightarrow> unixSec (startedAt a) = unixSec (startedAt b)) \<and>
     (\<not> isOpen a \<longrightarrow> fails a = fails b \<and> (fails a \<noteq> 0 \<longrightarrow> unixSec (firstFail a) = unixSec (firstFail b)))"

lemma alike_observe:
  assumes "alike a b" and "0 \<le> fails a" and "0 \<le> fails b"
  shows "alike (fst (observe thr x a)) (fst (observe thr x b)) \<and> snd (observe thr x a) = snd (observe thr x b) \<and>
    0 \<le> fails (fst (observe thr x a)) \<and> 0 \<le> fails (fst (observe thr x b))"
  using assms by (auto simp: alike_def observe_def next_state_def Let_def)

lemma alike_run:
  "alike a b \<Longrightarrow> 0 \<le> fails a \<Longrightarrow> 0 \<le> fails b \<Longrightarrow>
   snd (run_obs thr a cs) = snd (run_obs thr b cs) \<and> alike (fst (run_obs thr a cs)) (fst (run_obs thr b cs))"
proof (induction cs arbitrary: a b)
  case (Cons c cs)
  then show ?case using alike_observe [of a b thr c] by (auto simp: split_beta Let_def)
qed simp

section \<open>Restart\<close>

definition distinct_seconds :: "(time \<times> Result) list \<Rightarrow> bool" where
  "distinct_seconds bs \<longleftrightarrow> sorted_wrt (\<lambda>a b. unixSec (fst a) < unixSec (fst b)) bs \<and> (\<forall>b \<in> set bs. 0 \<le> fst b)"

lemma working_queries:
  assumes "follows t bs st m" and "distinct_seconds bs" and "1 \<le> FailThreshold t"
  obtains fin where
    "on_store (LastIncidentEnd (ID t)) m = (Inr fin, m)"
    "\<forall>b \<in> set (streak (map obs_of bs)). fin < fromUnix (unixSec (ob_at b))"
    "on_store (LastChecks (ID t) (FailThreshold t)) m =
       (Inr (take (nat (FailThreshold t)) (map scanCheck (rev (check_log (ID t) (m_store m))))), m)"
proof -
  have h: "healthy (m_store m)" "db_ok (m_store m)"
    and log: "map check_data (check_log (ID t) (m_store m)) = map logged_as bs"
    and ids: "sorted_wrt (<) (map c_id (check_log (ID t) (m_store m)))"
    and rows: "rows_follow bs st (log_rows (ID t) (m_store m))"
    using assms(1) by (simp_all add: follows_def working_def)
  have srt: "sorted_wrt (\<lambda>a b. unixSec (ob_at a) < unixSec (ob_at b)) (map obs_of bs)"
    using assms(2) by (simp add: distinct_seconds_def sorted_wrt_map obs_of_def)
  have "map c_at (check_log (ID t) (m_store m)) = map (\<lambda>b. unixSec (fst b)) bs"
    using arg_cong [OF log, of "map fst"] by (simp add: comp_def check_data_def logged_as_def)
  moreover have "sorted (map (\<lambda>b. unixSec (fst b)) bs)"
    using assms(2) by (auto simp: distinct_seconds_def sorted_map intro: sorted_wrt_mono_rel [of bs "\<lambda>a b. unixSec (fst a) < unixSec (fst b)"])
  ultimately have "LastChecks (ID t) (FailThreshold t) (m_store m) =
      (Inr (map scanCheck (limit_rows (FailThreshold t) (rev (check_log (ID t) (m_store m))))), m_store m)"
    by (intro LastChecks_value [OF h(1) ids]) simp
  then have last: "on_store (LastChecks (ID t) (FailThreshold t)) m =
       (Inr (take (nat (FailThreshold t)) (map scanCheck (rev (check_log (ID t) (m_store m))))), m)"
    using assms(3) by (simp add: on_store_def limit_rows_def take_map)
  obtain fin where fin: "LastIncidentEnd (ID t) (m_store m) = (Inr fin, m_store m)"
    "fin = zeroTime \<or> (\<exists>r e. r \<in> set (incidents (m_store m)) \<and> i_target r = ID t \<and> i_ended r = Some e \<and> fin = fromUnix e)"
    by (rule LastIncidentEnd_value [OF h(1)])
  have "fin < fromUnix (unixSec (ob_at b))" if b: "b \<in> set (streak (map obs_of bs))" for b
    using fin(2)
  proof
    assume "fin = zeroTime"
    have "b \<in> set (map obs_of bs)" using b streak_split [of "map obs_of bs"] by (metis Un_iff set_append)
    then have "0 \<le> ob_at b" using assms(2) by (auto simp: obs_of_def distinct_seconds_def)
    then show ?thesis using \<open>fin = zeroTime\<close> by (simp add: time_defs)
  next
    assume "\<exists>r e. r \<in> set (incidents (m_store m)) \<and> i_target r = ID t \<and> i_ended r = Some e \<and> fin = fromUnix e"
    then obtain r e where r: "unmarked r \<in> set (log_rows (ID t) (m_store m))" "i_ended r = Some e" "fin = fromUnix e"
      by (auto simp: log_rows_def target_incidents_def)
    then have "e \<in> ok_seconds bs" using rows by (force simp: rows_follow_def unmarked_def)
    then obtain a where a: "a \<in> set bs" "res_OK (snd a)" "e = unixSec (fst a)" by (auto simp: ok_seconds_def)
    have "unixSec (ob_at (obs_of a)) < unixSec (ob_at b)"
      using a by (intro streak_after_ok [OF srt b]) (auto simp: obs_of_def)
    then show ?thesis using r(3) a(3) by (simp add: obs_of_def)
  qed
  then show ?thesis using that [OF _ _ last, of fin] fin(1) by (simp add: on_store_def)
qed

lemma restore_run_alike:
  assumes cs: "list_all2 shows_obs cs (rev bs)" and tr: "tracks thr bs st" and "1 \<le> thr"
    and late: "\<And>b. b \<in> set (streak bs) \<Longrightarrow> fin < fromUnix (unixSec (ob_at b))"
    and st0: "isOpen st0 = isOpen st" "fails st0 = 0"
      "isOpen st \<longrightarrow> incident st0 = incident st \<and> unixSec (startedAt st0) = unixSec (startedAt st)"
  shows "alike (restore_streak fin (take (nat thr) cs) st0) st \<and> 0 \<le> fails (restore_streak fin (take (nat thr) cs) st0)"
proof -
  let ?run = "takeWhile (fresh_fail fin) cs"
  have all: "list_all2 shows_obs ?run (rev (streak bs))" by (rule restored_run [OF cs late])
  then have len: "length ?run = length (streak bs)" by (metis length_rev list_all2_lengthD)
  have run: "takeWhile (fresh_fail fin) (take (nat thr) cs) = take (nat thr) ?run" by (rule takeWhile_prefix)
  let ?r = "restore_streak fin (take (nat thr) cs) st0"
  have fails: "fails ?r = int (min (nat thr) (length (streak bs)))"
    using restore_streak_run(1) [of fin "take (nat thr) cs" st0] st0(2) run len by simp
  have first: "unixSec (firstFail ?r) = unixSec (firstFail st)" if "\<not> isOpen st" "fails ?r \<noteq> 0"
  proof -
    have short: "int (length (streak bs)) < thr" using tr that(1) by (simp add: tracks_def)
    then have whole: "take (nat thr) ?run = ?run" using len by simp
    have ne: "?run \<noteq> []" using that(2) fails len by (cases ?run) auto
    have sne: "streak bs \<noteq> []" using ne len by auto
    have "shows_obs (last ?run) (last (rev (streak bs)))"
      using list_all2_conv_all_nth [of shows_obs ?run "rev (streak bs)"] all ne sne len by (auto simp: last_conv_nth)
    then have "chk_At (last ?run) = fromUnix (unixSec (ob_at (hd (streak bs))))"
      using sne by (simp add: shows_obs_def last_rev)
    moreover have "firstFail ?r = chk_At (last ?run)"
      using restore_streak_run(2) [of fin "take (nat thr) cs" st0] run whole ne by simp
    ultimately show ?thesis using tr sne by (simp add: tracks_def)
  qed
  have "fails ?r = fails st" if "\<not> isOpen st" using tr that fails by (simp add: tracks_def min_def nat_le_iff)
  then show ?thesis using first st0 fails by (simp add: alike_def)
qed

lemma working_open:
  assumes "follows t bs st m"
  obtains r1 st0 where "on_store (OpenIncidentFor (ID t)) m = (r1, m)"
    "st0 = (case r1 of Inr inc \<Rightarrow> init_state\<lparr>isOpen := True, startedAt := inc_StartedAt inc, incident := inc_ID inc\<rparr>
                | Inl _ \<Rightarrow> init_state)"
    "isOpen st0 = isOpen st" "fails st0 = 0"
    "isOpen st \<longrightarrow> incident st0 = incident st \<and> unixSec (startedAt st0) = unixSec (startedAt st)"
proof (cases "isOpen st")
  case False
  then have "current (m_store m) (ID t) = None" "healthy (m_store m)"
    using assms by (simp_all add: follows_def log_current_def working_def)
  from OpenIncidentFor_none [OF this(2,1)] show ?thesis
    using False by (intro that [of "Inl ErrNotFound" init_state]) (simp_all add: on_store_def init_state_def)
next
  case True
  then have h: "current (m_store m) (ID t) = Some (incident st)" "healthy (m_store m)" "db_ok (m_store m)"
    using assms by (simp_all add: follows_def log_current_def working_def)
  obtain inc row where inc: "OpenIncidentFor (ID t) (m_store m) = (Inr inc, m_store m)" "inc_ID inc = incident st"
    "row \<in> set (incidents (m_store m))" "open_at (ID t) row" "inc_StartedAt inc = fromUnix (i_started row)"
    by (rule OpenIncidentFor_some [OF h(2,3,1)])
  have "unmarked row \<in> set (log_rows (ID t) (m_store m))"
    using inc(3,4) by (simp add: log_rows_def target_incidents_def open_at_def)
  then have "i_started row = unixSec (startedAt st)"
    using assms inc(4) by (force simp: follows_def rows_follow_def unmarked_def open_at_def)
  then show ?thesis
    using True inc by (intro that [of "Inr inc" "init_state\<lparr>isOpen := True, startedAt := inc_StartedAt inc, incident := inc_ID inc\<rparr>"])
      (simp_all add: on_store_def init_state_def)
qed

text \<open>C5: After any history that a working store recorded, with no two checks in the same second,
  the state that a restarted runner rebuilds from the store behaves like the state of the runner
  that was lost: it is open for the same incident or holds the same number of failures, and
  whatever the following checks find, it reports the same events. Rebuilding it writes nothing.\<close>

theorem restart_transparent:
  assumes "fresh t m" and "1 \<le> FailThreshold t" and "distinct_seconds bs"
    and "rounds mail t bs (init_state, m) = (st, m1)" and "restore t m1 = (st', m2)"
  shows "isOpen st' = isOpen st \<and> (isOpen st \<longrightarrow> incident st' = incident st) \<and>
    (\<not> isOpen st \<longrightarrow> fails st' = fails st) \<and>
    snd (run_obs (FailThreshold t) st' cs) = snd (run_obs (FailThreshold t) st cs) \<and> m_store m2 = m_store m1"
proof -
  have f: "follows t bs st m1"
    using follows_rounds [OF assms(2), of "[]" "(init_state, m)" bs mail] follows_fresh [OF assms(1,2)] assms(4) by simp
  then have tr: "tracks (FailThreshold t) (map obs_of bs) st"
    and log: "map check_data (check_log (ID t) (m_store m1)) = map logged_as bs"
    by (simp_all add: follows_def)
  obtain fin where fin: "on_store (LastIncidentEnd (ID t)) m1 = (Inr fin, m1)"
    "\<forall>b \<in> set (streak (map obs_of bs)). fin < fromUnix (unixSec (ob_at b))"
    and lst: "on_store (LastChecks (ID t) (FailThreshold t)) m1 =
       (Inr (take (nat (FailThreshold t)) (map scanCheck (rev (check_log (ID t) (m_store m1))))), m1)"
    by (rule working_queries [OF f assms(3,2)])
  obtain r1 st0 where op: "on_store (OpenIncidentFor (ID t)) m1 = (r1, m1)"
    and st0: "st0 = (case r1 of Inr inc \<Rightarrow> init_state\<lparr>isOpen := True, startedAt := inc_StartedAt inc, incident := inc_ID inc\<rparr>
                | Inl _ \<Rightarrow> init_state)"
    and like: "isOpen st0 = isOpen st" "fails st0 = 0"
      "isOpen st \<longrightarrow> incident st0 = incident st \<and> unixSec (startedAt st0) = unixSec (startedAt st)"
    by (rule working_open [OF f])
  have shown: "list_all2 shows_obs (map scanCheck (rev (check_log (ID t) (m_store m1)))) (rev (map obs_of bs))"
    using scan_shows [OF log] by (simp add: rev_map [symmetric])
  have st': "st' = restore_streak fin (take (nat (FailThreshold t)) (map scanCheck (rev (check_log (ID t) (m_store m1))))) st0"
    and "m_store m2 = m_store m1"
    using assms(5) op fin(1) lst st0 by (auto simp: restore_def Let_def)
  moreover have al: "alike st' st" "0 \<le> fails st'"
    using restore_run_alike [OF shown tr assms(2) _ like, of fin] fin(2) st' by simp_all
  moreover have "0 \<le> fails st" using tr by (simp add: tracks_def)
  moreover have "isOpen st \<Longrightarrow> incident st' = incident st" using st' like(3) by simp
  ultimately show ?thesis using alike_run [of st' st "FailThreshold t" cs] by (auto simp: alike_def)
qed

theorem restart_transparent_witness:
  "let (st, m1) = rounds (Some demo) (scanTarget demo_target) [(fromUnix 50, demo_result)] (init_state, demo_manager)
   in isOpen (fst (restore (scanTarget demo_target) m1)) = isOpen st"
proof -
  have "1 \<le> FailThreshold (scanTarget demo_target)" "distinct_seconds [(fromUnix 50, demo_result)]" by code_simp+
  note restart_transparent [OF demo_fresh this, of "Some demo", OF prod.collapse [symmetric] prod.collapse [symmetric]]
  then show ?thesis by (simp add: split_beta Let_def)
qed

end
