(* ===== verification/Monitor_Ops.thy ===== *)
theory Monitor_Ops
  imports Monitor_Restart
begin

text \<open>
  The manager's operations on every branch, the retry of mails, and what a failing driver does
  to a target that is being reloaded or restored.
\<close>

section \<open>Reload and delete\<close>

definition fresh_runner :: "Target \<Rightarrow> runner" where
  "fresh_runner t = \<lparr>r_target = t, r_state = init_state, r_phase = Starting, r_nudged = zeroTime\<rparr>"

lemma m_runners_stop: "m_runners (stop i m) = (m_runners m)(i := None)"
  by (auto simp: stop_def release_def split: option.split phase.split)

lemma stop_store [simp]: "m_store (stop i m) = m_store m" "m_done (stop i m) = m_done m" "m_stats (stop i m) = m_stats m"
  by (auto simp: stop_def release_def split: option.split phase.split)

lemma StoreTarget_healthy:
  "healthy d \<Longrightarrow> StoreTarget i d = ((case find_row ID i (targets d) of None \<Rightarrow> Inl ErrNotFound | Some r \<Rightarrow> Inr (scanTarget r)), d)"
  by (simp add: StoreTarget_def split: option.split)

lemma scanTarget_Paused [simp]: "Paused (scanTarget r) = Paused r"
  by (simp add: scanTarget_def)

lemma Reload_healthy:
  assumes "healthy (m_store m)" and "db_ok (m_store m)"
  shows "m_runners (snd (Reload now i m)) =
      (m_runners m)(i := (case find_row ID i (targets (m_store m)) of
         None \<Rightarrow> None
       | Some r \<Rightarrow> if Paused r \<or> m_done m then None else Some (fresh_runner (scanTarget r)))) \<and>
    fst (Reload now i m) = (if target_exists i (m_store m) then Inr () else Inl ErrNotFound) \<and>
    current (m_store (snd (Reload now i m))) =
      (if \<exists>r. find_row ID i (targets (m_store m)) = Some r \<and> Paused r
       then (current (m_store m))(i := None) else current (m_store m))"
proof (cases "find_row ID i (targets (m_store m))")
  case None
  then have "\<not> target_exists i (m_store m)" by (auto simp: find_row_def find_None_iff target_exists_def)
  then show ?thesis
    using None StoreTarget_healthy [OF assms(1), of i]
    by (auto simp: Reload_def on_store_def m_runners_stop)
next
  case (Some r)
  then have r: "ID r = i" "target_exists i (m_store m)"
    by (auto simp: find_row_def target_exists_def dest!: find_Some_mem)
  show ?thesis
  proof (cases "Paused r")
    case True
    obtain d1 where cl: "ClosePausedIncident now i (m_store m) = (Inr (), d1)"
      using assms(1) by (simp add: ClosePausedIncident_def)
    moreover from cl have "current d1 = (current (m_store m))(i := None)"
      using ClosePausedIncident_current [OF assms(2), where now = now and t = i] by simp
    ultimately show ?thesis
      using Some True r StoreTarget_healthy [OF assms(1), of i]
      by (simp add: Reload_def on_store_def m_runners_stop)
  next
    case False
    have "ID (scanTarget r) = i" using r(1) by (simp add: scanTarget_def)
    then show ?thesis
      using Some False r StoreTarget_healthy [OF assms(1), of i]
      by (simp add: Reload_def on_store_def m_runners_stop start_def fresh_runner_def)
  qed
qed

text \<open>With a working driver a reload stops the target's runner and then: reports an unknown
  target; ends the open incident of a paused target, without a mail to follow; or starts a
  runner with the target's new settings, unless the service is shutting down. No other runner is
  touched.\<close>

lemma reload_effect:
  assumes "healthy (m_store m)" and "db_ok (m_store m)"
  shows "m_runners (snd (Reload now i m)) =
      (m_runners m)(i := (case find_row ID i (targets (m_store m)) of
         None \<Rightarrow> None
       | Some r \<Rightarrow> if Paused r \<or> m_done m then None else Some (fresh_runner (scanTarget r)))) \<and>
    fst (Reload now i m) = (if target_exists i (m_store m) then Inr () else Inl ErrNotFound) \<and>
    current (m_store (snd (Reload now i m))) =
      (if \<exists>r. find_row ID i (targets (m_store m)) = Some r \<and> Paused r
       then (current (m_store m))(i := None) else current (m_store m))"
  using assms by (rule Reload_healthy)

text \<open>C39: When loading the target fails in the driver, a reload returns that error and leaves the
  target without a runner, even though it exists and is not paused: nothing checks it until the
  next reload or restart. A delete that fails in the same way starts the runner again.\<close>

theorem reload_fault_unmonitored:
  assumes "faults (m_store m) = [True]" and "find_row ID i (targets (m_store m)) = Some r" and "\<not> Paused r" and "\<not> m_done m"
  shows "fst (Reload now i m) = Inl ErrDriver \<and> m_runners (snd (Reload now i m)) i = None \<and>
    fst (Delete i m) = Inl ErrDriver \<and> m_runners (snd (Delete i m)) i = Some (fresh_runner (scanTarget r))"
proof -
  have id: "ID (scanTarget r) = i" using assms(2) by (auto simp: find_row_def scanTarget_def dest!: find_Some_mem)
  have "StoreTarget i (m_store m) = (Inl ErrDriver, (m_store m)\<lparr>faults := []\<rparr>)"
    "DeleteTarget i (m_store m) = (Inl ErrDriver, (m_store m)\<lparr>faults := []\<rparr>)"
    using assms(1) by (simp_all add: StoreTarget_def DeleteTarget_def exec_def)
  moreover have "StoreTarget i ((m_store m)\<lparr>faults := []\<rparr>) = (Inr (scanTarget r), (m_store m)\<lparr>faults := []\<rparr>)"
    using assms(2) StoreTarget_healthy [of "(m_store m)\<lparr>faults := []\<rparr>" i] by (simp add: healthy_def)
  ultimately show ?thesis
    using assms(3,4) id
    by (simp add: Reload_def Delete_def on_store_def m_runners_stop start_def fresh_runner_def)
qed

definition faulty_demo :: "unit Manager" where "faulty_demo = demo5\<lparr>m_store := (m_store demo5)\<lparr>faults := [True]\<rparr>\<rparr>"

theorem reload_fault_unmonitored_witness:
  "m_runners faulty_demo 1 \<noteq> None \<and> m_runners (snd (Reload 0 1 faulty_demo)) 1 = None"
proof -
  have "m_runners faulty_demo 1 \<noteq> None" "faults (m_store faulty_demo) = [True]" "\<not> m_done faulty_demo"
    "find_row ID 1 (targets (m_store faulty_demo)) = Some demo_target" "\<not> Paused demo_target"
    by code_simp+
  then show ?thesis using reload_fault_unmonitored [of faulty_demo 1 demo_target 0] by simp
qed

text \<open>Deleting a target with a working driver stops its runner, removes the target with its
  checks, hours and incidents and its gauge, and touches nothing of any other target.\<close>

lemma delete_effect:
  assumes "healthy (m_store m)"
  shows "m_runners (snd (Delete i m)) = (m_runners m)(i := None) \<and>
    fst (Delete i m) = (if target_exists i (m_store m) then Inr () else Inl ErrNotFound) \<and>
    (target_exists i (m_store m) \<longrightarrow> m_stats (snd (Delete i m)) = (m_stats m)(i := None)) \<and>
    targets (m_store (snd (Delete i m))) = filter (\<lambda>r. ID r \<noteq> i) (targets (m_store m)) \<and>
    checks (m_store (snd (Delete i m))) = filter (\<lambda>r. c_target r \<noteq> i) (checks (m_store m)) \<and>
    hourly (m_store (snd (Delete i m))) = filter (\<lambda>r. h_target r \<noteq> i) (hourly (m_store m)) \<and>
    incidents (m_store (snd (Delete i m))) = filter (\<lambda>r. i_target r \<noteq> i) (incidents (m_store m))"
proof -
  have "count_where (\<lambda>r. ID r = i) (targets (m_store m)) = 0 \<longleftrightarrow> \<not> target_exists i (m_store m)"
    by (auto simp: count_where_zero target_exists_def)
  then show ?thesis
    using assms
    by (auto simp: Delete_def on_store_def DeleteTarget_def m_runners_stop affected_def delete_where_def)
qed

section \<open>A nudge\<close>

text \<open>A request to check a target now is accepted exactly when the target has a runner that
  was not nudged within the last ten seconds; it changes something only when that runner is
  waiting, and then only queues it and notes the time.\<close>

lemma check_now_effect:
  "CheckNow now i m = (b, m') \<Longrightarrow>
   (b \<longleftrightarrow> (\<exists>r. m_runners m i = Some r \<and> (r_nudged r = zeroTime \<or> 10 * second \<le> now - r_nudged r))) \<and>
   (m' \<noteq> m \<longrightarrow> b \<and> (\<exists>r. m_runners m i = Some r \<and> r_phase r = Waiting \<and>
      m' = m\<lparr>m_runners := (m_runners m)(i \<mapsto> r\<lparr>r_phase := Queued, r_nudged := now\<rparr>)\<rparr>))"
proof -
  assume c: "CheckNow now i m = (b, m')"
  have gap: "subTime now u < checkNowGap \<longleftrightarrow> \<not> 10 * second \<le> now - u" for u
    using subTime_less_iff [of checkNowGap now u] by (auto simp: checkNowGap_def time_defs)
  show ?thesis
  proof (cases "m_runners m i")
    case None
    then show ?thesis using c by (simp add: CheckNow_def)
  next
    case (Some r)
    then show ?thesis
      using c by (auto simp: CheckNow_def gap isZero_def split: if_splits)
  qed
qed

section \<open>A state restored from a failing store\<close>

text \<open>C40: When the query for the open incident fails in the driver, the runner starts as if there
  was none. A successful check then does not end the incident, although the target is up: it
  stays open in the store.\<close>

theorem restore_fault_strands:
  assumes "db_ok (m_store m)" and "faults (m_store m) = [True]" and "current (m_store m) (ID t) = Some n"
    and "restore t m = (st, m1)" and "res_OK res" and "round_end mail now t att res st m1 = (st', m2)"
  shows "\<not> isOpen st \<and> \<not> isOpen st' \<and> current (m_store m2) (ID t) = Some n"
proof -
  have "on_store (OpenIncidentFor (ID t)) m = (Inl ErrDriver, m\<lparr>m_store := (m_store m)\<lparr>faults := []\<rparr>\<rparr>)"
    using assms(2) by (simp add: on_store_def OpenIncidentFor_def exec_def)
  then have closed: "\<not> isOpen st"
    using assms(4) by (auto simp: restore_def Let_def init_state_def split: prod.splits)
  have sil: "silent m m1" using restore_backed [OF assms(4,1)] by simp
  obtain nst ev where nx: "next_state st (res_OK res) (res_Err res) att (FailThreshold t) = (nst, ev)" by (rule prod.exhaust)
  then have ev: "ev = EvNone" "\<not> isOpen nst" using assms(5) closed by (auto simp: next_state_def Let_def)
  define m3 where "m3 = snd (on_store (InsertCheck (ID t) att res) (record_stat (ID t) att res m1))"
  have "silent m1 m3"
    unfolding m3_def by (rule silent_trans [OF record_stat_silent on_store_silent]) simp
  then have "silent m m3" using sil silent_trans by blast
  moreover have "(st', m2) = (nst, m3)" using assms(6) nx ev by (simp add: round_end_def m3_def Let_def)
  ultimately show ?thesis using closed ev assms(1,3) by (simp add: silent_def)
qed

definition demo_up :: Result where "demo_up = demo_result\<lparr>res_OK := True, res_Err := []\<rparr>"

theorem restore_fault_strands_witness:
  "current (m_store (snd (round_end (Some demo) 0 (scanTarget demo_target) 0 demo_up
      (fst (restore (scanTarget demo_target) faulty_demo)) (snd (restore (scanTarget demo_target) faulty_demo))))) 1 = Some 1"
proof -
  have "db_ok (m_store faulty_demo)" "faults (m_store faulty_demo) = [True]" "ID (scanTarget demo_target) = 1"
    "current (m_store faulty_demo) (ID (scanTarget demo_target)) = Some 1" "res_OK demo_up"
    by code_simp+
  then show ?thesis
    using restore_fault_strands [of faulty_demo "scanTarget demo_target" 1,
        OF _ _ _ prod.collapse [symmetric] _ prod.collapse [symmetric], of demo_up "Some demo" 0 0] by simp
qed

section \<open>Retrying mails\<close>

text \<open>The mail function with a log of what it was asked and how it went.\<close>

definition logging :: "'w mail_fn \<Rightarrow> ('w \<times> (mailKey \<times> (mail_err + unit)) list) mail_fn" where
  "logging f now inc wl =
     (case f now inc (fst wl) of (r, w) \<Rightarrow> (r, (w, snd wl @ [((inc_ID inc, \<not> incident_Open inc), r)])))"

definition retry_key :: "Incident \<Rightarrow> mailKey" where "retry_key inc = (inc_ID inc, \<not> incident_Open inc)"

definition to_mail :: "Incident list \<Rightarrow> Incident list" where
  "to_mail incs = filter (\<lambda>inc. incident_Open inc \<or> \<not> inc_MailedUp inc) incs"

text \<open>The entry of one key after a retry that attempted \<open>es\<close>.\<close>

definition next_pending :: "bool option \<Rightarrow> mailKey \<Rightarrow> (mailKey \<times> (mail_err + unit)) list \<Rightarrow> bool" where
  "next_pending p k es = (case p of None \<Rightarrow> False | Some True \<Rightarrow> True | Some False \<Rightarrow> (k, Inl ErrLimit) \<notin> set es)"

lemma notify_logging:
  obtains r m1 where "notify (Some (logging f)) now inc m = (r, m1)" "m_pending m1 = m_pending m"
    "snd (m_world m1) = snd (m_world m) @ [(retry_key inc, r)]"
proof -
  obtain r w where f: "f now inc (fst (m_world m)) = (r, w)" by (rule prod.exhaust)
  show ?thesis
  proof (cases r)
    case (Inl e)
    then show ?thesis using f that by (simp add: notify_def logging_def retry_key_def)
  next
    case (Inr u)
    then show ?thesis using f that by (simp add: notify_def logging_def retry_key_def on_store_def split_beta)
  qed
qed

lemma retry_loop_log:
  assumes "distinct (map inc_ID incs)" and "retry_loop (Some (logging f)) now incs p m = (p', m')"
  shows "\<exists>es. snd (m_world m') = snd (m_world m) @ es \<and>
     map fst es = filter (\<lambda>k. m_pending m k = Some False) (map retry_key (to_mail incs)) \<and>
     (\<forall>k. p' k = (if k \<in> set (map retry_key (to_mail incs)) then Some (next_pending (m_pending m k) k es) else p k))"
  using assms
proof (induction incs arbitrary: p m)
  case Nil
  then show ?case by (simp add: to_mail_def)
next
  case (Cons inc incs)
  let ?k = "retry_key inc"
  have new: "?k \<notin> set (map retry_key (to_mail incs))"
    using Cons.prems(1) by (auto simp: retry_key_def to_mail_def)
  show ?case
  proof (cases "\<not> incident_Open inc \<and> inc_MailedUp inc")
    case True
    then show ?thesis using Cons by (simp add: to_mail_def)
  next
    case False
    then have todo: "to_mail (inc # incs) = inc # to_mail incs" by (auto simp: to_mail_def)
    have unfold: "retry_loop (Some (logging f)) now (inc # incs) p m =
        (case m_pending m ?k of
           Some False \<Rightarrow> (case notify (Some (logging f)) now inc m of
             (r, m1) \<Rightarrow> retry_loop (Some (logging f)) now incs (p(?k \<mapsto> r \<noteq> Inl ErrLimit)) m1)
         | Some True \<Rightarrow> retry_loop (Some (logging f)) now incs (p(?k \<mapsto> True)) m
         | None \<Rightarrow> retry_loop (Some (logging f)) now incs (p(?k \<mapsto> False)) m)"
      by (simp only: retry_loop.simps if_not_P [OF False] Let_def retry_key_def)
    consider (wait) b where "m_pending m ?k = None \<and> b = False \<or> m_pending m ?k = Some True \<and> b = True"
        "retry_loop (Some (logging f)) now incs (p(?k \<mapsto> b)) m = (p', m')"
      | (mail) r m1 where "m_pending m ?k = Some False" "m_pending m1 = m_pending m"
          "snd (m_world m1) = snd (m_world m) @ [(?k, r)]"
          "retry_loop (Some (logging f)) now incs (p(?k \<mapsto> r \<noteq> Inl ErrLimit)) m1 = (p', m')"
    proof (cases "m_pending m ?k")
      case None
      then have "retry_loop (Some (logging f)) now incs (p(?k \<mapsto> False)) m = (p', m')"
        using Cons.prems(2) unfolding unfold by simp
      then show ?thesis using None by (intro wait [of False]) simp_all
    next
      case (Some b)
      show ?thesis
      proof (cases b)
        case True
        then have "retry_loop (Some (logging f)) now incs (p(?k \<mapsto> True)) m = (p', m')"
          using Some Cons.prems(2) unfolding unfold by simp
        then show ?thesis using Some True by (intro wait [of True]) simp_all
      next
        case no: False
        obtain r m1 where n: "notify (Some (logging f)) now inc m = (r, m1)" "m_pending m1 = m_pending m"
          "snd (m_world m1) = snd (m_world m) @ [(?k, r)]" by (rule notify_logging)
        then have "retry_loop (Some (logging f)) now incs (p(?k \<mapsto> r \<noteq> Inl ErrLimit)) m1 = (p', m')"
          using Some no Cons.prems(2) unfolding unfold by simp
        then show ?thesis using Some no n by (intro mail [of m1 r]) simp_all
      qed
    qed
    then show ?thesis
    proof cases
      case wait
      obtain es where es: "snd (m_world m') = snd (m_world m) @ es"
        "map fst es = filter (\<lambda>k. m_pending m k = Some False) (map retry_key (to_mail incs))"
        "\<forall>k. p' k = (if k \<in> set (map retry_key (to_mail incs)) then Some (next_pending (m_pending m k) k es) else (p(?k \<mapsto> b)) k)"
        using Cons.IH [OF _ wait(2)] Cons.prems(1) by auto
      then show ?thesis
        using wait(1) new todo by (intro exI [of _ es]) (auto simp: next_pending_def)
    next
      case mail
      obtain es where es: "snd (m_world m') = snd (m_world m1) @ es"
        "map fst es = filter (\<lambda>k. m_pending m1 k = Some False) (map retry_key (to_mail incs))"
        "\<forall>k. p' k = (if k \<in> set (map retry_key (to_mail incs)) then Some (next_pending (m_pending m1 k) k es)
             else (p(?k \<mapsto> r \<noteq> Inl ErrLimit)) k)"
        using Cons.IH [OF _ mail(4)] Cons.prems(1) by auto
      have "?k \<notin> fst ` set es" using es(2) new by (metis filter_is_subset list.set_map subsetD)
      then have here: "next_pending (m_pending m ?k) ?k ((?k, r) # es) = (r \<noteq> Inl ErrLimit)"
        using mail(1) by (force simp: next_pending_def)
      have there: "next_pending q k ((?k, r) # es) = next_pending q k es" if "k \<noteq> ?k" for q k
        using that by (auto simp: next_pending_def split: option.split bool.split)
      have "p' k = (if k \<in> set (map retry_key (to_mail (inc # incs)))
          then Some (next_pending (m_pending m k) k ((?k, r) # es)) else p k)" for k
        using es(3) [rule_format, of k] mail(2) new here there [of k "m_pending m k"] todo
        by (cases "k = ?k") simp_all
      then show ?thesis
        using es(1,2) mail(1-3) todo by (intro exI [of _ "(?k, r) # es"]) simp
    qed
  qed
qed

lemma incidentSelect_faults [simp]: "incidentSelect (d\<lparr>faults := fs\<rparr>) = incidentSelect d"
  by (simp add: incidentSelect_def)

lemma distinct_unmailed:
  assumes "fst (UnmailedIncidents s d) = Inr incs" and "db_ok d"
  shows "distinct (map inc_ID incs)"
proof -
  let ?p = "\<lambda>(i, t). (\<not> i_mailed_down i \<and> unixSec s \<le> i_started i) \<or>
        (\<not> i_mailed_up i \<and> (case i_ended i of None \<Rightarrow> False | Some e \<Rightarrow> unixSec s \<le> e))"
  let ?rows = "sort_key (\<lambda>(i, t). (i_started i, i_id i)) (filter ?p (incidentSelect d))"
  have incs: "incs = map scanIncident ?rows"
    using assms(1) by (auto simp: UnmailedIncidents_def exec_def split: list.splits if_splits)
  have conv: "[(i, t). t \<leftarrow> ts, ID t = x] = map (Pair i) (filter (\<lambda>t. ID t = x) ts)" for i :: incident_row and x and ts :: "target_row list"
    by (induction ts) auto
  have one: "length (filter (\<lambda>t. ID t = x) ts) \<le> 1" if "distinct (map ID ts)" for x and ts :: "target_row list"
    using that
  proof (induction ts)
    case (Cons a ts)
    have "filter (\<lambda>t. ID t = ID a) ts = []"
      using Cons.prems by (metis (mono_tags, lifting) distinct.simps(2) filter_False image_eqI list.set_map list.simps(9))
    then show ?case using Cons by auto
  qed simp
  have "distinct (map (\<lambda>(i, t). i_id i) [(i, t). i \<leftarrow> rows, t \<leftarrow> ts, ID t = i_target i])"
    if "distinct (map i_id rows)" "distinct (map ID ts)" for rows :: "incident_row list" and ts :: "target_row list"
    using that(1)
  proof (induction rows)
    case (Cons i rest)
    have "set (map (\<lambda>(i, t). i_id i) [(i, t). i \<leftarrow> rest, t \<leftarrow> ts, ID t = i_target i]) \<subseteq> i_id ` set rest" by auto
    moreover have "distinct (map (\<lambda>(i, t). i_id i) (map (Pair i) (filter (\<lambda>t. ID t = i_target i) ts)))"
      using one [OF that(2), of "i_target i"] by (cases "filter (\<lambda>t. ID t = i_target i) ts") auto
    ultimately show ?case using Cons by (auto simp: conv)
  qed simp
  then have "distinct (map (\<lambda>(i, t). i_id i) (incidentSelect d))"
    using db_okD(1,9) [OF assms(2)] by (simp add: incidentSelect_def rows_ok_def)
  then have "distinct (map (\<lambda>(i, t). i_id i) ?rows)"
    by (simp add: distinct_map_filter distinct_map distinct_filter inj_on_def)
  moreover have "map inc_ID incs = map (\<lambda>(i, t). i_id i) ?rows"
    unfolding incs by (simp add: comp_def scanIncident_def split_beta)
  ultimately show ?thesis by simp
qed

text \<open>C37: One pass of the retry loop attempts exactly the mails that the pass before saw for the
  first time or that failed at the hourly limit, each once. A mail that was attempted with any
  other outcome is noted as retried and is not attempted again while it stays on the list; a mail
  that left the list is forgotten.\<close>

theorem retry_attempts:
  assumes "db_ok (m_store m)" and "fst (UnmailedIncidents (addTime now (- retryWindow)) (m_store m)) = Inr incs"
    and "m' = retry (Some (logging f)) now m"
  shows "\<exists>es. snd (m_world m') = snd (m_world m) @ es \<and>
    map fst es = filter (\<lambda>k. m_pending m k = Some False) (map retry_key (to_mail incs)) \<and>
    (\<forall>k. m_pending m' k =
       (if k \<in> set (map retry_key (to_mail incs))
        then Some (next_pending (m_pending m k) k es) else None))"
proof -
  obtain d1 where q: "UnmailedIncidents (addTime now (- retryWindow)) (m_store m) = (Inr incs, d1)"
    using assms(2) by (metis prod.collapse)
  let ?m1 = "m\<lparr>m_store := d1\<rparr>"
  obtain p2 m2 where loop: "retry_loop (Some (logging f)) now incs Map.empty ?m1 = (p2, m2)" by (rule prod.exhaust)
  have m': "m' = m2\<lparr>m_pending := p2\<rparr>"
    using assms(3) q loop by (simp add: retry_def on_store_def)
  have same: "m_pending ?m1 = m_pending m" "m_world ?m1 = m_world m" by simp_all
  have new: "m_pending m' = p2" "m_world m' = m_world m2" using m' by simp_all
  show ?thesis
    using retry_loop_log [OF distinct_unmailed [OF assms(2,1)] loop] unfolding same new .
qed

definition retry_demo :: "(unit \<times> (mailKey \<times> (mail_err + unit)) list) Manager" where
  "retry_demo = (New ((m_store demo5)\<lparr>incidents := [mk_incident 1 (1, 50, ''x'')]\<rparr>) ((), []))
     \<lparr>m_pending := [(1, False) \<mapsto> False]\<rparr>"

theorem retry_attempts_witness:
  "map fst (snd (m_world (retry (Some (logging demo)) (fromUnix 60) retry_demo))) = [(1, False)] \<and>
   m_pending (retry (Some (logging demo)) (fromUnix 60) retry_demo) (1, False) = Some True"
proof -
  let ?u = "UnmailedIncidents (addTime (fromUnix 60) (- retryWindow)) (m_store retry_demo)"
  have "db_ok (m_store retry_demo)" "snd (m_world retry_demo) = []" "m_pending retry_demo (1, False) = Some False"
    "\<not> isl (fst ?u)" "map retry_key (to_mail (projr (fst ?u))) = [(1, False)]"
    by code_simp+
  moreover from this(4) have "fst ?u = Inr (projr (fst ?u))" by (simp add: sum.collapse(2))
  moreover have "m_pending (retry (Some (logging demo)) (fromUnix 60) retry_demo) (1, False) = Some True" by code_simp
  ultimately show ?thesis
    using retry_attempts [of retry_demo "fromUnix 60" "projr (fst ?u)", OF _ _ refl, of demo] by auto
qed

end
