(* ===== verification/Limiter.thy ===== *)
theory Limiter
  imports Prelude
begin

text \<open>
  The login limiter of \<^verbatim>\<open>internal/web/limit.go\<close>: a window of a quarter of an hour per address and
  one for everybody. The map from addresses to windows is an association list with distinct
  keys, because the code bounds its length. Shown are its invariant, that a refusal is what the
  login handler recognises (a positive wait), and how many attempts one address gets.
\<close>

section \<open>The limiter\<close>

definition loginWindow :: duration where "loginWindow = 15 * minute"
definition loginPerIP :: int where "loginPerIP = 5"
definition loginGlobal :: int where "loginGlobal = 30"
definition loginIPs :: int where "loginIPs = 10000"

record window =
  w_start :: time
  w_n :: int
  w_warned :: bool

record limiter =
  ips :: "(string \<times> window) list"
  global :: window
  swept :: time

definition zero_window :: window where "zero_window = \<lparr>w_start = zeroTime, w_n = 0, w_warned = False\<rparr>"

definition newLimiter :: limiter where
  "newLimiter = \<lparr>ips = [], global = zero_window, swept = zeroTime\<rparr>"

definition once :: "bool \<Rightarrow> bool \<times> bool" where "once warned = (\<not> warned, True)"

definition put_ip :: "string \<Rightarrow> window \<Rightarrow> (string \<times> window) list \<Rightarrow> (string \<times> window) list" where
  "put_ip ip w ws = (ip, w) # filter (\<lambda>(k, _). k \<noteq> ip) ws"

definition expired :: "time \<Rightarrow> window \<Rightarrow> bool" where
  "expired now w \<longleftrightarrow> loginWindow \<le> subTime now (w_start w)"

definition sweep :: "time \<Rightarrow> limiter \<Rightarrow> limiter" where
  "sweep now l =
     (if loginWindow \<le> subTime now (swept l) \<or> loginIPs \<le> int (length (ips l))
      then l\<lparr>ips := filter (\<lambda>(k, w). \<not> expired now w) (ips l), swept := now\<rparr> else l)"

definition roll_global :: "time \<Rightarrow> limiter \<Rightarrow> limiter" where
  "roll_global now l =
     (if expired now (global l) then l\<lparr>global := \<lparr>w_start = now, w_n = 0, w_warned = False\<rparr>\<rparr> else l)"

definition live_window :: "string \<Rightarrow> time \<Rightarrow> limiter \<Rightarrow> window option" where
  "live_window ip now l =
     (case map_of (ips l) ip of
        None \<Rightarrow> None
      | Some w \<Rightarrow> if expired now w then None else Some w)"

definition limiter_take :: "string \<Rightarrow> time \<Rightarrow> bool \<Rightarrow> limiter \<Rightarrow> (duration \<times> bool) \<times> limiter" where
  "limiter_take ip now knownDevice l =
     (let l2 = roll_global now (sweep now l); w = live_window ip now l2 in
      if w \<noteq> None \<and> loginPerIP \<le> w_n (the w)
      then (case once (w_warned (the w)) of (fst_time, b) \<Rightarrow>
        ((subTime (addTime (w_start (the w)) loginWindow) now, fst_time),
         l2\<lparr>ips := put_ip ip ((the w)\<lparr>w_warned := b\<rparr>) (ips l2)\<rparr>))
      else if \<not> knownDevice \<and> loginGlobal \<le> w_n (global l2)
      then (case once (w_warned (global l2)) of (fst_time, b) \<Rightarrow>
        ((subTime (addTime (w_start (global l2)) loginWindow) now, fst_time),
         l2\<lparr>global := (global l2)\<lparr>w_warned := b\<rparr>\<rparr>))
      else if w = None \<and> loginIPs \<le> int (length (ips l2))
      then (case once (w_warned (global l2)) of (fst_time, b) \<Rightarrow>
        ((loginWindow, fst_time), l2\<lparr>global := (global l2)\<lparr>w_warned := b\<rparr>\<rparr>))
      else (let w1 = (case w of None \<Rightarrow> \<lparr>w_start = now, w_n = 0, w_warned = False\<rparr> | Some w \<Rightarrow> w)
            in ((0, False),
                l2\<lparr>ips := put_ip ip (w1\<lparr>w_n := w_n w1 + 1\<rparr>) (ips l2),
                   global := (global l2)\<lparr>w_n := w_n (global l2) + 1\<rparr>\<rparr>)))"

definition forgive :: "string \<Rightarrow> limiter \<Rightarrow> limiter" where
  "forgive ip l =
     (let l1 = l\<lparr>ips := filter (\<lambda>(k, _). k \<noteq> ip) (ips l)\<rparr>
      in if 0 < w_n (global l1) then l1\<lparr>global := (global l1)\<lparr>w_n := w_n (global l1) - 1\<rparr>\<rparr> else l1)"

section \<open>Association lists\<close>

lemma map_of_put_ip: "map_of (put_ip ip w ws) k = (if k = ip then Some w else map_of ws k)"
  by (induction ws) (auto simp: put_ip_def)

lemma distinct_filter_keys: "distinct (map fst ws) \<Longrightarrow> distinct (map fst (filter p ws))"
  by (rule distinct_map_filter)

lemma distinct_put_ip: "distinct (map fst ws) \<Longrightarrow> distinct (map fst (put_ip ip w ws))"
  by (auto simp: put_ip_def distinct_map_filter)

lemma length_put_ip:
  assumes "distinct (map fst ws)"
  shows "length (put_ip ip w ws) = (if map_of ws ip = None then length ws + 1 else length ws)"
  using assms
proof (induction ws)
  case (Cons a ws)
  obtain k v where a: "a = (k, v)" by (rule prod.exhaust)
  show ?case
  proof (cases "k = ip")
    case True
    then have "filter (\<lambda>(k, _). k \<noteq> ip) ws = ws"
      using Cons.prems a by (force simp: filter_id_conv)
    then show ?thesis using True a by (simp add: put_ip_def)
  next
    case False
    then show ?thesis using Cons a by (auto simp: put_ip_def)
  qed
qed (simp add: put_ip_def)

lemma map_of_filter_live:
  "distinct (map fst ws) \<Longrightarrow>
   map_of (filter (\<lambda>(k, w). p w) ws) k = (case map_of ws k of Some w \<Rightarrow> if p w then Some w else None | None \<Rightarrow> None)"
proof (induction ws)
  case (Cons a ws)
  obtain k' v where a: "a = (k', v)" by (rule prod.exhaust)
  have "k' = k \<Longrightarrow> map_of ws k = None" using Cons.prems a by (auto simp: map_of_eq_None_iff)
  then show ?case using Cons a by auto
qed simp

lemma map_of_filter_key: "map_of (filter (\<lambda>(k, _). k \<noteq> ip) ws) k = (if k = ip then None else map_of ws k)"
  by (induction ws) auto

section \<open>Waits and the invariant\<close>

lemma expired_iff: "expired now w \<longleftrightarrow> loginWindow \<le> now - w_start w"
  using subTime_ge_iff [of loginWindow now "w_start w"] by (simp add: expired_def loginWindow_def time_defs)

definition lim_ok :: "limiter \<Rightarrow> bool" where
  "lim_ok l \<longleftrightarrow> distinct (map fst (ips l)) \<and> int (length (ips l)) \<le> loginIPs \<and>
     (\<forall>w \<in> snd ` set (ips l). 1 \<le> w_n w \<and> w_n w \<le> loginPerIP) \<and> 0 \<le> w_n (global l)"

lemma lim_ok_prepare: "lim_ok l \<Longrightarrow> lim_ok (roll_global now (sweep now l))"
  by (auto simp: lim_ok_def roll_global_def sweep_def distinct_filter_keys
      intro: order_trans [OF of_nat_mono [OF length_filter_le]])

lemma prepared_global: "\<not> expired now (global (roll_global now l))"
  by (auto simp: roll_global_def expired_iff loginWindow_def time_defs)

lemma live_window_mem:
  "live_window ip now l = Some w \<Longrightarrow> map_of (ips l) ip = Some w \<and> w \<in> snd ` set (ips l) \<and> \<not> expired now w"
  by (force simp: live_window_def split: option.splits if_splits dest: map_of_SomeD)

lemma lim_ok_put:
  assumes "lim_ok l" and "1 \<le> w_n w" and "w_n w \<le> loginPerIP" and "map_of (ips l) ip = None \<longrightarrow> int (length (ips l)) < loginIPs"
  shows "lim_ok (l\<lparr>ips := put_ip ip w (ips l)\<rparr>)"
proof -
  have "snd ` set (put_ip ip w (ips l)) \<subseteq> insert w (snd ` set (ips l))" by (auto simp: put_ip_def)
  then have "\<forall>v \<in> snd ` set (put_ip ip w (ips l)). 1 \<le> w_n v \<and> w_n v \<le> loginPerIP"
    using assms(1-3) unfolding lim_ok_def by blast
  moreover have "int (length (put_ip ip w (ips l))) \<le> loginIPs"
    using assms(1,4) length_put_ip [of "ips l" ip w] by (auto simp: lim_ok_def)
  ultimately show ?thesis using assms(1) by (simp add: lim_ok_def distinct_put_ip)
qed

lemma lim_ok_global: "lim_ok l \<Longrightarrow> 0 \<le> w_n g \<Longrightarrow> lim_ok (l\<lparr>global := g\<rparr>)"
  by (simp add: lim_ok_def)

text \<open>The limiter after sweeping and rolling the common window, and the five ways a call ends.\<close>

definition prepared :: "time \<Rightarrow> limiter \<Rightarrow> limiter" where "prepared now l = roll_global now (sweep now l)"

lemma take_cases:
  obtains (per_ip) v where "live_window ip now (prepared now l) = Some v" "loginPerIP \<le> w_n v"
      "limiter_take ip now known l = ((subTime (addTime (w_start v) loginWindow) now, \<not> w_warned v),
         (prepared now l)\<lparr>ips := put_ip ip (v\<lparr>w_warned := True\<rparr>) (ips (prepared now l))\<rparr>)"
    | (all_ips) "\<not> known" "loginGlobal \<le> w_n (global (prepared now l))"
      "limiter_take ip now known l = ((subTime (addTime (w_start (global (prepared now l))) loginWindow) now, \<not> w_warned (global (prepared now l))),
         (prepared now l)\<lparr>global := (global (prepared now l))\<lparr>w_warned := True\<rparr>\<rparr>)"
    | (full) "live_window ip now (prepared now l) = None" "loginIPs \<le> int (length (ips (prepared now l)))"
      "limiter_take ip now known l = ((loginWindow, \<not> w_warned (global (prepared now l))),
         (prepared now l)\<lparr>global := (global (prepared now l))\<lparr>w_warned := True\<rparr>\<rparr>)"
    | (new) "live_window ip now (prepared now l) = None" "int (length (ips (prepared now l))) < loginIPs" "known \<or> w_n (global (prepared now l)) < loginGlobal"
      "limiter_take ip now known l = ((0, False),
         (prepared now l)\<lparr>ips := put_ip ip \<lparr>w_start = now, w_n = 1, w_warned = False\<rparr> (ips (prepared now l)),
            global := (global (prepared now l))\<lparr>w_n := w_n (global (prepared now l)) + 1\<rparr>\<rparr>)"
    | (more) v where "live_window ip now (prepared now l) = Some v" "w_n v < loginPerIP" "known \<or> w_n (global (prepared now l)) < loginGlobal"
      "limiter_take ip now known l = ((0, False),
         (prepared now l)\<lparr>ips := put_ip ip (v\<lparr>w_n := w_n v + 1\<rparr>) (ips (prepared now l)),
            global := (global (prepared now l))\<lparr>w_n := w_n (global (prepared now l)) + 1\<rparr>\<rparr>)"
proof (cases "live_window ip now (prepared now l)")
  case None
  consider "\<not> known \<and> loginGlobal \<le> w_n (global (prepared now l))" | "known \<or> w_n (global (prepared now l)) < loginGlobal" "loginIPs \<le> int (length (ips (prepared now l)))"
    | "known \<or> w_n (global (prepared now l)) < loginGlobal" "int (length (ips (prepared now l))) < loginIPs" by linarith
  then show ?thesis
    by cases (use None all_ips full new in \<open>auto simp: limiter_take_def Let_def once_def prepared_def\<close>)
next
  case (Some v)
  consider "loginPerIP \<le> w_n v" | "w_n v < loginPerIP" "\<not> known \<and> loginGlobal \<le> w_n (global (prepared now l))"
    | "w_n v < loginPerIP" "known \<or> w_n (global (prepared now l)) < loginGlobal" by linarith
  then show ?thesis
    by cases (use Some all_ips per_ip more in \<open>auto simp: limiter_take_def Let_def once_def prepared_def\<close>)
qed

lemma lim_ok_take: assumes "lim_ok l" shows "lim_ok (snd (limiter_take ip now known l))"
proof -
  define l2 where "l2 = prepared now l"
  have ok: "lim_ok l2" unfolding l2_def prepared_def by (rule lim_ok_prepare [OF assms])
  have glob: "0 \<le> w_n (global l2)" using ok by (simp add: lim_ok_def)
  have live: "map_of (ips l2) ip \<noteq> None \<and> 1 \<le> w_n v \<and> w_n v \<le> loginPerIP" if "live_window ip now l2 = Some v" for v
    using live_window_mem [OF that] ok by (auto simp: lim_ok_def)
  show ?thesis
  proof (cases rule: take_cases [of ip now l known])
    case (per_ip v)
    note per_ip = per_ip [folded l2_def]
    show ?thesis using per_ip(3) live [OF per_ip(1)] by (auto intro: lim_ok_put [OF ok])
  next
    case all_ips
    then show ?thesis unfolding l2_def [symmetric] using lim_ok_global [OF ok] glob by simp
  next
    case full
    then show ?thesis unfolding l2_def [symmetric] using lim_ok_global [OF ok] glob by simp
  next
    case new
    note new = new [folded l2_def]
    have "lim_ok (l2\<lparr>ips := put_ip ip \<lparr>w_start = now, w_n = 1, w_warned = False\<rparr> (ips l2)\<rparr>)"
      using new(2) by (intro lim_ok_put [OF ok]) (simp_all add: loginPerIP_def)
    from lim_ok_global [OF this] show ?thesis using new(4) glob by simp
  next
    case (more v)
    note more = more [folded l2_def]
    have "lim_ok (l2\<lparr>ips := put_ip ip (v\<lparr>w_n := w_n v + 1\<rparr>) (ips l2)\<rparr>)"
      using more(2) live [OF more(1)] by (intro lim_ok_put [OF ok]) auto
    from lim_ok_global [OF this] show ?thesis using more(4) glob by simp
  qed
qed

lemma lim_ok_forgive: "lim_ok l \<Longrightarrow> lim_ok (forgive ip l)"
  by (auto simp: lim_ok_def forgive_def Let_def distinct_filter_keys intro: order_trans [OF of_nat_mono [OF length_filter_le]])

text \<open>A login attempt is either let through with a wait of zero, and counted for its address and
  for everybody, or refused with a positive wait of at most a quarter of an hour, and counted for
  nobody. It is let through exactly when its address has fewer than five attempts in its current
  window, the device is known or fewer than thirty attempts were made by everybody in the common
  window, and there is room for the address. The bookkeeping stays within its bounds.\<close>

lemma limiter_decides:
  assumes "limiter_take ip now known l = ((wait, warn), l')" and "lim_ok l"
    and "w_start (global l) \<le> now" and "\<forall>w \<in> snd ` set (ips l). w_start w \<le> now"
  shows "lim_ok l' \<and> 0 \<le> wait \<and> wait \<le> loginWindow \<and>
    (wait = 0 \<longleftrightarrow>
       (case live_window ip now (prepared now l) of None \<Rightarrow> int (length (ips (prepared now l))) < loginIPs | Some w \<Rightarrow> w_n w < 5) \<and>
       (known \<or> w_n (global (prepared now l)) < 30)) \<and>
    w_n (global l') = w_n (global (prepared now l)) + (if wait = 0 then 1 else 0) \<and>
    (wait = 0 \<longrightarrow> (\<exists>w. live_window ip now l' = Some w \<and>
       w_n w = (case live_window ip now (prepared now l) of None \<Rightarrow> 1 | Some v \<Rightarrow> w_n v + 1)))"
proof -
  let ?p = "prepared now l"
  have ok: "lim_ok l'" using lim_ok_take [OF assms(2), of ip now known] assms(1) by simp
  have sub: "subTime (addTime s loginWindow) now = s + loginWindow - now" if "s \<le> now" "\<not> loginWindow \<le> now - s" for s
    using that by (simp add: subTime_def addTime_def minDuration_def maxDuration_def loginWindow_def time_defs)
  have gstart: "w_start (global ?p) \<le> now" "\<not> loginWindow \<le> now - w_start (global ?p)"
    using assms(3) prepared_global [of now "sweep now l"]
    by (auto simp: prepared_def roll_global_def sweep_def expired_iff)
  have istart: "w_start v \<le> now \<and> \<not> loginWindow \<le> now - w_start v" if "live_window ip now ?p = Some v" for v
  proof -
    have "v \<in> snd ` set (ips ?p)" "\<not> expired now v" using live_window_mem [OF that] by auto
    moreover have "set (ips ?p) \<subseteq> set (ips l)" by (auto simp: prepared_def roll_global_def sweep_def)
    ultimately show ?thesis using assms(4) by (auto simp: expired_iff)
  qed
  have pos: "0 < loginWindow" by (simp add: loginWindow_def time_defs)
  show ?thesis
  proof (cases rule: take_cases [of ip now l known])
    case (per_ip v)
    then show ?thesis
      using assms(1) ok sub [of "w_start v"] istart [OF per_ip(1)] by (auto simp: loginPerIP_def)
  next
    case all_ips
    then show ?thesis using assms(1) ok sub [OF gstart] gstart by (auto simp: loginGlobal_def)
  next
    case full
    then show ?thesis using assms(1) ok pos by auto
  next
    case new
    then show ?thesis
      using assms(1) ok pos by (auto simp: live_window_def map_of_put_ip expired_iff loginGlobal_def)
  next
    case (more v)
    then show ?thesis
      using assms(1) ok pos istart [OF more(1)]
      by (auto simp: live_window_def map_of_put_ip expired_iff loginGlobal_def loginPerIP_def)
  qed
qed

section \<open>How many attempts one address gets\<close>

datatype login_op = Take string time bool | Forgive string

text \<open>The attempts of \<open>ip\<close> that were let through, each with the start of the window it was counted in.\<close>

fun passed :: "string \<Rightarrow> login_op list \<Rightarrow> limiter \<Rightarrow> (time \<times> time) list" where
  "passed ip [] l = []"
| "passed ip (Forgive k # ops) l = passed ip ops (forgive k l)"
| "passed ip (Take k now known # ops) l =
     (case limiter_take k now known l of ((wait, _), l') \<Rightarrow>
        (if k = ip \<and> wait = 0 then [(now, w_start (the (map_of (ips l') ip)))] else []) @ passed ip ops l')"

fun op_times :: "login_op list \<Rightarrow> time list" where
  "op_times [] = []"
| "op_times (Forgive k # ops) = op_times ops"
| "op_times (Take k now known # ops) = now # op_times ops"

definition in_window :: "time \<Rightarrow> (time \<times> time) list \<Rightarrow> (time \<times> time) list" where
  "in_window s xs = filter (\<lambda>x. snd x = s) xs"

text \<open>The attempts let through so far are grouped into windows that do not overlap, of at most five
  attempts each; the last of them is the one the limiter still holds, or it is over.\<close>

definition grouped :: "(time \<times> time) list \<Rightarrow> bool" where
  "grouped xs \<longleftrightarrow>
     (\<forall>x \<in> set xs. snd x \<le> fst x \<and> fst x < snd x + loginWindow) \<and>
     (\<forall>x \<in> set xs. \<forall>y \<in> set xs. snd x = snd y \<or> snd x + loginWindow \<le> snd y \<or> snd y + loginWindow \<le> snd x) \<and>
     (\<forall>s. int (length (in_window s xs)) \<le> loginPerIP)"

definition held :: "string \<Rightarrow> time \<Rightarrow> (time \<times> time) list \<Rightarrow> limiter \<Rightarrow> bool" where
  "held ip now xs l \<longleftrightarrow>
     (case map_of (ips l) ip of
        None \<Rightarrow> \<forall>x \<in> set xs. snd x + loginWindow \<le> now
      | Some w \<Rightarrow> w_start w \<le> now \<and> int (length (in_window (w_start w) xs)) = w_n w \<and>
          (\<forall>x \<in> set xs. snd x = w_start w \<or> snd x + loginWindow \<le> w_start w))"

lemma held_later: "held ip now xs l \<Longrightarrow> now \<le> now' \<Longrightarrow> held ip now' xs l"
  by (force simp: held_def split: option.splits)

lemma held_over:
  assumes "held ip now xs l" and "now \<le> now'" and "lim_ok l"
    and "map_of (ips l') ip = (case map_of (ips l) ip of None \<Rightarrow> None | Some w \<Rightarrow> if expired now' w then None else Some w)"
  shows "held ip now' xs l'"
proof (cases "map_of (ips l) ip")
  case None
  then show ?thesis using held_later [OF assms(1,2)] assms(4) by (simp add: held_def)
next
  case (Some w)
  have h: "w_start w \<le> now" "\<forall>x \<in> set xs. snd x = w_start w \<or> snd x + loginWindow \<le> w_start w"
    using assms(1) Some by (simp_all add: held_def)
  show ?thesis
  proof (cases "expired now' w")
    case True
    have "\<forall>x \<in> set xs. snd x + loginWindow \<le> now'"
    proof
      fix x assume "x \<in> set xs"
      moreover have "w_start w + loginWindow \<le> now'" using True by (simp add: expired_iff)
      ultimately show "snd x + loginWindow \<le> now'" using h(2) assms(2) h(1) by fastforce
    qed
    then show ?thesis using assms(4) Some True by (simp add: held_def)
  next
    case False
    then show ?thesis using assms(1,2,4) Some by (simp add: held_def)
  qed
qed

lemma map_of_prepared:
  assumes "lim_ok l"
  shows "map_of (ips (prepared now l)) k = map_of (ips l) k \<or>
    map_of (ips (prepared now l)) k = (case map_of (ips l) k of None \<Rightarrow> None | Some w \<Rightarrow> if expired now w then None else Some w)"
proof -
  have "distinct (map fst (ips l))" using assms by (simp add: lim_ok_def)
  from map_of_filter_live [OF this, of "\<lambda>w. \<not> expired now w" k] show ?thesis
    by (auto simp: prepared_def roll_global_def sweep_def split: option.split)
qed

lemma held_prepared:
  assumes "held ip now xs l" and "now \<le> now'" and "lim_ok l"
  shows "held ip now' xs (prepared now' l)"
  using map_of_prepared [OF assms(3), of now' ip]
proof
  assume "map_of (ips (prepared now' l)) ip = map_of (ips l) ip"
  then show ?thesis using held_later [OF assms(1,2)] by (simp add: held_def)
next
  assume "map_of (ips (prepared now' l)) ip =
    (case map_of (ips l) ip of None \<Rightarrow> None | Some w \<Rightarrow> if expired now' w then None else Some w)"
  then show ?thesis by (rule held_over [OF assms])
qed

lemma in_window_snoc: "in_window s (xs @ [x]) = (if snd x = s then in_window s xs @ [x] else in_window s xs)"
  by (simp add: in_window_def)

lemma grouped_more:
  assumes "grouped xs" and "s \<le> now" and "now < s + loginWindow" and "int (length (in_window s xs)) < loginPerIP"
    and "\<forall>x \<in> set xs. snd x = s \<or> snd x + loginWindow \<le> s"
  shows "grouped (xs @ [(now, s)])"
  using assms unfolding grouped_def by (auto simp: in_window_snoc)

lemma passed_step:
  assumes "grouped xs" and "held ip now xs l" and "lim_ok l" and "now \<le> now'"
    and "limiter_take k now' known l = ((wait, warn), l')"
  shows "let ys = xs @ (if k = ip \<and> wait = 0 then [(now', w_start (the (map_of (ips l') ip)))] else [])
         in grouped ys \<and> held ip now' ys l'"
proof -
  note h = held_prepared [OF assms(2,4,3)]
  have pos: "0 < loginWindow" by (simp add: loginWindow_def time_defs)
  have other: "held ip now' xs l'" if "map_of (ips l') ip = map_of (ips (prepared now' l)) ip" for l'
    using h that by (simp add: held_def)
  show ?thesis
  proof (cases rule: take_cases [of k now' l known])
    case (per_ip v)
    then have w: "wait \<noteq> 0"
      using assms(5) live_window_mem [OF per_ip(1)]
      by (auto simp: subTime_def addTime_def minDuration_def maxDuration_def expired_iff)
    have "held ip now' xs l'"
    proof (cases "k = ip")
      case True
      then show ?thesis
        using h per_ip assms(5) live_window_mem [OF per_ip(1)] by (auto simp: held_def map_of_put_ip)
    next
      case False
      then show ?thesis using per_ip assms(5) by (intro other) (auto simp: map_of_put_ip)
    qed
    then show ?thesis using w assms(1) by simp
  next
    case all_ips
    have "\<not> expired now' (global (prepared now' l))" by (simp add: prepared_def prepared_global)
    then have "wait \<noteq> 0"
      using all_ips assms(5) by (auto simp: subTime_def addTime_def minDuration_def maxDuration_def expired_iff)
    then show ?thesis using all_ips assms(1,5) other [of l'] by auto
  next
    case full
    then show ?thesis using assms(1,5) other [of l'] pos by auto
  next
    case new
    show ?thesis
    proof (cases "k = ip")
      case True
      have old: "\<forall>x \<in> set xs. snd x + loginWindow \<le> now'"
      proof (cases "map_of (ips (prepared now' l)) ip")
        case None
        then show ?thesis using h by (simp add: held_def)
      next
        case (Some w)
        then have "expired now' w" using new(1) True by (auto simp: live_window_def split: if_splits)
        then show ?thesis using h Some by (fastforce simp: held_def expired_iff)
      qed
      then have none: "in_window now' xs = []" using pos by (force simp: in_window_def filter_empty_conv)
      have "grouped (xs @ [(now', now')])"
        using old none pos by (intro grouped_more [OF assms(1)]) (auto simp: loginPerIP_def)
      moreover have "held ip now' (xs @ [(now', now')]) l'"
        using new True assms(5) old none by (auto simp: held_def map_of_put_ip in_window_snoc)
      ultimately show ?thesis using new True assms(5) by (auto simp: map_of_put_ip)
    next
      case False
      then show ?thesis using new assms(1,5) other [of l'] by (auto simp: map_of_put_ip)
    qed
  next
    case (more v)
    show ?thesis
    proof (cases "k = ip")
      case True
      have v: "map_of (ips (prepared now' l)) ip = Some v" "\<not> expired now' v"
        using live_window_mem [OF more(1)] True by auto
      then have hv: "w_start v \<le> now'" "int (length (in_window (w_start v) xs)) = w_n v"
        "\<forall>x \<in> set xs. snd x = w_start v \<or> snd x + loginWindow \<le> w_start v"
        using h by (simp_all add: held_def)
      have "grouped (xs @ [(now', w_start v)])"
        using hv v(2) more(2) by (intro grouped_more [OF assms(1)]) (auto simp: expired_iff)
      moreover have "held ip now' (xs @ [(now', w_start v)]) l'"
        using more True assms(5) hv by (auto simp: held_def map_of_put_ip in_window_snoc)
      ultimately show ?thesis using more True assms(5) by (auto simp: map_of_put_ip)
    next
      case False
      then show ?thesis using more assms(1,5) other [of l'] by (auto simp: map_of_put_ip)
    qed
  qed
qed

lemma held_forgive: "k \<noteq> ip \<Longrightarrow> held ip now xs (forgive k l) = held ip now xs l"
  by (simp add: held_def forgive_def Let_def map_of_filter_key)

lemma passed_grouped:
  "grouped xs \<Longrightarrow> held ip now xs l \<Longrightarrow> lim_ok l \<Longrightarrow> sorted (now # op_times ops) \<Longrightarrow> Forgive ip \<notin> set ops \<Longrightarrow>
   grouped (xs @ passed ip ops l)"
proof (induction ops arbitrary: xs now l)
  case (Cons c ops)
  show ?case
  proof (cases c)
    case (Forgive k)
    then have "grouped (xs @ passed ip ops (forgive k l))"
      using Cons.prems by (intro Cons.IH [of xs now]) (auto simp: held_forgive lim_ok_forgive)
    then show ?thesis using Forgive by simp
  next
    case (Take k now' known)
    obtain wait warn l' where t: "limiter_take k now' known l = ((wait, warn), l')" by (metis prod.exhaust)
    let ?ys = "xs @ (if k = ip \<and> wait = 0 then [(now', w_start (the (map_of (ips l') ip)))] else [])"
    have "grouped ?ys \<and> held ip now' ?ys l'"
      using passed_step [OF Cons.prems(1-3) _ t] Cons.prems(4) Take by (simp add: Let_def)
    moreover have "lim_ok l'" using lim_ok_take [OF Cons.prems(3), of k now' known] t by simp
    ultimately have "grouped (?ys @ passed ip ops l')"
      using Cons.prems(4,5) Take by (intro Cons.IH [of ?ys now']) auto
    then show ?thesis using Take t by simp
  qed
qed simp

text \<open>Windows that do not overlap: at most two of them have attempts in a span of one window.\<close>

lemma grouped_bound:
  assumes "grouped xs"
  shows "length (filter (\<lambda>x. t - loginWindow < fst x \<and> fst x \<le> t) xs) \<le> 10"
proof -
  let ?ys = "filter (\<lambda>x. t - loginWindow < fst x \<and> fst x \<le> t) xs"
  have y: "snd x \<le> fst x \<and> fst x < snd x + loginWindow" if "x \<in> set xs" for x
    using assms that by (simp add: grouped_def)
  have apart: "snd x = snd z \<or> snd x + loginWindow \<le> snd z \<or> snd z + loginWindow \<le> snd x" if "x \<in> set xs" "z \<in> set xs" for x z
    using assms that by (simp add: grouped_def)
  have span: "t - 2 * loginWindow < snd x \<and> snd x \<le> t" if "x \<in> set ?ys" for x
    using that y [of x] by auto
  have two: "\<exists>a b. \<forall>x \<in> set ?ys. snd x = a \<or> snd x = b"
  proof (cases ?ys)
    case (Cons x0 rest)
    show ?thesis
    proof (cases "\<exists>x1 \<in> set ?ys. snd x1 \<noteq> snd x0")
      case True
      then obtain x1 where x1: "x1 \<in> set ?ys" "snd x1 \<noteq> snd x0" by blast
      have x0: "x0 \<in> set ?ys" using Cons by simp
      have "snd x = snd x0 \<or> snd x = snd x1" if "x \<in> set ?ys" for x
        using apart [of x x0] apart [of x x1] apart [of x0 x1] span [OF that] span [OF x0] span [OF x1(1)] that x0 x1
        by auto
      then show ?thesis by blast
    qed blast
  qed simp
  then obtain a b where ab: "\<forall>x \<in> set ?ys. snd x = a \<or> snd x = b" by blast
  have "length ?ys \<le> length (in_window a xs) + length (in_window b xs)"
    unfolding in_window_def
  proof -
    have "length (filter p xs) \<le> length (filter q xs) + length (filter r xs)"
      if "\<And>x. x \<in> set xs \<Longrightarrow> p x \<Longrightarrow> q x \<or> r x" for p q r and xs :: "(time \<times> time) list"
      using that by (induction xs) auto
    from this [of xs "\<lambda>x. t - loginWindow < fst x \<and> fst x \<le> t" "\<lambda>x. snd x = a" "\<lambda>x. snd x = b"]
    show "length ?ys \<le> length (filter (\<lambda>x. snd x = a) xs) + length (filter (\<lambda>x. snd x = b) xs)"
      using ab by simp
  qed
  moreover have "int (length (in_window a xs)) \<le> 5" "int (length (in_window b xs)) \<le> 5"
    using assms by (simp_all add: grouped_def loginPerIP_def)
  ultimately show ?thesis by linarith
qed

text \<open>C13: Whatever other addresses do, an address that never logs in successfully gets at most ten
  login attempts through in any quarter of an hour.\<close>

theorem login_attempts_bounded:
  assumes "sorted (op_times ops)" and "Forgive ip \<notin> set ops" and "\<forall>u \<in> set (op_times ops). 0 \<le> u"
  shows "length (filter (\<lambda>x. t - loginWindow < fst x \<and> fst x \<le> t) (passed ip ops newLimiter)) \<le> 10"
proof -
  have "grouped []" by (simp add: grouped_def in_window_def loginPerIP_def)
  moreover have "held ip 0 [] newLimiter" by (simp add: held_def newLimiter_def)
  moreover have "lim_ok newLimiter" by (simp add: lim_ok_def newLimiter_def zero_window_def loginIPs_def)
  ultimately have "grouped ([] @ passed ip ops newLimiter)"
    using assms by (intro passed_grouped [of "[]" ip 0]) auto
  then show ?thesis using grouped_bound by simp
qed

theorem login_attempts_bounded_witness:
  "let ops = [Take ''a'' 1 False, Take ''a'' 2 False, Forgive ''b'', Take ''a'' 3 False]
   in length (passed ''a'' ops newLimiter) = 3 \<and>
      length (filter (\<lambda>x. 5 - loginWindow < fst x \<and> fst x \<le> 5) (passed ''a'' ops newLimiter)) \<le> 10"
proof -
  let ?ops = "[Take ''a'' 1 False, Take ''a'' 2 False, Forgive ''b'', Take ''a'' 3 False]"
  have "length (passed ''a'' ?ops newLimiter) = 3" by code_simp
  moreover have "length (filter (\<lambda>x. 5 - loginWindow < fst x \<and> fst x \<le> 5) (passed ''a'' ?ops newLimiter)) \<le> 10"
    by (rule login_attempts_bounded) simp_all
  ultimately show ?thesis unfolding Let_def by blast
qed

end
