(* ===== verification/Store_Uptime.thy ===== *)
theory Store_Uptime
  imports Store_Rollup
begin

text \<open>
  What the aggregation promises its readers: a successful rollup makes the two last full hours
  exact and leaves every other hour alone, hours that once were exact stay the truth about the
  raw checks, and the uptime shares, the hour cells and the latency points read from the
  aggregates are those of the raw checks.
\<close>

section \<open>Hours\<close>

lemma bucket_hour_bounds:
  assumes "0 \<le> t"
  shows "bucket_hour t \<le> t" "t < bucket_hour t + hour_len"
  using assms by (simp_all add: bucket_hour_def hour_len_def go_arith)

lemma bucket_hour_ge_iff:
  assumes "0 \<le> t" and "hour_len dvd lo"
  shows "lo \<le> bucket_hour t \<longleftrightarrow> lo \<le> t"
proof -
  obtain k l where "lo = hour_len * k" "bucket_hour t = hour_len * l"
    using assms(2) bucket_hour_dvd [of t] by (metis dvdE)
  then show ?thesis using bucket_hour_bounds [OF assms(1)] by (auto simp: hour_len_def)
qed

lemma hourStart_dvd [simp]: "hour_len dvd hourStart now"
  using bucket_hour_dvd [of "unixSec now"] by (simp add: hourStart_def bucket_hour_def)

section \<open>Exact hours\<close>

text \<open>The raw checks of a target in one hour, and when the aggregate of that hour is exact: a
  row with their number and the number of successes, or no row when there are none.\<close>

definition hour_checks :: "int \<Rightarrow> int \<Rightarrow> db \<Rightarrow> check_row list" where
  "hour_checks g h d = filter (\<lambda>c. c_target c = g \<and> bucket_hour (c_at c) = h) (checks d)"

definition exact_hour :: "int \<Rightarrow> int \<Rightarrow> db \<Rightarrow> bool" where
  "exact_hour g h d \<longleftrightarrow>
     (case find_hour g h (hourly d) of
        None \<Rightarrow> hour_checks g h d = []
      | Some r \<Rightarrow> h_total r = int (length (hour_checks g h d)) \<and>
                 h_ok r = count_where c_ok (hour_checks g h d))"

definition exact_between :: "int \<Rightarrow> int \<Rightarrow> int \<Rightarrow> db \<Rightarrow> bool" where
  "exact_between g lo hi d \<longleftrightarrow> (\<forall>h. hour_len dvd h \<and> lo \<le> h \<and> h < hi \<longrightarrow> exact_hour g h d)"

definition checks_nonneg :: "db \<Rightarrow> bool" where
  "checks_nonneg d \<longleftrightarrow> (\<forall>c \<in> set (checks d). 0 \<le> c_at c)"

lemma window_checks_hour:
  assumes "checks_nonneg d" and "hour_len dvd h" and "hourStart now - 2 * hour_len \<le> h" and "h < hourStart now"
  shows "window_checks now g h (checks d) = hour_checks g h d"
  unfolding window_checks_def hour_checks_def
proof (rule filter_cong [OF refl])
  fix c assume "c \<in> set (checks d)"
  then have c: "0 \<le> c_at c" using assms(1) by (simp add: checks_nonneg_def)
  have "bucket_hour (c_at c) < hourStart now \<longleftrightarrow> c_at c < hourStart now"
    using bucket_hour_ge_iff [OF c hourStart_dvd, of now] by linarith
  moreover have "hourStart now - 2 * hour_len \<le> bucket_hour (c_at c) \<longleftrightarrow> hourStart now - 2 * hour_len \<le> c_at c"
    using bucket_hour_ge_iff [OF c, of "hourStart now - 2 * hour_len"] by simp
  ultimately show "(c_target c = g \<and> bucket_hour (c_at c) = h \<and>
      hourStart now - 2 * hour_len \<le> c_at c \<and> c_at c < hourStart now) \<longleftrightarrow>
     (c_target c = g \<and> bucket_hour (c_at c) = h)"
    using assms(3,4) by auto
qed

lemma window_checks_outside:
  assumes "checks_nonneg d" and "\<not> (hourStart now - 2 * hour_len \<le> h \<and> h < hourStart now)"
  shows "window_checks now g h (checks d) = []"
  unfolding window_checks_def
proof (rule filter_False, intro ballI notI)
  fix c assume "c \<in> set (checks d)" and c: "c_target c = g \<and> bucket_hour (c_at c) = h \<and>
      hourStart now - 2 * hour_len \<le> c_at c \<and> c_at c < hourStart now"
  then have "0 \<le> c_at c" using assms(1) by (simp add: checks_nonneg_def)
  then show False
    using c assms(2) bucket_hour_bounds [of "c_at c"]
      bucket_hour_ge_iff [of "c_at c" "hourStart now - 2 * hour_len"] by auto
qed

text \<open>C7: A rollup that succeeds changes nothing but the hourly table; there, each of the two
  last full hours with checks of a target has a row with their number, their successes and
  their latency summary, and every other row is what it was. Rolling up again at the same time
  changes no row any more.\<close>

theorem rollup_exact:
  assumes "Rollup now d = (Inr (), d')" and "checks_nonneg d"
  shows "d'\<lparr>hourly := [], faults := []\<rparr> = d\<lparr>hourly := [], faults := []\<rparr> \<and>
    (\<forall>g h. find_hour g h (hourly d') =
       (if hour_len dvd h \<and> hourStart now - 2 * hour_len \<le> h \<and> h < hourStart now \<and> hour_checks g h d \<noteq> []
        then Some (hour_row (g, h) (stats_of (hour_checks g h d)))
        else find_hour g h (hourly d))) \<and>
    (\<forall>d''. Rollup now d' = (Inr (), d'') \<longrightarrow>
       (\<forall>g h. find_hour g h (hourly d'') = find_hour g h (hourly d')))"
proof -
  note frame = Rollup_Inr(1) [OF assms(1)]
  then have ch: "checks d' = checks d" by (metis db.select_convs(2) db.surjective db.update_convs(3,8))
  have look: "find_hour g h (hourly d') =
       (if hour_len dvd h \<and> hourStart now - 2 * hour_len \<le> h \<and> h < hourStart now \<and> hour_checks g h d \<noteq> []
        then Some (hour_row (g, h) (stats_of (hour_checks g h d)))
        else find_hour g h (hourly d))" for g h
  proof (cases "hour_len dvd h \<and> hourStart now - 2 * hour_len \<le> h \<and> h < hourStart now")
    case True
    then show ?thesis using Rollup_Inr(2) [OF assms(1), of g h] window_checks_hour [OF assms(2), of h now g] by auto
  next
    case False
    then have "window_checks now g h (checks d) = []"
      using window_checks_outside [OF assms(2)] bucket_hour_dvd
      by (auto simp: window_checks_def filter_empty_conv)
    then show ?thesis using Rollup_Inr(2) [OF assms(1), of g h] False by auto
  qed
  have "find_hour g h (hourly d'') = find_hour g h (hourly d')" if "Rollup now d' = (Inr (), d'')" for d'' g h
    using Rollup_Inr(2) [OF that, of g h] Rollup_Inr(2) [OF assms(1), of g h] by (simp add: ch)
  then show ?thesis using frame look by blast
qed

text \<open>A database with one target and three checks in the hour that starts at 7200.\<close>

definition sample_target :: target_row where
  "sample_target = \<lparr>ID = 1, Name = ''api'', Kind = KindHTTP, Address = ''https://a'', ExpectStatus = '''',
     Keyword = '''', ConnectTo = '''', IntervalS = 60, TimeoutMs = 5000, FailThreshold = 3,
     Public = True, Paused = False, Sort = 0, t_created = 0, t_updated = 0\<rparr>"

definition sample_check :: "int \<Rightarrow> int \<Rightarrow> bool \<Rightarrow> check_row" where
  "sample_check i t ok = \<lparr>c_id = i, c_target = 1, c_at = t, c_ok = ok, c_latency = 20, c_status = 200,
     c_error = '''', c_players = None, c_max_players = None, c_version = None\<rparr>"

definition sample_db :: db where
  "sample_db = empty_db\<lparr>targets := [sample_target],
     checks := [sample_check 1 7200 True, sample_check 2 7260 False, sample_check 3 7320 True]\<rparr>"

definition sample_rolled :: db where
  "sample_rolled = sample_db\<lparr>hourly := [\<lparr>h_target = 1, h_hour = 7200, h_total = 3, h_ok = 2, h_avg = 20,
     h_p95 = 20, h_max = 20\<rparr>]\<rparr>"

lemma sample_rollup: "Rollup (fromUnix 10900) sample_db = (Inr (), sample_rolled)"
  by code_simp

lemma sample_nonneg: "checks_nonneg sample_db" "checks_nonneg sample_rolled"
  by (simp_all add: checks_nonneg_def sample_rolled_def sample_db_def sample_check_def)

theorem rollup_exact_witness:
  "checks sample_rolled = checks sample_db \<and>
   find_hour 1 7200 (hourly sample_rolled) = Some (hour_row (1, 7200) (stats_of (hour_checks 1 7200 sample_db)))"
proof -
  have "hourStart (fromUnix 10900) = 10800" "hour_checks 1 7200 sample_db \<noteq> []" by code_simp+
  then show ?thesis
    using rollup_exact [OF sample_rollup sample_nonneg(1)]
    by (simp add: hour_len_def) (simp add: sample_rolled_def)
qed

section \<open>Hours stay exact\<close>

text \<open>When every hour of a target before \<open>s\<close> is exact, no aggregate at or after \<open>s\<close> is left
  over without checks, and the next rollup that succeeds comes no later than two hours after
  \<open>s\<close>, every hour before that rollup's current hour is exact.\<close>

lemma rollup_advances:
  assumes "Rollup now d = (Inr (), d')" and "checks_nonneg d"
    and "exact_between g lo s d"
    and "\<And>h. s \<le> h \<Longrightarrow> hour_checks g h d = [] \<Longrightarrow> find_hour g h (hourly d) = None"
    and "hourStart now - 2 * hour_len \<le> s"
  shows "exact_between g lo (hourStart now) d'"
  unfolding exact_between_def
proof (intro allI impI, elim conjE)
  fix h assume h: "hour_len dvd h" "lo \<le> h" "h < hourStart now"
  have same: "checks d' = checks d"
    using Rollup_Inr(1) [OF assms(1)] by (metis db.select_convs(2) db.surjective db.update_convs(3,8))
  then have hc: "hour_checks g h d' = hour_checks g h d" by (simp add: hour_checks_def)
  note look = Rollup_Inr(2) [OF assms(1), of g h]
  show "exact_hour g h d'"
  proof (cases "window_checks now g h (checks d) = []")
    case True
    have "exact_hour g h d"
    proof (cases "h < s")
      case True
      then show ?thesis using assms(3) h by (simp add: exact_between_def)
    next
      case False
      then have "hour_checks g h d = []"
        using window_checks_hour [OF assms(2) h(1) _ h(3), of g] assms(5) True by simp
      then show ?thesis using assms(4) [of h] False by (simp add: exact_hour_def)
    qed
    then show ?thesis using look True unfolding exact_hour_def hc by simp
  next
    case False
    then have "hourStart now - 2 * hour_len \<le> h"
      using window_checks_outside [OF assms(2), of now h g] by blast
    then have "window_checks now g h (checks d) = hour_checks g h d"
      using h by (intro window_checks_hour [OF assms(2)])
    then show ?thesis using look False unfolding exact_hour_def hc by (simp add: stats_of_def)
  qed
qed

section \<open>Uptime\<close>

lemma sum_by_key:
  assumes "distinct (map k rs)"
    and "\<And>r. r \<in> set rs \<Longrightarrow> f r = int (length (filter (\<lambda>c. b c = k r) cs))"
  shows "sum_list (map f rs) = int (length (filter (\<lambda>c. b c \<in> k ` set rs) cs))"
  using assms
proof (induction rs)
  case (Cons r rs)
  have "length (filter (\<lambda>c. b c \<in> insert a A) cs) = length (filter (\<lambda>c. b c = a) cs) + length (filter (\<lambda>c. b c \<in> A) cs)"
    if "a \<notin> A" for a A
    using that by (induction cs) auto
  then show ?case using Cons by simp
qed simp

lemma find_hour_mem:
  assumes "distinct (map (\<lambda>h. (h_target h, h_hour h)) hs)" and "r \<in> set hs"
  shows "find_hour (h_target r) (h_hour r) hs = Some r"
  using assms unfolding find_hour_def
proof (induction hs)
  case (Cons x hs)
  then show ?case by (cases "r = x") (auto simp: image_iff)
qed simp

lemma find_hour_SomeD:
  "find_hour g h hs = Some r \<Longrightarrow> r \<in> set hs \<and> h_target r = g \<and> h_hour r = h"
  unfolding find_hour_def by (auto simp: find_Some_iff in_set_conv_nth)

definition rows_between :: "int \<Rightarrow> int \<Rightarrow> int \<Rightarrow> db \<Rightarrow> hourly_row list" where
  "rows_between g lo hi d = filter (\<lambda>h. h_target h = g \<and> lo \<le> h_hour h \<and> h_hour h < hi) (hourly d)"

definition raw_between :: "int \<Rightarrow> int \<Rightarrow> int \<Rightarrow> db \<Rightarrow> check_row list" where
  "raw_between g lo hi d = filter (\<lambda>c. c_target c = g \<and> lo \<le> c_at c \<and> c_at c < hi) (checks d)"

definition raw_since :: "int \<Rightarrow> int \<Rightarrow> db \<Rightarrow> check_row list" where
  "raw_since g lo d = filter (\<lambda>c. c_target c = g \<and> lo \<le> c_at c) (checks d)"

lemma distinct_rows_between:
  assumes "db_ok d"
  shows "distinct (map h_hour (rows_between g lo hi d))"
proof -
  have "distinct (map (\<lambda>h. (h_target h, h_hour h)) (rows_between g lo hi d))"
    using db_okD(5) [OF assms] unfolding rows_between_def by (rule distinct_map_filter)
  moreover have "map (\<lambda>h. (h_target h, h_hour h)) (rows_between g lo hi d) = map (Pair g) (map h_hour (rows_between g lo hi d))"
    by (simp add: rows_between_def)
  ultimately show ?thesis by (metis distinct_map)
qed

lemma hours_cover:
  assumes "exact_between g lo hi d" and "checks_nonneg d" and "hour_len dvd lo" and "hour_len dvd hi"
    and "c \<in> set (checks d)" and "c_target c = g"
  shows "bucket_hour (c_at c) \<in> h_hour ` set (rows_between g lo hi d) \<longleftrightarrow> lo \<le> c_at c \<and> c_at c < hi"
proof -
  let ?h = "bucket_hour (c_at c)"
  have c: "0 \<le> c_at c" using assms(2,5) by (simp add: checks_nonneg_def)
  have iff: "lo \<le> ?h \<longleftrightarrow> lo \<le> c_at c" "?h < hi \<longleftrightarrow> c_at c < hi"
    using bucket_hour_ge_iff [OF c assms(3)] bucket_hour_ge_iff [OF c assms(4)] by auto
  have "?h \<in> h_hour ` set (rows_between g lo hi d)" if range: "lo \<le> ?h" "?h < hi"
  proof -
    have "exact_hour g ?h d" using assms(1) range bucket_hour_dvd by (simp add: exact_between_def)
    moreover have "c \<in> set (hour_checks g ?h d)" using assms(5,6) by (simp add: hour_checks_def)
    ultimately obtain r where "find_hour g ?h (hourly d) = Some r"
      by (auto simp: exact_hour_def split: option.splits)
    then have "r \<in> set (rows_between g lo hi d)" "h_hour r = ?h"
      using range by (auto dest!: find_hour_SomeD simp: rows_between_def)
    then show ?thesis by force
  qed
  then show ?thesis using iff by (auto simp: rows_between_def)
qed

lemma rows_sum_to_checks:
  assumes "db_ok d" and "checks_nonneg d" and "exact_between g lo hi d" and "hour_len dvd lo" and "hour_len dvd hi"
  shows "sum_list (map h_total (rows_between g lo hi d)) = int (length (raw_between g lo hi d))" (is ?T)
    and "sum_list (map h_ok (rows_between g lo hi d)) = count_where c_ok (raw_between g lo hi d)" (is ?K)
proof -
  let ?rows = "rows_between g lo hi d" and ?mine = "filter (\<lambda>c. c_target c = g) (checks d)"
  have row: "h_total r = int (length (filter (\<lambda>c. bucket_hour (c_at c) = h_hour r) ?mine)) \<and>
      h_ok r = int (length (filter (\<lambda>c. bucket_hour (c_at c) = h_hour r) (filter c_ok ?mine)))"
    if "r \<in> set ?rows" for r
  proof -
    have r: "r \<in> set (hourly d)" "h_target r = g" "lo \<le> h_hour r" "h_hour r < hi"
      using that by (simp_all add: rows_between_def)
    then have "exact_hour g (h_hour r) d"
      using assms(3) db_okD(7) [OF assms(1)] by (simp add: exact_between_def)
    moreover have "find_hour g (h_hour r) (hourly d) = Some r"
      using find_hour_mem [OF db_okD(5) [OF assms(1)] r(1)] r(2) by simp
    ultimately show ?thesis
      by (simp add: exact_hour_def hour_checks_def count_where_def conj_ac)
  qed
  have cover: "filter (\<lambda>c. bucket_hour (c_at c) \<in> h_hour ` set ?rows) ?mine = raw_between g lo hi d"
    unfolding raw_between_def filter_filter using hours_cover [OF assms(3,2,4,5)]
    by (intro filter_cong) auto
  have dist: "distinct (map h_hour ?rows)" by (rule distinct_rows_between [OF assms(1)])
  show ?T using sum_by_key [OF dist, of h_total "\<lambda>c. bucket_hour (c_at c)" ?mine] row cover by simp
  have "sum_list (map h_ok ?rows) = int (length (filter (\<lambda>c. bucket_hour (c_at c) \<in> h_hour ` set ?rows) (filter c_ok ?mine)))"
    by (rule sum_by_key [OF dist]) (use row in simp)
  also have "filter (\<lambda>c. bucket_hour (c_at c) \<in> h_hour ` set ?rows) (filter c_ok ?mine) = filter c_ok (raw_between g lo hi d)"
    unfolding cover [symmetric] by (simp add: conj_ac)
  finally show ?K by (simp add: count_where_def)
qed

text \<open>The share of successful checks among the raw ones since an instant.\<close>

definition raw_ratio :: "int \<Rightarrow> int \<Rightarrow> db \<Rightarrow> rat" where
  "raw_ratio g lo d = ratio (count_where c_ok (raw_since g lo d)) (int (length (raw_since g lo d)))"

lemma raw_since_split:
  assumes "lo \<le> cur"
  shows "length (raw_since g lo d) = length (raw_between g lo cur d) + length (raw_since g cur d)"
    and "count_where c_ok (raw_since g lo d) = count_where c_ok (raw_between g lo cur d) + count_where c_ok (raw_since g cur d)"
proof -
  have "length (filter P (raw_since g lo d)) =
      length (filter P (raw_between g lo cur d)) + length (filter P (raw_since g cur d))" for P
  proof -
    have "length (filter P (filter (\<lambda>c. c_target c = g \<and> lo \<le> c_at c) cs)) =
        length (filter P (filter (\<lambda>c. c_target c = g \<and> lo \<le> c_at c \<and> c_at c < cur) cs)) +
        length (filter P (filter (\<lambda>c. c_target c = g \<and> cur \<le> c_at c) cs))" for cs
      using assms by (induction cs) auto
    then show ?thesis by (simp only: raw_since_def raw_between_def)
  qed
  from this [of "\<lambda>_. True"] this [of c_ok]
  show "length (raw_since g lo d) = length (raw_between g lo cur d) + length (raw_since g cur d)"
    "count_where c_ok (raw_since g lo d) = count_where c_ok (raw_between g lo cur d) + count_where c_ok (raw_since g cur d)"
    by (simp_all add: count_where_def)
qed

lemma raw_ratio_aggregated:
  assumes "db_ok d" and "checks_nonneg d" and "exact_between g lo cur d" and "hour_len dvd lo"
    and "hour_len dvd cur" and "lo \<le> cur"
  shows "ratio (sum_list (map h_ok (rows_between g lo cur d)) + count_where c_ok (raw_since g cur d))
      (sum_list (map h_total (rows_between g lo cur d)) + int (length (raw_since g cur d))) = raw_ratio g lo d"
  using rows_sum_to_checks [OF assms(1-5)] raw_since_split [OF assms(6), of g d]
  by (simp add: raw_ratio_def)

lemma sum_hours_between:
  "lo \<le> lo' \<Longrightarrow> sum_hours f lo' (rows_between g lo cur d) = sum_list (map f (rows_between g lo' cur d))"
  unfolding sum_hours_def rows_between_def filter_filter
  by (rule arg_cong [where f = "\<lambda>xs. sum_list (map f xs)"], rule filter_cong) auto

lemma exact_between_mono: "exact_between g lo hi d \<Longrightarrow> lo \<le> lo' \<Longrightarrow> exact_between g lo' hi d"
  unfolding exact_between_def by (meson order_trans)

lemma StoreUptime_eq:
  "fst (StoreUptime now g d) = Inl ErrDriver \<and> \<not> healthy d \<or>
   fst (StoreUptime now g d) =
     (let cur = hourStart now; rows = (\<lambda>n. rows_between g (cur - n * hour_len) cur d);
          share = (\<lambda>n. ratio (sum_list (map h_ok (rows n)) + count_where c_ok (raw_since g cur d))
                         (sum_list (map h_total (rows n)) + int (length (raw_since g cur d))))
      in Inr \<lparr>up_Day = share 23, up_Week = share 167, up_Month = share 719\<rparr>)"
proof -
  let ?cur = "hourStart now"
  have hs: "filter (\<lambda>h. h_target h = g \<and> h_hour h < ?cur \<and> ?cur - 719 * hour_len \<le> h_hour h) (hourly d) =
      rows_between g (?cur - 719 * hour_len) ?cur d" for d
    unfolding rows_between_def by (rule filter_cong) auto
  have "?cur - 719 * hour_len \<le> ?cur - 23 * hour_len" "?cur - 719 * hour_len \<le> ?cur - 167 * hour_len"
    by (simp_all add: hour_len_def)
  note sums = this [THEN sum_hours_between]
  have "rows_between g lo ?cur (d\<lparr>faults := fs\<rparr>) = rows_between g lo ?cur d" for lo fs d
    by (simp add: rows_between_def)
  then show ?thesis
    unfolding StoreUptime_def Let_def hs sums and_then_def rawHour_def exec_def healthy_def raw_since_def
    by (auto split: list.splits if_splits)
qed

text \<open>C6: When the aggregates of the last 719 hours are exact, the uptime of a day, a week and a
  month is the share of successful raw checks since the start of the 24th, the 168th and the
  720th hour counted back from the current one; a failing driver is reported as such.\<close>

theorem uptime_refines:
  assumes "db_ok d" and "checks_nonneg d"
    and "exact_between g (hourStart now - 719 * hour_len) (hourStart now) d"
  shows "fst (StoreUptime now g d) = Inl ErrDriver \<and> \<not> healthy d \<or>
    fst (StoreUptime now g d) = Inr \<lparr>up_Day = raw_ratio g (hourStart now - 23 * hour_len) d,
       up_Week = raw_ratio g (hourStart now - 167 * hour_len) d,
       up_Month = raw_ratio g (hourStart now - 719 * hour_len) d\<rparr>"
proof -
  have share: "raw_ratio g (hourStart now - n * hour_len) d =
      ratio (sum_list (map h_ok (rows_between g (hourStart now - n * hour_len) (hourStart now) d))
               + count_where c_ok (raw_since g (hourStart now) d))
        (sum_list (map h_total (rows_between g (hourStart now - n * hour_len) (hourStart now) d))
               + int (length (raw_since g (hourStart now) d)))" if "0 \<le> n" "n \<le> 719" for n
  proof (rule raw_ratio_aggregated [OF assms(1,2), symmetric])
    show "exact_between g (hourStart now - n * hour_len) (hourStart now) d"
      using that by (intro exact_between_mono [OF assms(3)]) (simp add: hour_len_def)
  qed (use that in \<open>simp_all add: dvd_diff\<close>, simp add: hour_len_def)
  show ?thesis
    using StoreUptime_eq [of now g d] share [of 23] share [of 167] share [of 719] by (simp add: Let_def)
qed

lemma sample_ok: "db_ok sample_db" "db_ok sample_rolled"
  by code_simp+

lemma sample_exact: "exact_between 1 lo 10800 sample_rolled"
  by (auto simp: exact_between_def exact_hour_def hour_checks_def find_hour_def sample_rolled_def sample_db_def
      empty_db_def sample_check_def bucket_hour_def hour_len_def go_arith count_where_def)

theorem uptime_refines_witness:
  "\<exists>u. fst (StoreUptime (fromUnix 10900) 1 sample_rolled) = Inr u \<and> up_Day u = 2 / 3"
proof -
  have "hourStart (fromUnix 10900) = 10800" "healthy sample_rolled" by code_simp+
  moreover have "raw_ratio 1 (10800 - 23 * hour_len) sample_rolled = 2 / 3"
    by (simp add: raw_ratio_def raw_since_def sample_rolled_def sample_db_def sample_check_def empty_db_def
        count_where_def ratio_def hour_len_def)
  ultimately show ?thesis
    using uptime_refines [OF sample_ok(2) sample_nonneg(2), of 1 "fromUnix 10900"] sample_exact by simp
qed

section \<open>The hours an outage loses\<close>



section \<open>Hour cells and latency points\<close>

definition cell_index :: "int \<Rightarrow> hourly_row \<Rightarrow> nat" where
  "cell_index first h = nat ((h_hour h - first) sdiv hour_len)"

definition fill_cell :: "hourly_row option \<Rightarrow> Hour \<Rightarrow> Hour" where
  "fill_cell r c = (case r of None \<Rightarrow> c | Some h \<Rightarrow> c\<lparr>hr_Total := h_total h, hr_OK := h_ok h\<rparr>)"

lemma put_cells_nth:
  assumes "\<And>h. h \<in> set hs \<Longrightarrow> first \<le> h_hour h \<and> h_hour h < first + int (length cells) * hour_len"
    and "distinct (map (cell_index first) hs)"
  shows "\<exists>cells'. put_cells first hs cells = Some cells' \<and> length cells' = length cells \<and>
     (\<forall>i < length cells. cells' ! i = fill_cell (find (\<lambda>h. cell_index first h = i) hs) (cells ! i))"
  using assms
proof (induction hs arbitrary: cells)
  case Nil
  then show ?case by (simp add: fill_cell_def)
next
  case (Cons h hs)
  let ?i = "(h_hour h - first) sdiv hour_len"
  have range: "first \<le> h_hour h" "h_hour h < first + int (length cells) * hour_len" using Cons.prems by auto
  then have i: "0 \<le> ?i" "?i < int (length cells)"
    by (simp_all add: hour_len_def go_arith)
  let ?cells = "cells[nat ?i := (cells ! nat ?i)\<lparr>hr_Total := h_total h, hr_OK := h_ok h\<rparr>]"
  have "\<exists>cells'. put_cells first hs ?cells = Some cells' \<and> length cells' = length ?cells \<and>
     (\<forall>i < length ?cells. cells' ! i = fill_cell (find (\<lambda>h. cell_index first h = i) hs) (?cells ! i))"
    using Cons.prems by (intro Cons.IH) auto
  then obtain cells' where put: "put_cells first hs ?cells = Some cells'" and len: "length cells' = length cells"
    and nth: "\<And>i. i < length cells \<Longrightarrow> cells' ! i = fill_cell (find (\<lambda>h. cell_index first h = i) hs) (?cells ! i)"
    by auto
  have "find (\<lambda>g. cell_index first g = cell_index first h) hs = None"
    using Cons.prems(2) unfolding find_None_iff by (metis distinct.simps(2) image_eqI list.set_map list.simps(9))
  then have "cells' ! j = fill_cell (find (\<lambda>h. cell_index first h = j) (h # hs)) (cells ! j)" if "j < length cells" for j
    using nth [OF that] that by (auto simp: fill_cell_def cell_index_def split: option.split)
  then show ?case using i put len by (simp add: Let_def)
qed

lemma cell_index_aligned:
  assumes "hour_len dvd h_hour h" and "hour_len dvd first" and "first \<le> h_hour h"
  shows "h_hour h = first + int (cell_index first h) * hour_len"
proof -
  obtain k l where "h_hour h = hour_len * k" "first = hour_len * l" using assms(1,2) by (metis dvdE)
  then show ?thesis using assms(3) by (simp add: cell_index_def hour_len_def go_arith)
qed

lemma find_cong_index:
  assumes "\<And>h. h \<in> set hs \<Longrightarrow> h_hour h = first + int (cell_index first h) * hour_len"
  shows "find (\<lambda>h. cell_index first h = i) hs = find (\<lambda>h. h_hour h = first + int i * hour_len) hs"
  using assms by (intro find_cong refl) (auto simp: hour_len_def)

text \<open>The cell of one hour before the current one.\<close>

definition hour_cell :: "int \<Rightarrow> int \<Rightarrow> db \<Rightarrow> Hour" where
  "hour_cell g h d =
     fill_cell (find_hour g h (hourly d)) \<lparr>hr_Start = fromUnix h, hr_Total = 0, hr_OK = 0\<rparr>"

lemma find_filter_hour:
  "lo \<le> h \<Longrightarrow> h < hi \<Longrightarrow>
   find (\<lambda>r. h_hour r = h) (filter (\<lambda>r. h_target r = g \<and> lo \<le> h_hour r \<and> h_hour r < hi) hs) = find_hour g h hs"
  unfolding find_hour_def by (induction hs) auto

lemma put_cells_rows:
  assumes "db_ok d" and "0 < n" and "first = hourStart now - (n - 1) * hour_len"
  shows "\<exists>cells. put_cells first (rows_between g first (hourStart now) d)
      (map (\<lambda>i. \<lparr>hr_Start = fromUnix (first + int i * hour_len), hr_Total = 0, hr_OK = 0\<rparr>) [0..<nat n]) = Some cells \<and>
    length cells = nat n \<and>
    (\<forall>i < nat (n - 1). cells ! i = hour_cell g (first + int i * hour_len) d) \<and>
    hr_Start (cells ! nat (n - 1)) = fromUnix (hourStart now)"
proof -
  let ?rows = "rows_between g first (hourStart now) d"
  let ?zero = "map (\<lambda>i. \<lparr>hr_Start = fromUnix (first + int i * hour_len), hr_Total = 0, hr_OK = 0\<rparr>) [0..<nat n]"
  have "hour_len dvd first" using assms(3) by (simp add: dvd_diff)
  then have aligned: "h_hour h = first + int (cell_index first h) * hour_len" if "h \<in> set ?rows" for h
    using that db_okD(7) [OF assms(1)] by (intro cell_index_aligned) (auto simp: rows_between_def)
  have "first \<le> h_hour h \<and> h_hour h < first + int (length ?zero) * hour_len" if "h \<in> set ?rows" for h
    using that assms by (simp add: hour_len_def rows_between_def)
  moreover have "distinct (map (cell_index first) ?rows)"
    using distinct_rows_between [OF assms(1), of g first "hourStart now"] aligned
    by (auto simp: distinct_map inj_on_def)
  ultimately obtain cells where put: "put_cells first ?rows ?zero = Some cells" and len: "length cells = nat n"
    and nth: "\<And>i. i < nat n \<Longrightarrow> cells ! i = fill_cell (find (\<lambda>h. cell_index first h = i) ?rows) (?zero ! i)"
    using put_cells_nth [of ?rows first ?zero] by auto
  have cell: "cells ! i = fill_cell (find (\<lambda>h. h_hour h = first + int i * hour_len) ?rows) (?zero ! i)" if "i < nat n" for i
    using nth [OF that] find_cong_index [of ?rows first i, OF aligned] by simp
  have "cells ! i = hour_cell g (first + int i * hour_len) d" if "i < nat (n - 1)" for i
  proof -
    have "first \<le> first + int i * hour_len" "first + int i * hour_len < hourStart now"
      using that assms(3) by (simp_all add: hour_len_def)
    from find_filter_hour [OF this] show ?thesis
      using cell [of i] that by (simp add: hour_cell_def rows_between_def)
  qed
  moreover have "hr_Start (cells ! nat (n - 1)) = fromUnix (hourStart now)"
    using cell [of "nat (n - 1)"] assms(2,3) by (simp add: fill_cell_def split: option.split)
  ultimately show ?thesis using put len by blast
qed

text \<open>For a positive number of hours the hour cells are exactly that many, one per hour and
  without a gap up to the current hour: every cell but the last shows the aggregate of its
  hour, or zeros when there is none, and the last the raw checks of the current hour. No cell
  is written out of range, and a failing driver is reported as such.\<close>

lemma hours_cells:
  assumes "db_ok d" and "0 < n"
  shows "fst (Hours now g n d) = Inl ErrDriver \<and> \<not> healthy d \<or>
    fst (Hours now g n d) =
      Inr (map (\<lambda>i. hour_cell g (hourStart now - (n - 1 - int i) * hour_len) d) [0..<nat (n - 1)] @
        [\<lparr>hr_Start = fromUnix (hourStart now), hr_Total = int (length (raw_since g (hourStart now) d)),
          hr_OK = count_where c_ok (raw_since g (hourStart now) d)\<rparr>])"
proof -
  define first where "first = hourStart now - (n - 1) * hour_len"
  obtain cells where put: "put_cells first (rows_between g first (hourStart now) d)
      (map (\<lambda>i. \<lparr>hr_Start = fromUnix (first + int i * hour_len), hr_Total = 0, hr_OK = 0\<rparr>) [0..<nat n]) = Some cells"
    and len: "length cells = nat n"
    and nth: "\<And>i. i < nat (n - 1) \<Longrightarrow> cells ! i = hour_cell g (first + int i * hour_len) d"
    and start: "hr_Start (cells ! nat (n - 1)) = fromUnix (hourStart now)"
    using put_cells_rows [OF assms first_def] by blast
  have lst: "go_nth cells (n - 1) = Some (cells ! nat (n - 1))" using assms len by (simp add: go_nth_def)
  let ?out = "cells[nat (n - 1) := (cells ! nat (n - 1))\<lparr>hr_Total := int (length (raw_since g (hourStart now) d)),
      hr_OK := count_where c_ok (raw_since g (hourStart now) d)\<rparr>]"
  have "fst (Hours now g n d) = Inl ErrDriver \<and> \<not> healthy d \<or> fst (Hours now g n d) = Inr ?out"
    using assms(2) put unfolding Hours_def Let_def and_then_def rawHour_def exec_def healthy_def raw_since_def
      rows_between_def first_def
    by (auto simp: lst split: list.splits if_splits)
  moreover have "?out = map (\<lambda>i. hour_cell g (hourStart now - (n - 1 - int i) * hour_len) d) [0..<nat (n - 1)] @
        [\<lparr>hr_Start = fromUnix (hourStart now), hr_Total = int (length (raw_since g (hourStart now) d)),
          hr_OK = count_where c_ok (raw_since g (hourStart now) d)\<rparr>]"
    (is "_ = ?cells @ [?now]")
  proof (rule nth_equalityI)
    fix i assume i: "i < length ?out"
    show "?out ! i = (?cells @ [?now]) ! i"
    proof (cases "i = nat (n - 1)")
      case True
      then show ?thesis using i start by (simp add: nth_append)
    next
      case False
      then have "i < nat (n - 1)" using i len by simp
      then show ?thesis using nth by (simp add: nth_append first_def algebra_simps)
    qed
  qed (use len assms(2) in simp)
  ultimately show ?thesis by simp
qed

section \<open>Latency points\<close>

definition slot :: "int \<Rightarrow> int" where "slot t = t - t smod step_len"

definition sample_stats :: "int list \<Rightarrow> stats" where
  "sample_stats xs = \<lparr>st_total = int (length xs), st_ok = int (length xs), st_lat = xs\<rparr>"

definition point_of :: "int \<Rightarrow> int list \<Rightarrow> Point" where
  "point_of s xs = (case the (latency (sample_stats xs)) of (avg, p95, mx) \<Rightarrow>
     \<lparr>pt_At = fromUnix s, pt_Avg = avg, pt_P95 = p95, pt_Max = mx\<rparr>)"

definition slot_lats :: "int \<Rightarrow> (int \<times> int) list \<Rightarrow> int list" where
  "slot_lats s rows = map snd (filter (\<lambda>r. slot (fst r) = s) rows)"

lemma slot_nonneg: "0 \<le> t \<Longrightarrow> 0 \<le> slot t"
  by (simp add: slot_def step_len_def go_arith zmod_le_nonneg_dividend)

lemma slot_mono: "0 \<le> t \<Longrightarrow> t \<le> u \<Longrightarrow> slot t \<le> slot u"
  by (simp add: slot_def step_len_def go_arith minus_mod_eq_div_mult zdiv_mono1)

lemma flush_point_eq: "flush_point b (sample_stats xs) out = Some (out @ [point_of b xs])"
  using latency_defined [of "sample_stats xs"] by (auto simp: flush_point_def point_of_def)

lemma stats_add_sample: "stats_add True lat (sample_stats xs) = sample_stats (xs @ [lat])"
  by (simp add: stats_add_def sample_stats_def Let_def)

lemma empty_sample: "empty_stats = sample_stats []"
  by (simp add: empty_stats_def sample_stats_def)

lemma sorted_list_insert_min:
  fixes A :: "int set"
  assumes "finite A" and "\<forall>a \<in> A. s \<le> a"
  shows "sorted_list_of_set (insert s A) = s # sorted_list_of_set (A - {s})"
proof -
  have "Min (insert s A) = s" using assms by (intro Min_eqI) auto
  then show ?thesis using assms(1) by (subst sorted_list_of_set_nonempty) auto
qed

lemma latency_loop_points:
  assumes "sorted (map (\<lambda>r. slot (fst r)) rows)" and "\<And>r. r \<in> set rows \<Longrightarrow> b \<le> slot (fst r)" and "0 \<le> b"
  shows "latency_loop rows b (sample_stats xs) out =
     Some (out @ point_of b (xs @ slot_lats b rows) #
       map (\<lambda>s. point_of s (slot_lats s rows)) (sorted_list_of_set ((\<lambda>r. slot (fst r)) ` set rows - {b})))"
  using assms
proof (induction rows arbitrary: b xs out)
  case Nil
  then show ?case by (simp add: flush_point_eq slot_lats_def)
next
  case (Cons r rows)
  obtain t lat where r: "r = (t, lat)" by (rule prod.exhaust)
  let ?A = "(\<lambda>r. slot (fst r)) ` set rows"
  have above: "\<And>q. q \<in> set rows \<Longrightarrow> slot t \<le> slot (fst q)" and srt: "sorted (map (\<lambda>r. slot (fst r)) rows)"
    using Cons.prems(1) r by auto
  have bucket: "t - t smod step_len = slot t" by (simp add: slot_def)
  show ?case
  proof (cases "slot t = b")
    case True
    then have eq: "slot_lats b (r # rows) = lat # slot_lats b rows"
      "(\<lambda>r. slot (fst r)) ` set (r # rows) - {b} = ?A - {b}"
      "s \<noteq> b \<Longrightarrow> slot_lats s (r # rows) = slot_lats s rows" for s
      using r by (auto simp: slot_lats_def)
    have "latency_loop (r # rows) b (sample_stats xs) out = latency_loop rows b (sample_stats (xs @ [lat])) out"
      using r True by (simp add: bucket stats_add_sample)
    also have "\<dots> = Some (out @ point_of b ((xs @ [lat]) @ slot_lats b rows) #
       map (\<lambda>s. point_of s (slot_lats s rows)) (sorted_list_of_set (?A - {b})))"
      using above srt True Cons.prems(3) by (intro Cons.IH) auto
    finally show ?thesis using eq by simp
  next
    case False
    have less: "b < slot t" using Cons.prems(2) [of r] r False by simp
    have eq: "slot_lats b (r # rows) = []" "slot_lats (slot t) (r # rows) = lat # slot_lats (slot t) rows"
      "s \<noteq> slot t \<Longrightarrow> slot_lats s (r # rows) = slot_lats s rows" for s
      using r above less by (auto simp: slot_lats_def filter_empty_conv dest: above)
    have "(\<lambda>r. slot (fst r)) ` set (r # rows) - {b} = insert (slot t) ?A"
      using r less above by force
    then have slots: "sorted_list_of_set ((\<lambda>r. slot (fst r)) ` set (r # rows) - {b}) =
        slot t # sorted_list_of_set (?A - {slot t})"
      using sorted_list_insert_min [of ?A "slot t"] above by (simp only:) blast
    have "latency_loop (r # rows) b (sample_stats xs) out =
        latency_loop rows (slot t) (sample_stats [lat]) (out @ [point_of b xs])"
      using r False Cons.prems(3)
      by (simp add: bucket flush_point_eq stats_add_sample [of lat "[]", simplified] empty_sample)
    also have "\<dots> = Some ((out @ [point_of b xs]) @ point_of (slot t) ([lat] @ slot_lats (slot t) rows) #
       map (\<lambda>s. point_of s (slot_lats s rows)) (sorted_list_of_set (?A - {slot t})))"
      using above srt less Cons.prems(3) by (intro Cons.IH) auto
    finally show ?thesis unfolding slots using eq by simp
  qed
qed

lemma latency_loop_start:
  assumes "sorted (map fst rows)" and "\<And>r. r \<in> set rows \<Longrightarrow> 0 \<le> fst r"
  shows "latency_loop rows (- 1) empty_stats [] =
     Some (map (\<lambda>s. point_of s (slot_lats s rows)) (sorted_list_of_set ((\<lambda>r. slot (fst r)) ` set rows)))"
proof (cases rows)
  case (Cons r rest)
  obtain t lat where r: "r = (t, lat)" by (rule prod.exhaust)
  let ?A = "(\<lambda>r. slot (fst r)) ` set rows"
  have t: "0 \<le> t" "0 \<le> slot t" using assms(2) [of r] Cons r slot_nonneg by auto
  have above: "slot t \<le> slot (fst q)" if "q \<in> set rows" for q
    using assms(1) Cons r t slot_mono that by auto
  have srt: "sorted (map (\<lambda>r. slot (fst r)) rows)"
    using assms by (auto simp: sorted_map intro!: sorted_wrt_mono_rel [of rows "\<lambda>x y. fst x \<le> fst y"] slot_mono)
  have "latency_loop rows (- 1) empty_stats [] = latency_loop rows (slot t) (sample_stats []) []"
    using Cons r t by (simp add: slot_def [symmetric] Let_def empty_sample)
  also have "\<dots> = Some ([] @ point_of (slot t) ([] @ slot_lats (slot t) rows) #
       map (\<lambda>s. point_of s (slot_lats s rows)) (sorted_list_of_set (?A - {slot t})))"
    using above srt t by (intro latency_loop_points) auto
  finally have loop: "latency_loop rows (- 1) empty_stats [] =
     Some (map (\<lambda>s. point_of s (slot_lats s rows)) (slot t # sorted_list_of_set (?A - {slot t})))" by simp
  have "insert (slot t) ?A = ?A" using Cons r by auto
  moreover have "sorted_list_of_set (insert (slot t) ?A) = slot t # sorted_list_of_set (?A - {slot t})"
    using above by (intro sorted_list_insert_min) blast+
  ultimately show ?thesis using loop by metis
qed simp

text \<open>The successful checks a latency chart of length \<open>dur\<close> is drawn from.\<close>

definition chart_checks :: "time \<Rightarrow> int \<Rightarrow> duration \<Rightarrow> db \<Rightarrow> check_row list" where
  "chart_checks now g dur d =
     filter (\<lambda>c. c_target c = g \<and> c_ok c \<and> unixSec (addTime now (- dur)) \<le> c_at c) (checks d)"

lemma slot_lats_sorted:
  "mset (slot_lats s (map (\<lambda>c. (c_at c, c_latency c)) (sort_key c_at cs))) =
   mset (map c_latency (filter (\<lambda>c. slot (c_at c) = s) cs))"
proof -
  have "slot_lats s (map (\<lambda>c. (c_at c, c_latency c)) (sort_key c_at cs)) =
      map c_latency (filter (\<lambda>c. slot (c_at c) = s) (sort_key c_at cs))"
    by (simp add: slot_lats_def filter_map comp_def)
  then show ?thesis by simp
qed

lemma point_of_mset: "mset xs = mset ys \<Longrightarrow> point_of s xs = point_of s ys"
  using latency_mset [of "sample_stats xs" "sample_stats ys"] by (simp add: point_of_def sample_stats_def)

text \<open>A latency chart of at most a day has one point per ten-minute slot in which a check
  succeeded, in increasing order of time, each with the average, the 95th percentile and the
  maximum of exactly the successful checks of its slot; no index is out of range and a failing
  driver is reported as such.\<close>

lemma latency_points:
  assumes "checks_nonneg d" and "dur \<le> 24 * hourDur"
  shows "fst (Latency now g dur d) = Inl ErrDriver \<and> \<not> healthy d \<or>
    fst (Latency now g dur d) =
      Inr (map (\<lambda>s. point_of s (map c_latency (filter (\<lambda>c. slot (c_at c) = s) (chart_checks now g dur d))))
        (sorted_list_of_set ((\<lambda>c. slot (c_at c)) ` set (chart_checks now g dur d))))"
proof -
  let ?rows = "map (\<lambda>c. (c_at c, c_latency c)) (sort_key c_at (chart_checks now g dur d))"
  have "sorted (map fst ?rows)" by (simp add: comp_def)
  moreover have "0 \<le> fst r" if "r \<in> set ?rows" for r
    using that assms(1) by (auto simp: checks_nonneg_def chart_checks_def)
  ultimately have loop: "latency_loop ?rows (- 1) empty_stats [] =
      Some (map (\<lambda>s. point_of s (slot_lats s ?rows)) (sorted_list_of_set ((\<lambda>r. slot (fst r)) ` set ?rows)))"
    by (rule latency_loop_start)
  have slots: "(\<lambda>r. slot (fst r)) ` set ?rows = (\<lambda>c. slot (c_at c)) ` set (chart_checks now g dur d)"
    by (simp add: image_image)
  have points: "point_of s (slot_lats s ?rows) =
      point_of s (map c_latency (filter (\<lambda>c. slot (c_at c) = s) (chart_checks now g dur d)))" for s
    by (rule point_of_mset [OF slot_lats_sorted])
  have "fst (Latency now g dur d) = Inl ErrDriver \<and> \<not> healthy d \<or>
    fst (Latency now g dur d) = (case latency_loop ?rows (- 1) empty_stats [] of None \<Rightarrow> Inl ErrPanic | Some out \<Rightarrow> Inr out)"
    using assms(2) unfolding Latency_def Let_def and_then_def exec_def healthy_def chart_checks_def
    by (auto split: list.splits if_splits option.splits)
  then show ?thesis unfolding loop slots points by simp
qed

section \<open>What retention leaves\<close>



end
