(* ===== verification/Web_Public.thy ===== *)
theory Web_Public
  imports Store_Uptime Store_Incidents
begin

text \<open>
  The public pages of \<^verbatim>\<open>internal/web/public.go\<close>: what the handlers read from the store and put into
  the page data of \<^verbatim>\<open>view.go\<close>. Charts and the bytes of an answer are in \<open>Chart\<close> and \<open>Web_Server\<close>; here a
  handler's answer is \<open>NotFound\<close>, \<open>Failed\<close> (the 500 page) or the page data.
\<close>

section \<open>States\<close>

datatype State = StatePaused | StateUnknown | StateUp | StateDown

text \<open>The states in the order of what a visitor has to know first.\<close>

instantiation State :: linorder
begin

definition rank_State :: "State \<Rightarrow> nat" where
  "rank_State s = (case s of StatePaused \<Rightarrow> 0 | StateUnknown \<Rightarrow> 1 | StateUp \<Rightarrow> 2 | StateDown \<Rightarrow> 3)"

definition less_eq_State :: "State \<Rightarrow> State \<Rightarrow> bool" where "a \<le> b \<longleftrightarrow> rank_State a \<le> rank_State b"

definition less_State :: "State \<Rightarrow> State \<Rightarrow> bool" where "a < b \<longleftrightarrow> rank_State a < rank_State b"

instance
  by standard (auto simp: less_eq_State_def less_State_def rank_State_def split: State.splits)

end

record Players =
  pl_Count :: int
  pl_Max :: int
  pl_Version :: string

record HourCell =
  hc_Start :: time
  hc_State :: State
  hc_Uptime :: rat

record TargetRow =
  tr_ID :: int
  tr_Name :: string
  tr_Kind :: string
  tr_State :: State
  tr_Uptime24h :: rat
  tr_Uptime7d :: rat
  tr_Uptime30d :: rat
  tr_LatencyMs :: int
  tr_Players :: "Players option"
  tr_Hours :: "HourCell list"

record IncidentRow =
  ir_TargetID :: int
  ir_TargetName :: string
  ir_StartedAt :: time
  ir_EndedAt :: "time option"
  ir_Duration :: duration
  ir_Cause :: string

section \<open>Cells and overall state\<close>

definition sum_cell :: "Hour list \<Rightarrow> HourCell" where
  "sum_cell hs =
     (let tot = sum_list (map hr_Total hs); ok = sum_list (map hr_OK hs)
      in \<lparr>hc_Start = hr_Start (hd hs),
          hc_State = (if 0 < tot then if ok < tot then StateDown else StateUp else StateUnknown),
          hc_Uptime = (if 0 < tot then of_int ok / of_int tot else - 1)\<rparr>)"

text \<open>The loop over groups of \<open>n\<close> hours, for a positive \<open>n\<close>; an incomplete last group is left out.\<close>

function cells_loop :: "Hour list \<Rightarrow> nat \<Rightarrow> nat \<Rightarrow> HourCell list" where
  "cells_loop hours n i =
     (if 0 < n \<and> i + n \<le> length hours
      then sum_cell (List.take n (drop i hours)) # cells_loop hours n (i + n) else [])"
  by pat_completeness auto
termination by (relation "measure (\<lambda>(hours, n, i). length hours - i)") auto

declare cells_loop.simps [simp del]

definition cells :: "Hour list \<Rightarrow> nat \<Rightarrow> HourCell list" where
  "cells hours n = cells_loop hours n 0"

fun overall_loop :: "TargetRow list \<Rightarrow> int \<Rightarrow> bool \<Rightarrow> (int \<times> bool) option" where
  "overall_loop [] active seen = Some (active, seen)"
| "overall_loop (r # rs) active seen =
     (if tr_State r = StateDown then None
      else overall_loop rs (if tr_State r \<noteq> StatePaused then active + 1 else active)
             (if tr_State r = StateUp then True else seen))"

definition overallState :: "TargetRow list \<Rightarrow> State" where
  "overallState rows =
     (case overall_loop rows 0 False of
        None \<Rightarrow> StateDown
      | Some (active, seen) \<Rightarrow>
          if 0 < length rows \<and> active = 0 then StatePaused
          else if \<not> seen then StateUnknown else StateUp)"

definition incidentRow :: "time \<Rightarrow> bool \<Rightarrow> Incident \<Rightarrow> IncidentRow" where
  "incidentRow now isAdmin i =
     \<lparr>ir_TargetID = inc_TargetID i, ir_TargetName = inc_TargetName i, ir_StartedAt = inc_StartedAt i,
      ir_EndedAt = (if incident_Open i then None else Some (inc_EndedAt i)),
      ir_Duration = (if incident_Open i then subTime now (inc_StartedAt i) else subTime (inc_EndedAt i) (inc_StartedAt i)),
      ir_Cause = (if isAdmin then inc_Cause i else [])\<rparr>"

definition incidentRows :: "Incident list \<Rightarrow> time \<Rightarrow> bool \<Rightarrow> IncidentRow list" where
  "incidentRows incs now isAdmin = map (incidentRow now isAdmin) incs"

section \<open>A row\<close>

definition zero_result :: Result where
  "zero_result = \<lparr>res_OK = False, res_LatencyMs = 0, res_StatusCode = 0, res_Err = [], res_Players = None,
     res_MaxPlayers = None, res_Version = []\<rparr>"

definition zero_check :: Check where "zero_check = \<lparr>chk_At = zeroTime, chk_Result = zero_result\<rparr>"

definition row :: "time \<Rightarrow> Target \<Rightarrow> int \<Rightarrow> db \<Rightarrow> (TargetRow \<times> Check) result \<times> db" where
  "row now t hours =
     and_then (LastChecks (ID t) 1) (\<lambda>cs.
     let lst = (case cs of [] \<Rightarrow> zero_check | c # _ \<Rightarrow> c); res = chk_Result lst;
         st = (if cs = [] then StateUnknown else if res_OK res then StateUp else StateDown);
         r = \<lparr>tr_ID = ID t, tr_Name = Name t, tr_Kind = Kind t,
              tr_State = (if Paused t then StatePaused else st),
              tr_Uptime24h = 0, tr_Uptime7d = 0, tr_Uptime30d = 0,
              tr_LatencyMs = (if cs \<noteq> [] \<and> res_OK res then res_LatencyMs res else 0),
              tr_Players = (if cs \<noteq> [] \<and> Kind t = KindFiveM
                then (case (res_Players res, res_MaxPlayers res) of
                        (Some n, Some mx) \<Rightarrow> Some \<lparr>pl_Count = n, pl_Max = mx, pl_Version = res_Version res\<rparr>
                      | _ \<Rightarrow> None)
                else None),
              tr_Hours = []\<rparr>
     in and_then (StoreUptime now (ID t)) (\<lambda>up.
        let r1 = r\<lparr>tr_Uptime24h := up_Day up, tr_Uptime7d := up_Week up, tr_Uptime30d := up_Month up\<rparr>
        in if 0 < hours
           then and_then (Hours now (ID t) hours) (\<lambda>h d. (Inr (r1\<lparr>tr_Hours := cells h 1\<rparr>, lst), d))
           else (\<lambda>d. (Inr (r1, lst), d))))"

fun rows_of :: "time \<Rightarrow> int \<Rightarrow> Target list \<Rightarrow> db \<Rightarrow> (TargetRow \<times> Check) list result \<times> db" where
  "rows_of now hours [] d = (Inr [], d)"
| "rows_of now hours (t # ts) d =
     and_then (row now t hours) (\<lambda>r. and_then (rows_of now hours ts) (\<lambda>rs d. (Inr (r # rs), d))) d"

section \<open>The pages\<close>

record StatusPage =
  sp_Overall :: State
  sp_CheckedAt :: time
  sp_Targets :: "TargetRow list"
  sp_Incidents :: "IncidentRow list"

definition newest :: "Check list \<Rightarrow> time" where
  "newest cs = fold (\<lambda>c t. if t < chk_At c then chk_At c else t) cs zeroTime"

definition status_build :: "time \<Rightarrow> db \<Rightarrow> StatusPage result \<times> db" where
  "status_build now =
     and_then PublicTargets (\<lambda>ts.
     and_then (rows_of now 90 ts) (\<lambda>rs.
     and_then (RecentIncidents 20 (addTime now (- (30 * 24 * hourDur))) True) (\<lambda>incs d.
       (Inr \<lparr>sp_Overall = overallState (map fst rs), sp_CheckedAt = newest (map snd rs),
             sp_Targets = map fst rs, sp_Incidents = incidentRows incs now False\<rparr>, d))))"

record period =
  p_dur :: duration
  p_hours :: int
  p_group :: nat
  p_step :: duration
  p_slots :: nat

definition periods :: "string \<rightharpoonup> period" where
  "periods =
     [''24h'' \<mapsto> \<lparr>p_dur = 24 * hourDur, p_hours = 24, p_group = 1, p_step = hourDur, p_slots = 144\<rparr>,
      ''7d'' \<mapsto> \<lparr>p_dur = 7 * 24 * hourDur, p_hours = 168, p_group = 1, p_step = hourDur, p_slots = 168\<rparr>,
      ''30d'' \<mapsto> \<lparr>p_dur = 30 * 24 * hourDur, p_hours = 720, p_group = 24, p_step = 24 * hourDur, p_slots = 720\<rparr>]"

text \<open>Points of the line chart, one per slot, \<open>- 1\<close> without a value.\<close>

fun put_slots :: "time \<Rightarrow> duration \<Rightarrow> Point list \<Rightarrow> int list \<Rightarrow> int list" where
  "put_slots first step [] ms = ms"
| "put_slots first step (p # ps) ms =
     (let i = subTime (pt_At p) first sdiv step
      in put_slots first step ps
           (if first \<le> pt_At p \<and> i < int (length ms) then ms[nat i := pt_Avg p] else ms))"

definition slots :: "Point list \<Rightarrow> time \<Rightarrow> duration \<Rightarrow> nat \<Rightarrow> int list" where
  "slots points now dur n =
     (let step = dur sdiv int n; first = addTime (truncTime now step) (- ((int n - 1) * step))
      in put_slots first step points (replicate n (- 1)))"

record DetailPage =
  dp_Target :: TargetRow
  dp_Range :: string
  dp_Latency :: "int list"
  dp_Incidents :: "IncidentRow list"

datatype 'a answer = NotFound | Failed store_err | Answer 'a

definition detail_build :: "time \<Rightarrow> Target \<Rightarrow> string \<Rightarrow> db \<Rightarrow> DetailPage result \<times> db" where
  "detail_build now t r =
     (let (rng, sp) = (case periods r of Some p \<Rightarrow> (r, p) | None \<Rightarrow> (''24h'', the (periods ''24h''))) in
      and_then (row now t 0) (\<lambda>(rw, _).
      and_then (Hours now (ID t) (p_hours sp)) (\<lambda>hours.
      and_then (Latency now (ID t) (p_dur sp)) (\<lambda>points.
      and_then (TargetIncidents (ID t) 50 (addTime now (- p_dur sp))) (\<lambda>incs d.
        (Inr \<lparr>dp_Target = rw\<lparr>tr_Hours := cells hours (p_group sp)\<rparr>, dp_Range = rng,
              dp_Latency = slots points now (p_dur sp) (p_slots sp),
              dp_Incidents = incidentRows incs now False\<rparr>, d))))))"

definition detail :: "time \<Rightarrow> int option \<Rightarrow> string \<Rightarrow> db \<Rightarrow> DetailPage answer \<times> db" where
  "detail now pid r d =
     (case pid of
        None \<Rightarrow> (NotFound, d)
      | Some i \<Rightarrow>
          (case StoreTarget i d of
             (Inl e, d1) \<Rightarrow> (if e = ErrNotFound then NotFound else Failed e, d1)
           | (Inr t, d1) \<Rightarrow>
               if \<not> Public t then (NotFound, d1)
               else (case detail_build now t r d1 of
                       (Inl e, d2) \<Rightarrow> (Failed e, d2)
                     | (Inr page, d2) \<Rightarrow> (Answer page, d2))))"

record apiTarget =
  api_Name :: string
  api_Kind :: string
  api_State :: State
  api_Uptime :: "string \<rightharpoonup> rat option"
  api_CheckedAt :: "time option"

definition api_ratio :: "rat \<Rightarrow> rat option" where "api_ratio v = (if v < 0 then None else Some v)"

definition api_target :: "TargetRow \<times> Check \<Rightarrow> apiTarget" where
  "api_target rc = (case rc of (r, lst) \<Rightarrow>
     \<lparr>api_Name = tr_Name r, api_Kind = tr_Kind r, api_State = tr_State r,
      api_Uptime = [''24h'' \<mapsto> api_ratio (tr_Uptime24h r), ''7d'' \<mapsto> api_ratio (tr_Uptime7d r),
        ''30d'' \<mapsto> api_ratio (tr_Uptime30d r)],
      api_CheckedAt = (if isZero (chk_At lst) then None else Some (chk_At lst))\<rparr>)"

definition api_build :: "time \<Rightarrow> db \<Rightarrow> apiTarget list result \<times> db" where
  "api_build now =
     and_then PublicTargets (\<lambda>ts. and_then (rows_of now 0 ts) (\<lambda>rs d. (Inr (map api_target rs), d)))"

section \<open>The cache\<close>

definition cacheTTL :: duration where "cacheTTL = 5 * second"

record 'b cached =
  c_body :: "'b option"
  c_at_time :: time

definition cached_get :: "time \<Rightarrow> ('s \<Rightarrow> 'b result \<times> 's) \<Rightarrow> 'b cached \<times> 's \<Rightarrow> 'b result \<times> 'b cached \<times> 's" where
  "cached_get now build cs =
     (case cs of (c, s) \<Rightarrow>
        if c_body c = None \<or> cacheTTL \<le> subTime now (c_at_time c)
        then (case build s of
                (Inl e, s1) \<Rightarrow> (Inl e, c, s1)
              | (Inr b, s1) \<Rightarrow> (Inr b, c\<lparr>c_body := Some b, c_at_time := now\<rparr>, s1))
        else (Inr (the (c_body c)), c, s))"

section \<open>The overall state\<close>

lemma overall_loop_spec:
  "overall_loop rs active seen =
     (if StateDown \<in> tr_State ` set rs then None
      else Some (active + int (length (filter (\<lambda>r. tr_State r \<noteq> StatePaused) rs)), seen \<or> StateUp \<in> tr_State ` set rs))"
  by (induction rs active seen rule: overall_loop.induct) auto

lemma State_le [simp]:
  "StatePaused \<le> s" "s \<le> StateDown" "StateUnknown \<le> s \<longleftrightarrow> s \<noteq> StatePaused" "s \<le> StateUp \<longleftrightarrow> s \<noteq> StateDown"
  "s \<le> StateUnknown \<longleftrightarrow> s \<in> {StatePaused, StateUnknown}" "s \<le> StatePaused \<longleftrightarrow> s = StatePaused"
  by (cases s; simp add: less_eq_State_def rank_State_def)+

text \<open>The headline of the status page is the most severe state among the targets, in the order
  paused, unknown, up, down; with no target it is unknown.\<close>

lemma overall_is_worst:
  "overallState rows = (if rows = [] then StateUnknown else Max (tr_State ` set rows))"
proof (cases "rows = []")
  case True
  then show ?thesis by (simp add: overallState_def)
next
  case False
  have fin: "finite (tr_State ` set rows)" "tr_State ` set rows \<noteq> {}" using False by auto
  have mx: "Max (tr_State ` set rows) = s" if "s \<in> tr_State ` set rows" "\<And>r. r \<in> set rows \<Longrightarrow> tr_State r \<le> s" for s
    using that fin by (intro Max_eqI) auto
  have rest: "tr_State r = StatePaused"
    if "StateDown \<notin> tr_State ` set rows" "StateUp \<notin> tr_State ` set rows" "StateUnknown \<notin> tr_State ` set rows" "r \<in> set rows" for r
    using that by (cases "tr_State r") (metis image_eqI)+
  consider "StateDown \<in> tr_State ` set rows"
    | "StateDown \<notin> tr_State ` set rows" "StateUp \<in> tr_State ` set rows"
    | "StateDown \<notin> tr_State ` set rows" "StateUp \<notin> tr_State ` set rows" "StateUnknown \<in> tr_State ` set rows"
    | "\<forall>r \<in> set rows. tr_State r = StatePaused"
    using rest by blast
  then show ?thesis
  proof cases
    case 1
    then show ?thesis using False mx [of StateDown] by (simp add: overallState_def overall_loop_spec)
  next
    case 2
    have "filter (\<lambda>r. tr_State r \<noteq> StatePaused) rows \<noteq> []" using 2(2) by (force simp: filter_empty_conv)
    moreover have "Max (tr_State ` set rows) = StateUp"
    proof (rule mx)
      show "tr_State r \<le> StateUp" if "r \<in> set rows" for r using 2(1) imageI [OF that, of tr_State] by auto
    qed (rule 2(2))
    ultimately show ?thesis using 2 False by (simp add: overallState_def overall_loop_spec)
  next
    case 3
    have "filter (\<lambda>r. tr_State r \<noteq> StatePaused) rows \<noteq> []" using 3(3) by (force simp: filter_empty_conv)
    moreover have "Max (tr_State ` set rows) = StateUnknown"
    proof (rule mx)
      show "tr_State r \<le> StateUnknown" if "r \<in> set rows" for r
        using 3(1,2) imageI [OF that, of tr_State] by (cases "tr_State r") auto
    qed (rule 3(3))
    ultimately show ?thesis using 3 False by (simp add: overallState_def overall_loop_spec)
  next
    case 4
    have "StatePaused \<in> tr_State ` set rows" using 4 False by (cases rows) auto
    then have "Max (tr_State ` set rows) = StatePaused" using 4 by (intro mx) auto
    moreover have "filter (\<lambda>r. tr_State r \<noteq> StatePaused) rows = []" using 4 by (simp add: filter_empty_conv)
    moreover have "StateDown \<notin> tr_State ` set rows" using 4 by auto
    ultimately show ?thesis using False by (simp add: overallState_def overall_loop_spec)
  qed
qed

section \<open>Cells and slots\<close>

lemma cells_loop_nth:
  assumes "0 < n"
  shows "cells_loop hs n i = map (\<lambda>k. sum_cell (List.take n (drop (i + k * n) hs))) [0..<(length hs - i) div n]"
proof (induction hs n i rule: cells_loop.induct)
  case (1 hs n i)
  show ?case
  proof (cases "0 < n \<and> i + n \<le> length hs")
    case True
    then have d: "(length hs - i) div n = Suc ((length hs - (i + n)) div n)"
      using le_div_geq [of n "length hs - i"] True by (simp add: le_diff_conv2)
    have "cells_loop hs n i = sum_cell (List.take n (drop i hs)) # cells_loop hs n (i + n)"
      using True by (subst cells_loop.simps) simp
    then show ?thesis
      using 1 [OF True] unfolding d by (simp add: upt_conv_Cons map_Suc_upt [symmetric] algebra_simps del: upt_Suc)
  next
    case False
    then have "n = 0 \<or> length hs - i < n" by linarith
    then have "n = 0 \<or> (length hs - i) div n = 0" by auto
    moreover have "cells_loop hs n i = []" using False by (subst cells_loop.simps) auto
    ultimately show ?thesis by auto
  qed
qed

text \<open>Grouping \<open>n\<close> hours per cell yields one cell for every full group and sums exactly its
  hours: the share of successful checks, no share and an unknown state without checks, and
  \<open>down\<close> as soon as one check failed.\<close>

lemma cells_group:
  assumes "0 < n" and "\<forall>h \<in> set hs. 0 \<le> hr_OK h \<and> hr_OK h \<le> hr_Total h"
  shows "length (cells hs n) = length hs div n \<and>
    (\<forall>k < length hs div n. let g = List.take n (drop (k * n) hs); c = cells hs n ! k in
       hc_Start c = hr_Start (hs ! (k * n)) \<and>
       (if \<forall>h \<in> set g. hr_Total h = 0 then hc_State c = StateUnknown \<and> hc_Uptime c = - 1
        else 0 \<le> hc_Uptime c \<and> hc_Uptime c \<le> 1 \<and>
          (hc_State c = StateUp \<longleftrightarrow> (\<forall>h \<in> set g. hr_OK h = hr_Total h)) \<and> hc_State c \<noteq> StateUnknown))"
proof -
  have eq: "cells hs n = map (\<lambda>k. sum_cell (List.take n (drop (k * n) hs))) [0..<length hs div n]"
    using cells_loop_nth [OF assms(1), of hs 0] by (simp add: cells_def)
  have cell: "(if \<forall>h \<in> set g. hr_Total h = 0 then hc_State (sum_cell g) = StateUnknown \<and> hc_Uptime (sum_cell g) = - 1
      else 0 \<le> hc_Uptime (sum_cell g) \<and> hc_Uptime (sum_cell g) \<le> 1 \<and>
        (hc_State (sum_cell g) = StateUp \<longleftrightarrow> (\<forall>h \<in> set g. hr_OK h = hr_Total h)) \<and> hc_State (sum_cell g) \<noteq> StateUnknown)"
    if "\<forall>h \<in> set g. 0 \<le> hr_OK h \<and> hr_OK h \<le> hr_Total h" for g
  proof -
    have le: "0 \<le> sum_list (map hr_OK g) \<and> sum_list (map hr_OK g) \<le> sum_list (map hr_Total g) \<and>
       (sum_list (map hr_Total g) \<le> 0 \<longleftrightarrow> (\<forall>h \<in> set g. hr_Total h = 0)) \<and>
       (sum_list (map hr_OK g) = sum_list (map hr_Total g) \<longleftrightarrow> (\<forall>h \<in> set g. hr_OK h = hr_Total h))"
      using that by (induction g) fastforce+
    then show ?thesis by (auto simp: sum_cell_def Let_def not_less)
  qed
  have "\<forall>h \<in> set (List.take n (drop (k * n) hs)). 0 \<le> hr_OK h \<and> hr_OK h \<le> hr_Total h" for k
    using assms(2) by (meson in_set_dropD in_set_takeD)
  note cell = cell [OF this]
  have "hc_Start (sum_cell (List.take n (drop (k * n) hs))) = hr_Start (hs ! (k * n))" if "k < length hs div n" for k
  proof -
    have "Suc k * n \<le> length hs div n * n" using that by (intro mult_le_mono1) simp
    also have "\<dots> \<le> length hs" by simp
    finally have "k * n < length hs" using assms(1) by simp
    then show ?thesis using assms(1) by (simp add: sum_cell_def Let_def hd_drop_conv_nth take_Cons')
  qed
  then show ?thesis using cell by (simp add: eq Let_def)
qed

section \<open>Nothing private is shown\<close>

lemma reads_return [simp]: "reads (\<lambda>d. (r, d))"
  unfolding reads_def by (metis db.surjective db.update_convs(8) snd_conv)

lemma reads_split: "(\<And>a b. reads (f a b)) \<Longrightarrow> reads (case x of (a, b) \<Rightarrow> f a b)"
  by (cases x) simp

lemma readsE:
  assumes "reads q" and "q d = (r, d')"
  obtains fs where "d' = d\<lparr>faults := fs\<rparr>"
  using assms unfolding reads_def by (metis snd_conv)

lemma StoreUptime_reads [simp]: "reads (StoreUptime now g)"
  unfolding StoreUptime_def Let_def
  by (intro reads_and_then reads_exec) (auto intro!: reads_and_then simp: split_beta)

lemma Hours_reads [simp]: "reads (Hours now g n)"
proof -
  have "reads (\<lambda>d. case put_cells f rows cs of None \<Rightarrow> (Inl ErrPanic, d)
      | Some ys \<Rightarrow> (case go_nth ys (n - 1) of None \<Rightarrow> (Inl ErrPanic, d)
         | Some c \<Rightarrow> and_then (rawHour g s) (\<lambda>(tot, ok) d. (Inr (h tot ok ys c), d)) d))" for f rows cs h s
    by (cases "put_cells f rows cs"; cases "go_nth (the (put_cells f rows cs)) (n - 1)")
      (auto intro!: reads_and_then simp: split_beta)
  then show ?thesis unfolding Hours_def Let_def by (auto intro!: reads_and_then reads_exec)
qed

lemma row_reads [simp]: "reads (row now t hours)"
  unfolding row_def Let_def by (auto intro!: reads_and_then)

lemma rows_of_reads [simp]: "reads (rows_of now hours ts)"
proof (induction ts)
  case (Cons t ts)
  have "rows_of now hours (t # ts) = and_then (row now t hours) (\<lambda>r. and_then (rows_of now hours ts) (\<lambda>rs d. (Inr (r # rs), d)))"
    by (rule ext) simp
  then show ?case using Cons by (auto intro!: reads_and_then)
qed (simp add: reads_return)

lemma row_target:
  assumes "row now t hours d = (Inr (r, c), d')"
  shows "tr_ID r = ID t" "tr_Name r = Name t"
proof -
  have "tr_ID r = ID t \<and> tr_Name r = Name t"
    using assms unfolding row_def Let_def and_then_Inr by (cases "0 < hours") (auto simp: and_then_Inr)
  then show "tr_ID r = ID t" "tr_Name r = Name t" by auto
qed

lemma rows_of_targets:
  "rows_of now hours ts d = (Inr rs, d') \<Longrightarrow> map (\<lambda>r. (tr_ID (fst r), tr_Name (fst r))) rs = map (\<lambda>t. (ID t, Name t)) ts"
proof (induction ts arbitrary: d rs)
  case (Cons t ts)
  obtain r rs1 d1 d2 where "row now t hours d = (Inr r, d1)" "rows_of now hours ts d1 = (Inr rs1, d2)" "rs = r # rs1"
    using Cons.prems by (auto simp: and_then_Inr)
  then show ?case using Cons.IH [of d1 rs1] row_target [of now t hours d "fst r" "snd r" d1] Cons.prems
    by (auto simp: and_then_Inr)
qed simp

lemma PublicTargets_value:
  assumes "PublicTargets d = (Inr ts, d')"
  shows "ts = map scanTarget (sort_key (\<lambda>r. (Sort r, ID r)) (filter Public (targets d)))"
proof -
  have "\<forall>ts d'. PublicTargets d = (Inr ts, d') \<longrightarrow> ts = map scanTarget (sort_key (\<lambda>r. (Sort r, ID r)) (filter Public (targets d)))"
    unfolding PublicTargets_def select_targets_def by (rule exec_rule) auto
  then show ?thesis using assms by blast
qed

lemma RecentIncidents_public:
  assumes "RecentIncidents n since True d = (Inr incs, d')" and "inc \<in> set incs"
  shows "\<exists>g \<in> set (targets d). ID g = inc_TargetID inc \<and> Public g"
proof -
  have "\<forall>incs d'. RecentIncidents n since True d = (Inr incs, d') \<longrightarrow>
      (\<forall>inc \<in> set incs. \<exists>g \<in> set (targets d). ID g = inc_TargetID inc \<and> Public g)"
    unfolding RecentIncidents_def
    by (rule exec_rule)
      (auto simp: limit_rows_def newest_first_def incidentSelect_def scanIncident_def split: if_splits dest!: in_set_takeD)
  then show ?thesis using assms by blast
qed

text \<open>C16: The public status page lists exactly the public targets, in the order of the list, and only
  incidents of public targets, without their cause.\<close>

theorem status_page_public:
  assumes "status_build now d = (Inr page, d')"
  shows "map tr_ID (sp_Targets page) = map ID (sort_key (\<lambda>r. (Sort r, ID r)) (filter Public (targets d))) \<and>
    (\<forall>i \<in> set (sp_Incidents page). ir_Cause i = [] \<and> (\<exists>g \<in> set (targets d). ID g = ir_TargetID i \<and> Public g))"
proof -
  obtain ts d1 rs d2 incs where ts: "PublicTargets d = (Inr ts, d1)" and rs: "rows_of now 90 ts d1 = (Inr rs, d2)"
    and incs: "RecentIncidents 20 (addTime now (- (30 * 24 * hourDur))) True d2 = (Inr incs, d')"
    and page: "sp_Targets page = map fst rs" "sp_Incidents page = incidentRows incs now False"
    using assms unfolding status_build_def and_then_Inr by auto
  obtain fs gs where d: "d1 = d\<lparr>faults := fs\<rparr>" "d2 = d1\<lparr>faults := gs\<rparr>"
    using readsE [OF target_queries_read(3) ts] readsE [OF rows_of_reads rs] by metis
  have "map (fst \<circ> (\<lambda>r. (tr_ID (fst r), tr_Name (fst r)))) rs = map (fst \<circ> (\<lambda>t. (ID t, Name t))) ts"
    using rows_of_targets [OF rs] by (metis map_map)
  then have "map tr_ID (sp_Targets page) = map ID ts" using page by (simp add: comp_def)
  also have "\<dots> = map ID (sort_key (\<lambda>r. (Sort r, ID r)) (filter Public (targets d)))"
    using PublicTargets_value [OF ts] by (simp add: comp_def scanTarget_def)
  finally show ?thesis
    using RecentIncidents_public [OF incs] page(2) d by (auto simp: incidentRows_def incidentRow_def)
qed

definition hidden_db :: db where
  "hidden_db = sample_rolled\<lparr>targets := [sample_target, sample_target\<lparr>ID := 2, Public := False\<rparr>],
     incidents := [mk_incident 1 (2, 50, ''x''), mk_incident 2 (1, 60, ''y'')]\<rparr>"

theorem status_page_public_witness:
  "\<exists>page d'. status_build (fromUnix 10900) hidden_db = (Inr page, d') \<and> map tr_ID (sp_Targets page) = [1] \<and>
     map ir_TargetID (sp_Incidents page) = [1]"
proof -
  have "(case fst (status_build (fromUnix 10900) hidden_db) of
      Inr page \<Rightarrow> map ir_TargetID (sp_Incidents page) = [1] | Inl _ \<Rightarrow> False)" by code_simp
  then obtain page where ok: "map ir_TargetID (sp_Incidents page) = [1]"
    and eq: "status_build (fromUnix 10900) hidden_db = (Inr page, snd (status_build (fromUnix 10900) hidden_db))"
    by (auto simp: prod_eq_iff split: sum.splits)
  have "map ID (sort_key (\<lambda>r. (Sort r, ID r)) (filter Public (targets hidden_db))) = [1]" by code_simp
  then show ?thesis using status_page_public [OF eq] ok eq by metis
qed



section \<open>The line chart\<close>

definition in_slot :: "time \<Rightarrow> duration \<Rightarrow> nat \<Rightarrow> Point \<Rightarrow> bool" where
  "in_slot first step i p \<longleftrightarrow> first + int i * step \<le> pt_At p \<and> pt_At p < first + (int i + 1) * step"

lemma slot_index:
  assumes "0 < step" and "pt_At p - first \<le> maxDuration" and "first \<le> pt_At p"
  shows "subTime (pt_At p) first sdiv step = int i \<longleftrightarrow> in_slot first step i p"
proof -
  have sub: "subTime (pt_At p) first = pt_At p - first"
    using assms(2,3) by (simp add: subTime_def minDuration_def)
  have "(pt_At p - first) sdiv step = (pt_At p - first) div step" using assms(1,3) by (simp add: go_arith)
  also have "\<dots> = int i \<longleftrightarrow> int i * step \<le> pt_At p - first \<and> pt_At p - first < (int i + 1) * step"
    by (rule int_div_interval [OF assms(1)])
  finally show ?thesis unfolding sub in_slot_def by (auto simp: algebra_simps)
qed

lemma put_slots_nth:
  assumes "0 < step" and "\<forall>p \<in> set ps. pt_At p - first \<le> maxDuration" and "i < length ms"
  shows "length (put_slots first step ps ms) = length ms \<and>
    put_slots first step ps ms ! i =
      (case filter (in_slot first step i) ps of [] \<Rightarrow> ms ! i | q # qs \<Rightarrow> pt_Avg (last (q # qs)))"
  using assms(2,3)
proof (induction ps arbitrary: ms)
  case (Cons p ps)
  let ?k = "subTime (pt_At p) first sdiv step"
  let ?ms = "if first \<le> pt_At p \<and> ?k < int (length ms) then ms[nat ?k := pt_Avg p] else ms"
  have ih: "length (put_slots first step ps ?ms) = length ?ms \<and> put_slots first step ps ?ms ! i =
      (case filter (in_slot first step i) ps of [] \<Rightarrow> ?ms ! i | q # qs \<Rightarrow> pt_Avg (last (q # qs)))"
    using Cons.prems by (intro Cons.IH) auto
  have "?ms ! i = (if in_slot first step i p then pt_Avg p else ms ! i)"
  proof (cases "first \<le> pt_At p")
    case True
    then have "0 \<le> ?k" using assms(1) Cons.prems(1)
      by (simp add: subTime_def minDuration_def go_arith pos_imp_zdiv_nonneg_iff)
    moreover have "?k = int i \<longleftrightarrow> in_slot first step i p" using slot_index [OF assms(1) _ True] Cons.prems(1) by simp
    ultimately show ?thesis using True Cons.prems(2) by (auto simp: nth_list_update)
  next
    case False
    moreover have "0 \<le> int i * step" using assms(1) by simp
    ultimately have "\<not> in_slot first step i p" unfolding in_slot_def by linarith
    then show ?thesis using False by simp
  qed
  then show ?case using ih by (auto simp: Let_def split: list.splits)
qed simp

text \<open>The line of a latency chart has one value per slot: the average of the newest point that
  falls into the slot's span of time, or \<open>- 1\<close> when none does. No value is written out of range.\<close>

lemma slots_values:
  assumes "0 < n" and "int n \<le> dur" and "dur \<le> maxDuration" and "\<forall>p \<in> set points. pt_At p \<le> now"
  shows "let step = dur div int n; first = truncTime now step - (int n - 1) * step; ms = slots points now dur n in
    length ms = n \<and>
    (\<forall>i < n. ms ! i = (case filter (in_slot first step i) points of [] \<Rightarrow> - 1 | q # qs \<Rightarrow> pt_Avg (last (q # qs))))"
proof -
  define step where "step = dur div int n"
  define first where "first = truncTime now step - (int n - 1) * step"
  have step: "0 < step" "dur sdiv int n = step"
    using assms(1-3) by (simp_all add: step_def go_arith pos_imp_zdiv_pos_iff)
  have "int n * step \<le> dur" using int_div_interval [of "int n" dur step] assms(1) by (simp add: step_def mult.commute)
  moreover have "now - truncTime now step < step" using step(1) by (simp add: truncTime_def)
  ultimately have "now - first \<le> maxDuration" unfolding first_def using assms(3) by (simp add: algebra_simps)
  then have late: "\<forall>p \<in> set points. pt_At p - first \<le> maxDuration" using assms(4) by auto
  have ms: "slots points now dur n = put_slots first step points (replicate n (- 1))"
    by (simp add: slots_def Let_def step(2) first_def addTime_def)
  have nth: "length (slots points now dur n) = n \<and> slots points now dur n ! i =
      (case filter (in_slot first step i) points of [] \<Rightarrow> - 1 | q # qs \<Rightarrow> pt_Avg (last (q # qs)))" if "i < n" for i
    using put_slots_nth [OF step(1) late, of i "replicate n (- 1)"] that unfolding ms by (simp split: list.splits)
  show ?thesis
    unfolding Let_def step_def [symmetric] first_def [symmetric] using nth assms(1) by blast
qed

end
