(* ===== verification/Client_IP.thy ===== *)
theory Client_IP
  imports Netaddr_Text
begin

text \<open>
  \<^verbatim>\<open>clientIP\<close> of \<^verbatim>\<open>internal/web/limit.go\<close>: the key under which the login limiter counts a request. The
  arguments are the configured proxy network (\<open>None\<close> for the invalid zero prefix), the peer's address
  as text and the values of \<^verbatim>\<open>X-Forwarded-For\<close>.
\<close>

text \<open>The key of an address: an IPv4 address, or the \<^verbatim>\<open>/64\<close> network of an IPv6 address.\<close>

definition addrKey :: "addr \<Rightarrow> string" where
  "addrKey ip =
     (case ip of
        V6 a _ \<Rightarrow> addrString (V6 (push_bit 64 (drop_bit 64 a)) []) @ ''/64''
      | _ \<Rightarrow> addrString ip)"

definition lastEntry :: "string list \<Rightarrow> string" where
  "lastEntry xff =
     (case lastIndex (CHR '','') (last xff) of Some i \<Rightarrow> drop (i + 1) (last xff) | None \<Rightarrow> last xff)"

definition clientIP :: "prefix option \<Rightarrow> string \<Rightarrow> string list \<Rightarrow> string" where
  "clientIP proxy remoteAddr xff =
     (let host = (case SplitHostPort remoteAddr of Some (h, _) \<Rightarrow> h | None \<Rightarrow> remoteAddr)
      in case ParseAddr host of
           None \<Rightarrow> host
         | Some peer \<Rightarrow>
             let ip = withoutZone (unmap peer);
                 ip1 = (if (case proxy of Some p \<Rightarrow> prefix_contains p ip | None \<Rightarrow> False) \<and> xff \<noteq> []
                        then (case ParseAddr (TrimSpace (lastEntry xff)) of
                                Some fwd \<Rightarrow> withoutZone (unmap fwd) | None \<Rightarrow> ip)
                        else ip)
             in addrKey ip1)"

section \<open>Keys\<close>

fun same_client :: "addr \<Rightarrow> addr \<Rightarrow> bool" where
  "same_client (V4 a) (V4 b) \<longleftrightarrow> a = b"
| "same_client (V6 a _) (V6 b _) \<longleftrightarrow> drop_bit 64 a = drop_bit 64 b"
| "same_client NoAddr NoAddr \<longleftrightarrow> True"
| "same_client _ _ \<longleftrightarrow> False"

lemma addrString_inj: "ip \<noteq> NoAddr \<Longrightarrow> ip' \<noteq> NoAddr \<Longrightarrow> addrString ip = addrString ip' \<longleftrightarrow> ip = ip'"
  using ParseAddr_addrString by (metis option.inject)

lemma push_drop_64: "push_bit 64 (drop_bit 64 a) = push_bit 64 (drop_bit 64 (b :: 128 word)) \<longleftrightarrow> drop_bit 64 a = drop_bit 64 b"
proof -
  have "drop_bit 64 (push_bit 64 (drop_bit 64 c)) = drop_bit 64 (c :: 128 word)" for c
    by (rule bit_word_eqI) (auto simp: bit_simps dest: bit_imp_le_length)
  then show ?thesis by metis
qed

lemma addrKey_eq: "ip \<noteq> NoAddr \<Longrightarrow> ip' \<noteq> NoAddr \<Longrightarrow> addrKey ip = addrKey ip' \<longleftrightarrow> same_client ip ip'"
proof -
  have slash: "CHR ''/'' \<notin> set (showIPv4 a)" for a
    using showIPv4_chars [of "CHR ''/''" a] isHex_plain [of "CHR ''/''"] by auto
  have "CHR ''/'' \<in> set (addrKey (V6 b z))" "CHR ''/'' \<notin> set (addrKey (V4 a))" for a b z
    using slash [of a] by (simp_all add: addrKey_def)
  then have "addrKey (V4 a) \<noteq> addrKey (V6 b z)" "addrKey (V6 b z) \<noteq> addrKey (V4 a)" for a b z
    by metis+
  moreover have "addrKey (V4 a) = addrKey (V4 b) \<longleftrightarrow> a = b" for a b
    using addrString_inj [of "V4 a" "V4 b"] by (simp add: addrKey_def)
  moreover have "addrKey (V6 a z) = addrKey (V6 b z') \<longleftrightarrow> drop_bit 64 a = drop_bit 64 b" for a b z z'
    using addrString_inj [of "V6 (push_bit 64 (drop_bit 64 a)) []" "V6 (push_bit 64 (drop_bit 64 b)) []"] push_drop_64 [of a b]
    by (simp add: addrKey_def del: addrString.simps)
  ultimately show "ip \<noteq> NoAddr \<Longrightarrow> ip' \<noteq> NoAddr \<Longrightarrow> addrKey ip = addrKey ip' \<longleftrightarrow> same_client ip ip'"
    by (cases ip; cases ip') simp_all
qed

lemma lastEntry_append: "CHR '','' \<notin> set e \<Longrightarrow> lastEntry (xs @ [v @ CHR '','' # e]) = e"
  by (simp add: lastEntry_def lastIndex_append)

lemma lastEntry_single: "CHR '','' \<notin> set e \<Longrightarrow> lastEntry [e] = e"
  by (simp add: lastEntry_def lastIndex_def)

text \<open>The peer of a request, as the limiter sees it.\<close>

definition peer_of :: "string \<Rightarrow> addr option" where
  "peer_of remoteAddr = map_option (\<lambda>a. withoutZone (unmap a))
     (ParseAddr (case SplitHostPort remoteAddr of Some (h, _) \<Rightarrow> h | None \<Rightarrow> remoteAddr))"

definition via_proxy :: "prefix option \<Rightarrow> addr \<Rightarrow> bool" where
  "via_proxy proxy ip \<longleftrightarrow> (case proxy of Some p \<Rightarrow> prefix_contains p ip | None \<Rightarrow> False)"

lemma clientIP_peer:
  "peer_of remote = Some ip \<Longrightarrow> clientIP proxy remote xff =
     addrKey (if via_proxy proxy ip \<and> xff \<noteq> []
              then (case ParseAddr (TrimSpace (lastEntry xff)) of Some fwd \<Rightarrow> withoutZone (unmap fwd) | None \<Rightarrow> ip)
              else ip)"
  by (auto simp: peer_of_def clientIP_def via_proxy_def Let_def split: option.splits prod.splits)

lemma ParseAddr_not_NoAddr: "ParseAddr s \<noteq> Some NoAddr"
  by (auto simp: ParseAddr_def parseIPv6_def Let_def split: list.splits option.splits prod.splits if_splits)

lemma peer_of_not_NoAddr: "peer_of s \<noteq> Some NoAddr"
proof -
  have "withoutZone (unmap a) = NoAddr \<Longrightarrow> a = NoAddr" for a by (cases a) (auto split: if_splits)
  then show ?thesis using ParseAddr_not_NoAddr by (auto simp: peer_of_def)
qed

text \<open>C24: A request that does not come from the configured proxy network is counted under its own
  address, whatever headers it carries; two such requests share a key exactly when they come from the
  same IPv4 address or the same /64 network. Behind the proxy only the last entry of the last header
  counts, the one the proxy itself added: nothing a client writes in front of it has an effect.\<close>

theorem client_key:
  assumes "peer_of remote = Some ip" and "peer_of remote' = Some ip'"
  shows "(\<not> via_proxy proxy ip \<longrightarrow> clientIP proxy remote xff = clientIP proxy remote []) \<and>
    (\<not> via_proxy proxy ip \<and> \<not> via_proxy proxy ip' \<longrightarrow>
       (clientIP proxy remote xff = clientIP proxy remote' xff' \<longleftrightarrow> same_client ip ip')) \<and>
    (CHR '','' \<notin> set e \<longrightarrow> clientIP proxy remote (xs @ [v @ CHR '','' # e]) = clientIP proxy remote [e])"
  using assms peer_of_not_NoAddr [of remote] peer_of_not_NoAddr [of remote']
  by (auto simp: clientIP_peer addrKey_eq lastEntry_append lastEntry_single)

theorem client_key_witness:
  "clientIP None ''10.0.0.1:5000'' [''1.2.3.4''] = clientIP None ''10.0.0.1:5000'' [] \<and>
   clientIP None ''10.0.0.1:5000'' [] \<noteq> clientIP None ''10.0.0.2:5000'' []"
proof -
  have "peer_of ''10.0.0.1:5000'' = Some (V4 0x0a000001)" "peer_of ''10.0.0.2:5000'' = Some (V4 0x0a000002)" by code_simp+
  then show ?thesis
    using client_key [of "''10.0.0.1:5000''" "V4 0x0a000001" "''10.0.0.2:5000''" "V4 0x0a000002" None "[''1.2.3.4'']" "[]" "[]" "[]" "[]"]
    by (auto simp: via_proxy_def)
qed

end
