(* ===== verification/Base64.thy ===== *)
theory Base64
  imports Go_Strings
begin

unbundle bit_operations_syntax

text \<open>
  What the program uses of Go's \<^verbatim>\<open>encoding/base64\<close> (the two unpadded alphabets, with and without the
  strict mode, which refuses non-zero trailing bits) and the masked form tokens of
  \<^verbatim>\<open>internal/web/admin.go\<close>. The decoder skips line breaks.
\<close>

section \<open>Six-bit groups\<close>

fun sextets :: "nat list \<Rightarrow> nat list" where
  "sextets (a # b # c # xs) = a div 4 # (a mod 4 * 16 + b div 16) # (b mod 16 * 4 + c div 64) # (c mod 64) # sextets xs"
| "sextets [a, b] = [a div 4, a mod 4 * 16 + b div 16, b mod 16 * 4]"
| "sextets [a] = [a div 4, a mod 4 * 16]"
| "sextets [] = []"

fun octetsOf :: "bool \<Rightarrow> nat list \<Rightarrow> nat list option" where
  "octetsOf strict (w # x # y # z # xs) =
     map_option (\<lambda>bs. (w * 4 + x div 16) # (x mod 16 * 16 + y div 4) # (y mod 4 * 64 + z) # bs) (octetsOf strict xs)"
| "octetsOf strict [w, x, y] = (if strict \<and> y mod 4 \<noteq> 0 then None else Some [w * 4 + x div 16, x mod 16 * 16 + y div 4])"
| "octetsOf strict [w, x] = (if strict \<and> x mod 16 \<noteq> 0 then None else Some [w * 4 + x div 16])"
| "octetsOf strict [w] = None"
| "octetsOf strict [] = Some []"

lemma byte_parts:
  fixes b :: nat
  assumes "b < 256"
  shows "b div 16 div 16 = 0" "b div 16 mod 16 = b div 16" "b div 64 div 4 = 0" "b div 64 mod 4 = b div 64"
  using assms by (simp_all flip: div_mult2_eq add: less_mult_imp_div_less)

lemma octetsOf_sextets: "\<forall>b \<in> set bs. b < 256 \<Longrightarrow> octetsOf strict (sextets bs) = Some bs"
  by (induction bs rule: sextets.induct) (simp_all add: byte_parts)

lemma sextets_less: "\<forall>b \<in> set bs. b < 256 \<Longrightarrow> \<forall>v \<in> set (sextets bs). v < 64"
  by (induction bs rule: sextets.induct) auto

section \<open>Alphabets\<close>

definition stdAlphabet :: string where
  "stdAlphabet = ''ABCDEFGHIJKLMNOPQRSTUVWXYZabcdefghijklmnopqrstuvwxyz0123456789+/''"

definition urlAlphabet :: string where
  "urlAlphabet = ''ABCDEFGHIJKLMNOPQRSTUVWXYZabcdefghijklmnopqrstuvwxyz0123456789-_''"

definition alphabetIndex :: "string \<Rightarrow> char \<Rightarrow> nat option" where
  "alphabetIndex alphabet c =
     (let i = length (takeWhile (\<lambda>x. x \<noteq> c) alphabet) in if i < length alphabet then Some i else None)"

definition encode64 :: "string \<Rightarrow> string \<Rightarrow> string" where
  "encode64 alphabet s = map (\<lambda>v. alphabet ! v) (sextets (map byte s))"

definition decode64 :: "string \<Rightarrow> bool \<Rightarrow> string \<Rightarrow> string option" where
  "decode64 alphabet strict s =
     (let vs = map (alphabetIndex alphabet) (filter (\<lambda>c. c \<noteq> CHR 0x0D \<and> c \<noteq> CHR 0x0A) s)
      in if None \<in> set vs then None else map_option (map char_of) (octetsOf strict (map the vs)))"

lemma alphabetIndex_nth:
  assumes "distinct alphabet" and "i < length alphabet"
  shows "alphabetIndex alphabet (alphabet ! i) = Some i"
proof -
  have "alphabet = take i alphabet @ alphabet ! i # drop (Suc i) alphabet" using assms(2) by (rule id_take_nth_drop)
  moreover have "alphabet ! i \<notin> set (take i alphabet)"
    using assms by (auto simp: in_set_conv_nth nth_eq_iff_index_eq)
  ultimately have "takeWhile (\<lambda>x. x \<noteq> alphabet ! i) alphabet = take i alphabet"
    using takeWhile_upto by metis
  then show ?thesis using assms(2) by (simp add: alphabetIndex_def)
qed

text \<open>A proper alphabet.\<close>

definition alphabet_ok :: "string \<Rightarrow> bool" where
  "alphabet_ok al \<longleftrightarrow> length al = 64 \<and> distinct al \<and> CHR 0x0D \<notin> set al \<and> CHR 0x0A \<notin> set al \<and> CHR ''$'' \<notin> set al"

lemma alphabets_ok [simp]: "alphabet_ok stdAlphabet" "alphabet_ok urlAlphabet"
  by code_simp+

lemma encode64_chars: "alphabet_ok al \<Longrightarrow> set (encode64 al s) \<subseteq> set al"
  using sextets_less [of "map byte s"] by (auto simp: encode64_def alphabet_ok_def)

lemma decode64_encode64: "alphabet_ok al \<Longrightarrow> decode64 al strict (encode64 al s) = Some s"
proof -
  assume al: "alphabet_ok al"
  let ?vs = "sextets (map byte s)"
  have small: "\<forall>v \<in> set ?vs. v < 64" by (rule sextets_less) simp
  have "filter (\<lambda>c. c \<noteq> CHR 0x0D \<and> c \<noteq> CHR 0x0A) (encode64 al s) = encode64 al s"
    using encode64_chars [OF al] al by (auto simp: alphabet_ok_def filter_id_conv)
  moreover have "map (alphabetIndex al) (encode64 al s) = map Some ?vs"
    using small al by (auto simp: encode64_def alphabet_ok_def alphabetIndex_nth)
  moreover have "octetsOf strict ?vs = Some (map byte s)" by (rule octetsOf_sextets) simp
  ultimately show ?thesis by (simp add: decode64_def byte_def comp_def)
qed

section \<open>Form tokens\<close>

definition xorChar :: "char \<Rightarrow> char \<Rightarrow> char" where
  "xorChar a b = char_of (byte a XOR byte b)"

text \<open>The random half is the argument \<open>rnd\<close>.\<close>

definition mask :: "string \<Rightarrow> string \<Rightarrow> string" where
  "mask rnd token = encode64 urlAlphabet (rnd @ map2 xorChar token rnd)"

definition validToken :: "string \<Rightarrow> string \<Rightarrow> bool" where
  "validToken masked want \<longleftrightarrow>
     (case decode64 urlAlphabet False masked of
        None \<Rightarrow> False
      | Some b \<Rightarrow>
          if want = [] \<or> length b = 0 \<or> length b mod 2 \<noteq> 0 then False
          else let n = length b div 2 in map2 xorChar (drop n b) (take n b) = want)"

lemma xor_byte_less: "byte a XOR byte b < 256"
proof -
  have "take_bit 8 (byte a XOR byte b) = byte a XOR byte b"
    by (simp add: take_bit_xor take_bit_nat_eq_self)
  then show ?thesis using take_bit_nat_less_exp [of 8 "byte a XOR byte b"] by simp
qed

lemma xorChar_cancel [simp]: "xorChar (xorChar a b) b = a"
  by (simp add: xorChar_def xor_byte_less xor.assoc) (simp add: byte_def)

lemma map2_xor_cancel: "length xs = length ys \<Longrightarrow> map2 xorChar (map2 xorChar xs ys) ys = xs"
  by (induction xs ys rule: list_induct2) simp_all

lemma validToken_mask:
  assumes "length rnd = length token" and "token \<noteq> []"
  shows "validToken (mask rnd token) want \<longleftrightarrow> token = want"
proof -
  have "decode64 urlAlphabet False (mask rnd token) = Some (rnd @ map2 xorChar token rnd)"
    by (simp add: mask_def decode64_encode64)
  moreover have "length (rnd @ map2 xorChar token rnd) = 2 * length token" using assms(1) by simp
  ultimately show ?thesis using assms by (auto simp: validToken_def map2_xor_cancel)
qed

text \<open>A form token that was masked with any random bytes is accepted for exactly the token it
  hides, so a page's token is accepted for its own session and for no other; and an empty token is
  never accepted.\<close>

lemma mask_valid:
  assumes "length rnd = length token" and "token \<noteq> []"
  shows "(validToken (mask rnd token) want \<longleftrightarrow> token = want) \<and> \<not> validToken x []"
  using validToken_mask [OF assms] by (auto simp: validToken_def split: option.splits)

end
