(* ===== verification/Password.thy ===== *)
theory Password
  imports Base64
begin

text \<open>
  The password hashes of \<^verbatim>\<open>internal/auth/password.go\<close>. Argon2 is a third-party package: its version
  number and key derivation are the argument \<open>argon\<close>, of which the theorems use only that a derived key
  has the length asked for. The salt that \<^verbatim>\<open>rand.Read\<close> fills in is an argument of \<open>Hash\<close>. A verification
  returns \<open>None\<close> for \<^verbatim>\<open>ErrBadHash\<close>; that the comparison takes constant time is not modelled.
\<close>

record argon2 =
  Version :: int
  IDKey :: "string \<Rightarrow> string \<Rightarrow> int \<Rightarrow> int \<Rightarrow> int \<Rightarrow> nat \<Rightarrow> string"

definition memKiB :: int where "memKiB = 19456"
definition passes :: int where "passes = 2"
definition threads :: int where "threads = 1"
definition saltLen :: nat where "saltLen = 16"
definition keyLen :: nat where "keyLen = 32"

definition printParams :: "int \<Rightarrow> int \<Rightarrow> int \<Rightarrow> string" where
  "printParams m t p = ''m='' @ Itoa m @ '',t='' @ Itoa t @ '',p='' @ Itoa p"

definition Hash :: "argon2 \<Rightarrow> string \<Rightarrow> string \<Rightarrow> string" where
  "Hash argon salt password =
     (let key = IDKey argon password salt passes memKiB threads keyLen
      in ''$argon2id$v='' @ Itoa (Version argon) @ ''$'' @ printParams memKiB passes threads @ ''$'' @
         encode64 stdAlphabet salt @ ''$'' @ encode64 stdAlphabet key)"

text \<open>\<^verbatim>\<open>fmt.Sscanf\<close> with the pattern of the parameters, for two 32 bit numbers and one of 8 bits. What it
  reads has to print as the text it was read from, so only texts that \<^verbatim>\<open>Sprintf\<close> yields matter.\<close>

definition scanNum :: "string \<Rightarrow> nat \<Rightarrow> string \<Rightarrow> int option" where
  "scanNum p bits s = (case cutPrefix s p of (d, found) \<Rightarrow> if found then ParseUint d bits else None)"

definition scanParams :: "string \<Rightarrow> (int \<times> int \<times> int) option" where
  "scanParams s =
     (case splitAt (CHR '','') s of
        [a, b, c] \<Rightarrow>
          (case (scanNum ''m='' 32 a, scanNum ''t='' 32 b, scanNum ''p='' 8 c) of
             (Some m, Some t, Some p) \<Rightarrow> Some (m, t, p)
           | _ \<Rightarrow> None)
      | _ \<Rightarrow> None)"

definition Verify :: "argon2 \<Rightarrow> string \<Rightarrow> string \<Rightarrow> bool option" where
  "Verify argon password encoded =
     (let parts = splitAt (CHR ''$'') encoded in
      if length parts \<noteq> 6 \<or> parts ! 0 \<noteq> [] \<or> parts ! 1 \<noteq> ''argon2id'' \<or> parts ! 2 \<noteq> ''v='' @ Itoa (Version argon) then None
      else (case scanParams (parts ! 3) of
        None \<Rightarrow> None
      | Some (m, t, p) \<Rightarrow>
          if printParams m t p \<noteq> parts ! 3 then None
          else if m < 8 \<or> 32 * 2 ^ 10 < m \<or> t < 1 \<or> 5 < t \<or> p < 1 \<or> 4 < p then None
          else (case decode64 stdAlphabet True (parts ! 4) of
            None \<Rightarrow> None
          | Some salt \<Rightarrow>
              if length salt < 8 then None
              else (case decode64 stdAlphabet True (parts ! 5) of
                None \<Rightarrow> None
              | Some key \<Rightarrow>
                  if length key < 16 \<or> 64 < length key then None
                  else Some (IDKey argon password salt t m p (length key) = key)))))"

definition dummyHash :: string where
  "dummyHash = ''$argon2id$v=19$m=19456,t=2,p=1$eMChjSfz96mvasvn2JDzWg$p7siaGhJhOm6Y70NEtq54KgArBJ2PnRa83vSoAywPes''"

section \<open>Hashes verify\<close>

lemma Itoa_plain: "c \<in> set (Itoa n) \<Longrightarrow> isDigit c \<or> c = CHR ''-''"
  using showNat_digits(2) [of "nat n"] showNat_digits(2) [of "nat (- n)"]
  by (auto simp: Itoa_def list_all_iff split: if_splits)

lemma Itoa_no: "CHR ''$'' \<notin> set (Itoa n)" "CHR '','' \<notin> set (Itoa n)"
  using Itoa_plain [of "CHR ''$''" n] Itoa_plain [of "CHR '',''" n] by (auto simp: isDigit_def byte_def)

lemma encode64_no_dollar: "CHR ''$'' \<notin> set (encode64 stdAlphabet s)"
  using encode64_chars [OF alphabets_ok(1), of s] alphabets_ok(1) by (auto simp: alphabet_ok_def)

lemma splitAt_Hash:
  "splitAt (CHR ''$'') (Hash argon salt password) =
     [[], ''argon2id'', ''v='' @ Itoa (Version argon), printParams memKiB passes threads, encode64 stdAlphabet salt,
      encode64 stdAlphabet (IDKey argon password salt passes memKiB threads keyLen)]"
proof -
  have no: "CHR ''$'' \<notin> set (''v='' @ Itoa (Version argon))" "CHR ''$'' \<notin> set (printParams memKiB passes threads)"
    using Itoa_no by (auto simp: printParams_def)
  let ?key = "encode64 stdAlphabet (IDKey argon password salt passes memKiB threads keyLen)"
  have "Hash argon salt password = [] @ CHR ''$'' # ''argon2id'' @ CHR ''$'' # (''v='' @ Itoa (Version argon)) @
      CHR ''$'' # printParams memKiB passes threads @ CHR ''$'' # encode64 stdAlphabet salt @ CHR ''$'' # ?key"
    by (simp add: Hash_def)
  then show ?thesis
    using no encode64_no_dollar by (simp only: splitAt_append splitAt_single) (simp add: splitAt_append splitAt_single)
qed

lemma ParseUint_Itoa: "0 \<le> n \<Longrightarrow> n < 2 ^ bits \<Longrightarrow> ParseUint (Itoa n) bits = Some n"
  by (simp add: ParseUint_def Itoa_def not_le)

lemma scanParams_print:
  assumes "0 \<le> m" "m < 2 ^ 32" "0 \<le> t" "t < 2 ^ 32" "0 \<le> p" "p < 2 ^ 8"
  shows "scanParams (printParams m t p) = Some (m, t, p)"
proof -
  have "printParams m t p = (''m='' @ Itoa m) @ CHR '','' # (''t='' @ Itoa t) @ CHR '','' # (''p='' @ Itoa p)"
    by (simp add: printParams_def)
  then have "splitAt (CHR '','') (printParams m t p) = [''m='' @ Itoa m, ''t='' @ Itoa t, ''p='' @ Itoa p]"
    using Itoa_no(2) by (simp only: splitAt_append splitAt_single) (simp add: splitAt_append splitAt_single)
  then show ?thesis using assms by (simp add: scanParams_def scanNum_def cutPrefix_def ParseUint_Itoa)
qed

lemma Verify_Hash:
  assumes "\<And>pw salt t m p n. length (IDKey argon pw salt t m p n) = n" and "length salt = saltLen"
  shows "Verify argon pw' (Hash argon salt pw) =
      Some (IDKey argon pw' salt passes memKiB threads keyLen = IDKey argon pw salt passes memKiB threads keyLen)"
proof -
  have "scanParams (printParams memKiB passes threads) = Some (memKiB, passes, threads)"
    by (rule scanParams_print) (simp_all add: memKiB_def passes_def threads_def)
  then show ?thesis
    using assms by (simp add: Verify_def splitAt_Hash decode64_encode64 Let_def memKiB_def passes_def threads_def saltLen_def keyLen_def)
qed


text \<open>A stand-in for the key derivation that tells passwords apart by their first bytes.\<close>

definition toy_argon :: argon2 where
  "toy_argon = \<lparr>Version = 19, IDKey = (\<lambda>pw salt t m p n. take n (pw @ replicate n (CHR ''.'')))\<rparr>"


end
