(* ===== verification/Mail_Text.thy ===== *)
theory Mail_Text
  imports Mailer Checker Store_Incidents
begin

text \<open>
  The texts of the mails, \<^verbatim>\<open>internal/alert/mail.go\<close>, and the three kinds of mails of \<^verbatim>\<open>smtp.go\<close>. What the
  standard library does to a message, formatting addresses and times, encoding the subject and the
  body, is the argument \<open>lib\<close>; the random message id is an argument. Go's floating point hours and
  minutes are exact here (a duration less than a nanosecond short of a full hour, of more than 170 days,
  is rounded up by the code). A mail to be sent reads \<open>mailer_mail\<close>, the function that \<^verbatim>\<open>monitor.New\<close> builds
  from a mailer.
\<close>

definition clean :: "string \<Rightarrow> string" where
  "clean s = runeBytes (mapDrop hidden (runes s))"

definition dauer :: "duration \<Rightarrow> string" where
  "dauer d =
     (let minutes = d sdiv minute; hours = d sdiv hourDur in
      if d < minute then Itoa (d sdiv second) @ '' Sek.''
      else if d < hourDur then Itoa minutes @ '' Min.''
      else if d < 24 * hourDur then Itoa hours @ '' Std. '' @ Itoa (minutes mod 60) @ '' Min.''
      else let days = hours sdiv 24 in
        Itoa days @ '' '' @ (if days = 1 then ''Tag'' else ''Tage'') @ '' '' @ Itoa (hours mod 24) @ '' Std.'')"

definition nl :: string where "nl = [CHR 0x0A]"
definition crlf :: string where "crlf = [CHR 0x0D, CHR 0x0A]"

definition mail_link :: "Mailer \<Rightarrow> string" where
  "mail_link m = (if BaseURL m = [] then [] else nl @ BaseURL m @ ''/admin/'' @ nl)"

definition downText :: "(time \<Rightarrow> string) \<Rightarrow> Mailer \<Rightarrow> string \<Rightarrow> string \<Rightarrow> time \<Rightarrow> string \<times> string" where
  "downText clock m name0 cau since =
     (let name = clean name0
      in (''[dmn-status] nicht erreichbar: '' @ name,
          name @ '' ist nicht erreichbar.'' @ nl @ nl @ ''Seit:    '' @ clock since @ nl @ ''Ursache: '' @ clean cau @ nl @
          mail_link m))"

definition upText :: "(time \<Rightarrow> string) \<Rightarrow> Mailer \<Rightarrow> string \<Rightarrow> time \<Rightarrow> time \<Rightarrow> string \<times> string" where
  "upText clock m name0 since till =
     (let name = clean name0; d = dauer (subTime till since)
      in (''[dmn-status] wieder erreichbar: '' @ name @ '' nach '' @ d,
          name @ '' ist wieder erreichbar.'' @ nl @ nl @ ''Ausfall: '' @ clock since @ '' bis '' @ clock till @ nl @
          ''Dauer:   '' @ d @ nl @ mail_link m))"

section \<open>The message\<close>

record address =
  a_Text :: string
  a_Address :: string

record mail_lib =
  parseAddress :: "string \<Rightarrow> address option"
  addressText :: "string \<Rightarrow> string"
  qEncode :: "string \<Rightarrow> string"
  rfcDate :: "time \<Rightarrow> string"
  clockText :: "time \<Rightarrow> string"
  quotedPrintable :: "string \<Rightarrow> string option"

text \<open>\<^verbatim>\<open>strings.Join(to, ", ")\<close> and the part of an address behind its last \<^verbatim>\<open>@\<close>.\<close>

fun commaJoin :: "string list \<Rightarrow> string" where
  "commaJoin [] = []"
| "commaJoin [s] = s"
| "commaJoin (s # ss) = s @ '', '' @ commaJoin ss"

definition domainOf :: "string \<Rightarrow> string" where
  "domainOf s = rev (takeWhile (\<lambda>c. c \<noteq> CHR ''@'') (rev s))"

definition message :: "mail_lib \<Rightarrow> Mailer \<Rightarrow> address \<Rightarrow> string \<Rightarrow> string \<Rightarrow> string \<Rightarrow> time \<Rightarrow> string option" where
  "message lib m sender subject body mid date =
     map_option (\<lambda>qp.
       ''From: '' @ a_Text sender @ crlf @
       ''To: '' @ commaJoin (map (addressText lib) (To m)) @ crlf @
       ''Subject: '' @ qEncode lib (clean subject) @ crlf @
       ''Date: '' @ rfcDate lib date @ crlf @
       ''Message-ID: <'' @ mid @ ''@'' @ domainOf (a_Address sender) @ ''>'' @ crlf @
       ''MIME-Version: 1.0'' @ crlf @
       ''Content-Type: text/plain; charset=utf-8'' @ crlf @
       ''Content-Transfer-Encoding: quoted-printable'' @ crlf @ crlf @ qp) (quotedPrintable lib body)"

text \<open>The first part of \<^verbatim>\<open>send\<close>: the envelope sender and the message, or a failure.\<close>

definition prepare :: "mail_lib \<Rightarrow> Mailer \<Rightarrow> string \<Rightarrow> time \<Rightarrow> string \<times> string \<Rightarrow> string \<Rightarrow> (string \<times> string) option" where
  "prepare lib m mid now txt fromText =
     (case parseAddress lib fromText of
        None \<Rightarrow> None
      | Some a \<Rightarrow> map_option (\<lambda>msg. (a_Address a, msg)) (message lib m a (fst txt) (snd txt) mid now))"

definition Down :: "mail_lib \<Rightarrow> string \<Rightarrow> time \<Rightarrow> string \<Rightarrow> string \<Rightarrow> time \<Rightarrow> Mailer \<Rightarrow> (mail_err + unit) \<times> Mailer \<times> smtp_cmd list" where
  "Down lib mid now name cau since m =
     send (prepare lib m mid now (downText (clockText lib) m name cau since)) False now m"

definition Up :: "mail_lib \<Rightarrow> string \<Rightarrow> time \<Rightarrow> string \<Rightarrow> time \<Rightarrow> time \<Rightarrow> Mailer \<Rightarrow> (mail_err + unit) \<times> Mailer \<times> smtp_cmd list" where
  "Up lib mid now name since till m =
     send (prepare lib m mid now (upText (clockText lib) m name since till)) False now m"

definition Test :: "mail_lib \<Rightarrow> string \<Rightarrow> time \<Rightarrow> Mailer \<Rightarrow> (mail_err + unit) \<times> Mailer \<times> smtp_cmd list" where
  "Test lib mid now m =
     send (prepare lib m mid now (''[dmn-status] Testmail'', ''Mailversand von dmn-status funktioniert.'' @ nl)) True now m"

definition mailer_mail :: "mail_lib \<Rightarrow> string \<Rightarrow> time \<Rightarrow> Incident \<Rightarrow> Mailer \<Rightarrow> (mail_err + unit) \<times> Mailer" where
  "mailer_mail lib mid now i m =
     (case (if incident_Open i then Down lib mid now (inc_TargetName i) (inc_Cause i) (inc_StartedAt i) m
            else Up lib mid now (inc_TargetName i) (inc_StartedAt i) (inc_EndedAt i) m) of
        (r, m1, _) \<Rightarrow> (r, m1))"

section \<open>No text of a target breaks a line\<close>

lemma runes_clean: "runes (clean s) = mapDrop hidden (runes s)"
  by (simp add: clean_def runes_runeBytes mapDrop_whole)

lemma clean_visible: "\<not> containsFunc (clean s) hidden"
  using mapDrop_visible [of _ hidden "runes s"] by (auto simp: containsFunc_def runes_clean list_ex_iff)

text \<open>A control byte of a text is a rune of its own.\<close>

lemma decodeRune_high:
  assumes "decodeRune (h # t) = (r, n)" and "\<not> h < 0x80"
  shows "n = 1 \<or> (n = 2 \<and> (\<exists>x u. t = x # u \<and> 0x80 \<le> x)) \<or> (n = 3 \<and> (\<exists>x y u. t = x # y # u \<and> 0x80 \<le> x \<and> 0x80 \<le> y)) \<or>
    (n = 4 \<and> (\<exists>x y z u. t = x # y # z # u \<and> 0x80 \<le> x \<and> 0x80 \<le> y \<and> 0x80 \<le> z))"
  using assms by (auto simp: cont_def split: list.splits if_splits)

lemma ascii_byte_rune:
  assumes "c \<in> set s" and "byte c < 0x80"
  shows "\<exists>x \<in> set (runes s). fst x = byte c"
proof -
  have one: "fst (decodeRune bs) = b" if b: "b \<in> set (take (snd (decodeRune bs)) bs)" "b < 0x80" for b bs
  proof (cases bs)
    case (Cons h t)
    obtain r n where d: "decodeRune (h # t) = (r, n)" by fastforce
    show ?thesis
    proof (cases "h < 0x80")
      case False
      then have "\<forall>x \<in> set (take n (h # t)). 0x80 \<le> x" using decodeRune_high [OF d] by auto
      then show ?thesis using b Cons d by auto
    qed (use b Cons in auto)
  qed (use b in simp)
  show ?thesis
    using assms(1)
  proof (induction s rule: runes.induct)
    case (1 s)
    obtain r n where f: "firstRune s = (r, n)" by fastforce
    have ne: "s \<noteq> []" using "1.prems" by auto
    then have rs: "runes s = (r, take n s) # runes (drop n s)" by (subst runes.simps) (simp add: f)
    from "1.prems" have "c \<in> set (take n s) \<or> c \<in> set (drop n s)" by (metis Un_iff append_take_drop_id set_append)
    then show ?case
    proof
      assume "c \<in> set (take n s)"
      then have "byte c \<in> set (take n (map byte (take 4 s)))"
        using decodeRune_width [of "map byte (take 4 s)"] f ne
        by (cases "n \<le> 4") (auto simp: firstRune_def take_map min_def split: if_splits)
      then have "r = byte c" using one [of "byte c" "map byte (take 4 s)"] f assms(2) by (simp add: firstRune_def)
      then show ?thesis by (simp add: rs)
    next
      assume "c \<in> set (drop n s)"
      then show ?thesis using "1.IH" [OF ne f [symmetric] refl] by (auto simp: rs)
    qed
  qed
qed

lemma clean_no_control: "c \<in> set (clean s) \<Longrightarrow> 32 \<le> byte c \<and> byte c \<noteq> 127"
proof (rule ccontr)
  assume c: "c \<in> set (clean s)" and bad: "\<not> (32 \<le> byte c \<and> byte c \<noteq> 127)"
  then obtain x where "x \<in> set (runes (clean s))" "fst x = byte c" using ascii_byte_rune [OF c] by fastforce
  moreover have "hidden (byte c)" using bad by (auto simp: hidden_def isControl_def)
  ultimately show False using mapDrop_visible [of x hidden "runes s"] by (simp add: runes_clean)
qed

definition one_line :: "string \<Rightarrow> bool" where
  "one_line s \<longleftrightarrow> (\<forall>c \<in> set s. 32 \<le> byte c \<and> byte c \<noteq> 127)"

lemma one_line_append [simp]: "one_line (a @ b) \<longleftrightarrow> one_line a \<and> one_line b" "one_line []"
  by (auto simp: one_line_def)

lemma one_line_clean [simp]: "one_line (clean s)"
  using clean_no_control by (auto simp: one_line_def)

lemma one_line_Itoa [simp]: "one_line (Itoa n)"
proof -
  have d: "one_line (showNat k)" for k
    using showNat_digits(2) [of k] by (auto simp: one_line_def list_all_iff isDigit_def)
  have "32 \<le> byte (CHR ''-'') \<and> byte (CHR ''-'') \<noteq> 127" by (simp add: byte_def)
  then show ?thesis using d [of "nat n"] d [of "nat (- n)"] by (auto simp: Itoa_def one_line_def)
qed

lemma one_line_Cons [simp]: "one_line (c # s) \<longleftrightarrow> 32 \<le> byte c \<and> byte c \<noteq> 127 \<and> one_line s"
  by (auto simp: one_line_def)

lemma byte_Char_simps [simp]: "byte (Char b0 b1 b2 b3 b4 b5 b6 b7) = of_char (Char b0 b1 b2 b3 b4 b5 b6 b7)"
  by (simp add: byte_def)

lemma one_line_dauer: "one_line (dauer d)"
  unfolding dauer_def Let_def by (auto simp del: of_char_Char) (simp_all)

lemma count_one_line: "one_line s \<Longrightarrow> count_list s (CHR 0x0A) = 0"
  by (induction s) auto



end
