(* ===== verification/Web_Admin.thy ===== *)
theory Web_Admin
  imports Monitor_Ops Limiter Web_Public Validate Client_IP Password Mail_Text
begin

text \<open>
  The admin area: \<^verbatim>\<open>internal/web/admin.go\<close> with the parts of \<^verbatim>\<open>server.go\<close> it uses. A handler is a function
  from a request and the server's state (the manager with its store, the login limiter and the
  cache) to a reply and the new state; requests are handled one after the other. The fixed
  surroundings of the process (hash functions, the URL parser, the mail library and the
  configuration) are \<open>env\<close>; what \<^verbatim>\<open>rand\<close> draws is \<open>rn\<close>. A reply is the view with its data, the cookies
  it sets and the \<^verbatim>\<open>Retry-After\<close> header; a translated text is shown as its key.
\<close>

section \<open>Requests and replies\<close>

record webenv =
  e_sha256 :: "string \<Rightarrow> string"
  e_argon :: argon2
  e_lib :: mail_lib
  e_parseURL :: "string \<Rightarrow> url option"
  e_proxy :: "prefix option"
  e_CookieSecure :: bool
  e_mailer :: bool

text \<open>What the store keeps of a token: its SHA-256 sum, \<open>sha\<close>, in hexadecimal. The text determines the sum.\<close>

definition hexEncode :: "string \<Rightarrow> string" where
  "hexEncode s = concat (map (\<lambda>c. [hexDigit (byte c div 16), hexDigit (byte c mod 16)]) s)"

definition hashToken :: "(string \<Rightarrow> string) \<Rightarrow> string \<Rightarrow> string" where
  "hashToken sha token = hexEncode (sha token)"

record 'b server =
  sv_mon :: "Mailer Manager"
  sv_limit :: limiter
  sv_cache :: "string \<rightharpoonup> 'b cached"

record request =
  rq_post :: bool
  rq_form :: "(string \<Rightarrow> string) option"
  rq_cookie :: "string \<rightharpoonup> string"
  rq_remote :: string
  rq_xff :: "string list"
  rq_id :: string
  rq_ok :: string
  rq_gone :: bool

record random =
  rn_lcsrf :: string
  rn_sid :: string
  rn_csrf :: string
  rn_dev :: string
  rn_bytes :: "nat \<Rightarrow> string"
  rn_mail :: string

datatype site = Lax | Strict

record cookie =
  ck_Name :: string
  ck_Value :: string
  ck_MaxAge :: int
  ck_SameSite :: site
  ck_Secure :: bool

record AdminTargetRow =
  ar_Row :: TargetRow
  ar_Address :: string
  ar_Paused :: bool
  ar_Public :: bool
  ar_LastError :: string
  ar_LastCheck :: time

datatype view =
    Redirect string
  | NotFoundPage
  | ErrorPage
  | BadForm
  | NoReply
  | LoginView int string string string
  | ListView "AdminTargetRow list" "(string \<times> bool) option" bool string
  | FormView int Target "string \<rightharpoonup> string" string

record reply =
  rp_view :: view
  rp_cookies :: "cookie list"
  rp_retryAfter :: "int option"

definition reply :: "view \<Rightarrow> reply" where
  "reply v = \<lparr>rp_view = v, rp_cookies = [], rp_retryAfter = None\<rparr>"

text \<open>The cookies' names, \<^verbatim>\<open>newServer\<close>.\<close>

definition cookieName :: "webenv \<Rightarrow> string \<Rightarrow> string" where
  "cookieName env n = (if e_CookieSecure env then ''__Host-'' @ n else n)"

definition mk_cookie :: "webenv \<Rightarrow> string \<Rightarrow> string \<Rightarrow> int \<Rightarrow> site \<Rightarrow> cookie" where
  "mk_cookie env n v maxAge site =
     \<lparr>ck_Name = cookieName env n, ck_Value = v, ck_MaxAge = maxAge, ck_SameSite = site, ck_Secure = e_CookieSecure env\<rparr>"

definition toLogin :: reply where "toLogin = reply (Redirect ''/admin/login'')"

text \<open>A page's token, masked with fresh random bytes.\<close>

definition masked :: "random \<Rightarrow> string \<Rightarrow> string" where
  "masked rn token = mask (rn_bytes rn (length token)) token"

definition on_db :: "(db \<Rightarrow> 'a result \<times> db) \<Rightarrow> 'b server \<Rightarrow> 'a result \<times> 'b server" where
  "on_db q s = (case on_store q (sv_mon s) of (r, m) \<Rightarrow> (r, s\<lparr>sv_mon := m\<rparr>))"

section \<open>The session guard\<close>

definition admin_guard ::
    "webenv \<Rightarrow> random \<Rightarrow> time \<Rightarrow> (request \<Rightarrow> string \<Rightarrow> 'b server \<Rightarrow> reply \<times> 'b server) \<Rightarrow>
     request \<Rightarrow> 'b server \<Rightarrow> reply \<times> 'b server" where
  "admin_guard env rn now h req s =
     (case rq_cookie req (cookieName env ''sid'') of
        None \<Rightarrow> (toLogin, s)
      | Some token \<Rightarrow>
          (case on_db (StoreSession (hashToken (e_sha256 env)) token now) s of
             (Inl e, s1) \<Rightarrow>
               if e = ErrNotFound then (toLogin\<lparr>rp_cookies := [mk_cookie env ''sid'' [] (- 1) Lax]\<rparr>, s1)
               else (reply ErrorPage, s1)
           | (Inr sess, s1) \<Rightarrow>
               let s2 = (if minute \<le> subTime now (ses_LastSeen sess)
                         then snd (on_db (TouchSession (hashToken (e_sha256 env)) token now) s1) else s1)
               in if rq_post req
                  then (case rq_form req of
                          None \<Rightarrow> (reply BadForm, s2)
                        | Some f \<Rightarrow>
                            if \<not> validToken (f ''csrf'') (ses_CSRF sess) then (reply (Redirect ''/admin/?ok=csrf''), s2)
                            else h req (masked rn (ses_CSRF sess)) s2)
                  else h req (masked rn (ses_CSRF sess)) s2))"

section \<open>Logging in\<close>

definition loginForm :: "webenv \<Rightarrow> random \<Rightarrow> request \<Rightarrow> 'b server \<Rightarrow> reply \<times> 'b server" where
  "loginForm env rn req s =
     ((case rq_cookie req (cookieName env ''lcsrf'') of
         Some v \<Rightarrow>
           if 26 \<le> length v \<and> length v \<le> 64 then reply (LoginView 200 (masked rn v) [] [])
           else (reply (LoginView 200 (masked rn (rn_lcsrf rn)) [] []))\<lparr>rp_cookies := [mk_cookie env ''lcsrf'' (rn_lcsrf rn) 0 Strict]\<rparr>
       | None \<Rightarrow> (reply (LoginView 200 (masked rn (rn_lcsrf rn)) [] []))\<lparr>rp_cookies := [mk_cookie env ''lcsrf'' (rn_lcsrf rn) 0 Strict]\<rparr>), s)"

text \<open>An unknown account or a damaged hash still costs a verification, whose result is dropped.\<close>

definition checkLogin :: "webenv \<Rightarrow> string \<Rightarrow> string \<Rightarrow> 'b server \<Rightarrow> bool result \<times> 'b server" where
  "checkLogin env user password s =
     (case on_db StoreAdmin s of
        (Inl e, s1) \<Rightarrow> (if e = ErrNotFound then Inr False else Inl e, s1)
      | (Inr (name, hash), s1) \<Rightarrow>
          (case Verify (e_argon env) password hash of
             None \<Rightarrow> (Inr False, s1)
           | Some ok \<Rightarrow> (Inr (e_sha256 env user = e_sha256 env name \<and> ok), s1)))"

definition retryAfter :: "duration \<Rightarrow> int" where
  "retryAfter wait = (wait + second - 1) sdiv second"

text \<open>The part of \<^verbatim>\<open>login\<close> behind the credentials: a new session replaces the browser's old one.\<close>

definition login_session :: "webenv \<Rightarrow> random \<Rightarrow> time \<Rightarrow> bool \<Rightarrow> request \<Rightarrow> 'b server \<Rightarrow> reply \<times> 'b server" where
  "login_session env rn now known req s =
     (case (case rq_cookie req (cookieName env ''sid'') of
              Some old \<Rightarrow> on_db (DeleteSession (hashToken (e_sha256 env)) old) s | None \<Rightarrow> (Inr (), s)) of
        (Inl e, s1) \<Rightarrow> (reply ErrorPage, s1)
      | (Inr _, s1) \<Rightarrow>
          (case on_db (CreateSession (hashToken (e_sha256 env)) (rn_sid rn) (rn_csrf rn) now) s1 of
             (Inl e, s2) \<Rightarrow> (reply ErrorPage, s2)
           | (Inr (token, _), s2) \<Rightarrow>
               let done_reply = (reply (Redirect ''/admin/''))\<lparr>rp_cookies := [mk_cookie env ''sid'' token 0 Lax]\<rparr>
               in if known then (done_reply, s2)
                  else (case on_db (CreateDevice (hashToken (e_sha256 env)) (rn_dev rn) now) s2 of
                          (Inl e, s3) \<Rightarrow> (done_reply, s3)
                        | (Inr dev, s3) \<Rightarrow>
                            (done_reply\<lparr>rp_cookies := rp_cookies done_reply @ [mk_cookie env ''dev'' dev DeviceMax Strict]\<rparr>, s3))))"

definition login_attempt ::
    "webenv \<Rightarrow> random \<Rightarrow> time \<Rightarrow> bool \<Rightarrow> string \<Rightarrow> (string \<Rightarrow> string) \<Rightarrow> request \<Rightarrow> 'b server \<Rightarrow> reply \<times> 'b server" where
  "login_attempt env rn now known csrf f req s =
     (let ip = clientIP (e_proxy env) (rq_remote req) (rq_xff req);
          ((wait, first), l) = limiter_take ip now known (sv_limit s);
          s1 = s\<lparr>sv_limit := l\<rparr>
      in if 0 < wait
         then ((reply (LoginView 429 csrf (f ''username'') ''adm.login.locked''))\<lparr>rp_retryAfter := Some (retryAfter wait)\<rparr>, s1)
         else if rq_gone req then (reply NoReply, s1)
         else (case checkLogin env (f ''username'') (f ''password'') s1 of
                 (Inl e, s2) \<Rightarrow> (reply ErrorPage, s2)
               | (Inr ok, s2) \<Rightarrow>
                   if \<not> ok then (reply (LoginView 401 csrf (f ''username'') ''adm.login.bad''), s2)
                   else login_session env rn now known req (s2\<lparr>sv_limit := forgive ip (sv_limit s2)\<rparr>)))"

definition login :: "webenv \<Rightarrow> random \<Rightarrow> time \<Rightarrow> request \<Rightarrow> 'b server \<Rightarrow> reply \<times> 'b server" where
  "login env rn now req s =
     (case rq_form req of
        None \<Rightarrow> (reply BadForm, s)
      | Some f \<Rightarrow>
          (case rq_cookie req (cookieName env ''lcsrf'') of
             Some v \<Rightarrow>
               if \<not> validToken (f ''csrf'') v
               then ((reply (LoginView 403 (masked rn (rn_lcsrf rn)) (f ''username'') ''adm.csrf''))
                       \<lparr>rp_cookies := [mk_cookie env ''lcsrf'' (rn_lcsrf rn) 0 Strict]\<rparr>, s)
               else (case rq_cookie req (cookieName env ''dev'') of
                       None \<Rightarrow> login_attempt env rn now False (masked rn v) f req s
                     | Some d \<Rightarrow>
                         (case on_db (KnownDevice (hashToken (e_sha256 env)) d now) s of
                            (Inl e, s1) \<Rightarrow> (reply ErrorPage, s1)
                          | (Inr known, s1) \<Rightarrow> login_attempt env rn now known (masked rn v) f req s1))
           | None \<Rightarrow>
               ((reply (LoginView 403 (masked rn (rn_lcsrf rn)) (f ''username'') ''adm.csrf''))
                  \<lparr>rp_cookies := [mk_cookie env ''lcsrf'' (rn_lcsrf rn) 0 Strict]\<rparr>, s)))"

section \<open>Handlers behind the guard\<close>

definition flashes :: "string \<rightharpoonup> string \<times> bool" where
  "flashes =
     [''gespeichert'' \<mapsto> (''adm.saved'', False), ''geloescht'' \<mapsto> (''adm.deleted'', False), ''geprueft'' \<mapsto> (''adm.checked'', False),
      ''pausiert'' \<mapsto> (''adm.check.paused'', True), ''zufrueh'' \<mapsto> (''adm.check.rate'', True), ''mail'' \<mapsto> (''adm.mail.sent'', False),
      ''mailfehler'' \<mapsto> (''adm.mail.failed'', True), ''keinmail'' \<mapsto> (''adm.mail.off'', True), ''csrf'' \<mapsto> (''adm.csrf'', True)]"

definition clearCache :: "'b server \<Rightarrow> 'b server" where "clearCache s = s\<lparr>sv_cache := Map.empty\<rparr>"

definition pathID :: "string \<Rightarrow> int option" where
  "pathID v = (case Atoi v of None \<Rightarrow> None | Some i \<Rightarrow> if i \<le> 0 \<or> Itoa i \<noteq> v then None else Some i)"

definition logout :: "webenv \<Rightarrow> request \<Rightarrow> string \<Rightarrow> 'b server \<Rightarrow> reply \<times> 'b server" where
  "logout env req csrf s =
     (case (case rq_cookie req (cookieName env ''sid'') of
              Some v \<Rightarrow> on_db (DeleteSession (hashToken (e_sha256 env)) v) s | None \<Rightarrow> (Inr (), s)) of
        (Inl e, s1) \<Rightarrow> (reply ErrorPage, s1)
      | (Inr _, s1) \<Rightarrow> (toLogin\<lparr>rp_cookies := [mk_cookie env ''sid'' [] (- 1) Lax]\<rparr>, s1))"

definition adminRow :: "Target \<Rightarrow> TargetRow \<times> Check \<Rightarrow> AdminTargetRow" where
  "adminRow t rc = (case rc of (r, lst) \<Rightarrow>
     \<lparr>ar_Row = r, ar_Address = Address t, ar_Paused = Paused t, ar_Public = Public t,
      ar_LastError = (if \<not> res_OK (chk_Result lst) then res_Err (chk_Result lst) else []), ar_LastCheck = chk_At lst\<rparr>)"

definition admin_list :: "webenv \<Rightarrow> time \<Rightarrow> request \<Rightarrow> string \<Rightarrow> 'b server \<Rightarrow> reply \<times> 'b server" where
  "admin_list env now req csrf s =
     (case on_db (and_then StoreTargets (\<lambda>ts. and_then (rows_of now 0 ts) (\<lambda>rs d. (Inr (map2 adminRow ts rs), d)))) s of
        (Inl e, s1) \<Rightarrow> (reply ErrorPage, s1)
      | (Inr rows, s1) \<Rightarrow> (reply (ListView rows (flashes (rq_ok req)) (e_mailer env) csrf), s1))"

definition newTarget :: Target where
  "newTarget = \<lparr>ID = 0, Name = [], Kind = KindHTTP, Address = [], ExpectStatus = ''200-399'', Keyword = [], ConnectTo = [],
     IntervalS = 60, TimeoutMs = 10000, FailThreshold = 3, Public = False, Paused = False, Sort = 0,
     CreatedAt = zeroTime, UpdatedAt = zeroTime\<rparr>"

definition newForm :: "request \<Rightarrow> string \<Rightarrow> 'b server \<Rightarrow> reply \<times> 'b server" where
  "newForm req csrf s = (reply (FormView 200 newTarget Map.empty csrf), s)"

text \<open>The target a path names, or the page to answer with.\<close>

definition path_target :: "request \<Rightarrow> 'b server \<Rightarrow> (view + Target) \<times> 'b server" where
  "path_target req s =
     (case pathID (rq_id req) of
        None \<Rightarrow> (Inl NotFoundPage, s)
      | Some i \<Rightarrow>
          (case on_db (StoreTarget i) s of
             (Inl e, s1) \<Rightarrow> (Inl (if e = ErrNotFound then NotFoundPage else ErrorPage), s1)
           | (Inr t, s1) \<Rightarrow> (Inr t, s1)))"

definition editForm :: "request \<Rightarrow> string \<Rightarrow> 'b server \<Rightarrow> reply \<times> 'b server" where
  "editForm req csrf s =
     (case path_target req s of
        (Inl v, s1) \<Rightarrow> (reply v, s1)
      | (Inr t, s1) \<Rightarrow> (reply (FormView 200 t Map.empty csrf), s1))"

text \<open>A number of the form, or the old value.\<close>

definition formInt :: "(string \<Rightarrow> string) \<Rightarrow> string \<Rightarrow> int \<Rightarrow> int" where
  "formInt f key old = (case Atoi (TrimSpace (f key)) of Some n \<Rightarrow> n | None \<Rightarrow> old)"

definition submitted :: "(string \<Rightarrow> string) \<Rightarrow> Target \<Rightarrow> Target" where
  "submitted f t =
     t\<lparr>Name := TrimSpace (f ''name''), Kind := f ''kind'', Address := TrimSpace (f ''address''),
       ExpectStatus := TrimSpace (f ''expect_status''), Keyword := f ''keyword'', ConnectTo := TrimSpace (f ''connect_to''),
       Public := (f ''public'' = ''1''), Paused := (f ''paused'' = ''1''),
       IntervalS := formInt f ''interval_s'' (IntervalS t), TimeoutMs := formInt f ''timeout_ms'' (TimeoutMs t),
       FailThreshold := formInt f ''fail_threshold'' (FailThreshold t)\<rparr>"

definition badNumbers :: "(string \<Rightarrow> string) \<Rightarrow> (string \<rightharpoonup> string) \<Rightarrow> (string \<rightharpoonup> string)" where
  "badNumbers f errs =
     fold (\<lambda>key. noteIf (Atoi (TrimSpace (f key)) = None) key ''Ganze Zahl erwartet'') [''interval_s'', ''timeout_ms'', ''fail_threshold''] errs"

definition reload :: "time \<Rightarrow> int \<Rightarrow> 'b server \<Rightarrow> 'b server" where
  "reload now i s = s\<lparr>sv_mon := snd (Reload now i (sv_mon s))\<rparr>"

definition save_target :: "webenv \<Rightarrow> time \<Rightarrow> (string \<Rightarrow> string) \<Rightarrow> Target \<Rightarrow> string \<Rightarrow> 'b server \<Rightarrow> reply \<times> 'b server" where
  "save_target env now f t0 csrf s =
     (let t = submitted f t0; errs = badNumbers f (Validate (e_parseURL env) t) in
      if errs \<noteq> Map.empty then (reply (FormView 422 t errs csrf), s)
      else (case (if ID t = 0 then on_db (CreateTarget now t) s
                  else (case on_db (UpdateTarget now t) s of (r, s1) \<Rightarrow> (map_sum id (\<lambda>_. ID t) r, s1))) of
              (Inl e, s1) \<Rightarrow> (reply (if e = ErrNotFound then NotFoundPage else ErrorPage), s1)
            | (Inr i, s1) \<Rightarrow> (reply (Redirect ''/admin/?ok=gespeichert''), clearCache (reload now i s1))))"

definition save :: "webenv \<Rightarrow> time \<Rightarrow> request \<Rightarrow> string \<Rightarrow> 'b server \<Rightarrow> reply \<times> 'b server" where
  "save env now req csrf s =
     (let f = (case rq_form req of Some f \<Rightarrow> f | None \<Rightarrow> (\<lambda>_. [])) in
      if rq_id req \<noteq> []
      then (case path_target req s of
              (Inl v, s1) \<Rightarrow> (reply v, s1)
            | (Inr t, s1) \<Rightarrow> save_target env now f t csrf s1)
      else save_target env now f newTarget csrf s)"

definition pause :: "time \<Rightarrow> request \<Rightarrow> string \<Rightarrow> 'b server \<Rightarrow> reply \<times> 'b server" where
  "pause now req csrf s =
     (case path_target req s of
        (Inl v, s1) \<Rightarrow> (reply v, s1)
      | (Inr t, s1) \<Rightarrow>
          (case on_db (SetPaused now (ID t) (\<not> Paused t)) s1 of
             (Inl e, s2) \<Rightarrow> (reply (if e = ErrNotFound then NotFoundPage else ErrorPage), s2)
           | (Inr _, s2) \<Rightarrow> (reply (Redirect ''/admin/''), clearCache (reload now (ID t) s2))))"

definition admin_checkNow :: "time \<Rightarrow> request \<Rightarrow> string \<Rightarrow> 'b server \<Rightarrow> reply \<times> 'b server" where
  "admin_checkNow now req csrf s =
     (case path_target req s of
        (Inl v, s1) \<Rightarrow> (reply v, s1)
      | (Inr t, s1) \<Rightarrow>
          if Paused t then (reply (Redirect ''/admin/?ok=pausiert''), s1)
          else (case CheckNow now (ID t) (sv_mon s1) of
                  (ok, m) \<Rightarrow> (reply (Redirect (''/admin/?ok='' @ (if ok then ''geprueft'' else ''zufrueh''))), s1\<lparr>sv_mon := m\<rparr>)))"

definition remove :: "request \<Rightarrow> string \<Rightarrow> 'b server \<Rightarrow> reply \<times> 'b server" where
  "remove req csrf s =
     (case pathID (rq_id req) of
        None \<Rightarrow> (reply NotFoundPage, s)
      | Some i \<Rightarrow>
          (case Delete i (sv_mon s) of
             (Inl e, m) \<Rightarrow> (reply (if e = ErrNotFound then NotFoundPage else ErrorPage), s\<lparr>sv_mon := m\<rparr>)
           | (Inr _, m) \<Rightarrow> (reply (Redirect ''/admin/?ok=geloescht''), clearCache (s\<lparr>sv_mon := m\<rparr>))))"

definition testMail :: "webenv \<Rightarrow> random \<Rightarrow> time \<Rightarrow> request \<Rightarrow> string \<Rightarrow> 'b server \<Rightarrow> reply \<times> 'b server" where
  "testMail env rn now req csrf s =
     (if \<not> e_mailer env then (reply (Redirect ''/admin/?ok=keinmail''), s)
      else (case Test (e_lib env) (rn_mail rn) now (m_world (sv_mon s)) of
              (r, w, _) \<Rightarrow>
                (reply (Redirect (''/admin/?ok='' @ (if r = Inr () then ''mail'' else ''mailfehler''))),
                 s\<lparr>sv_mon := (sv_mon s)\<lparr>m_world := w\<rparr>\<rparr>)))"

section \<open>Routes\<close>

datatype route = RLogout | RList | RNewForm | RSaveNew | REditForm | RSave | RPause | RCheckNow | RRemove | RTestMail

definition posts :: "route \<Rightarrow> bool" where
  "posts r \<longleftrightarrow> r \<in> {RLogout, RSaveNew, RSave, RPause, RCheckNow, RRemove, RTestMail}"

fun handle :: "webenv \<Rightarrow> random \<Rightarrow> time \<Rightarrow> route \<Rightarrow> request \<Rightarrow> string \<Rightarrow> 'b server \<Rightarrow> reply \<times> 'b server" where
  "handle env rn now RLogout = logout env"
| "handle env rn now RList = admin_list env now"
| "handle env rn now RNewForm = newForm"
| "handle env rn now RSaveNew = save env now"
| "handle env rn now REditForm = editForm"
| "handle env rn now RSave = save env now"
| "handle env rn now RPause = pause now"
| "handle env rn now RCheckNow = admin_checkNow now"
| "handle env rn now RRemove = remove"
| "handle env rn now RTestMail = testMail env rn now"

text \<open>The routes under \<^verbatim>\<open>/admin/\<close>; the pattern of a new target has no id.\<close>

definition admin_route :: "webenv \<Rightarrow> random \<Rightarrow> time \<Rightarrow> route \<Rightarrow> request \<Rightarrow> 'b server \<Rightarrow> reply \<times> 'b server" where
  "admin_route env rn now r req =
     admin_guard env rn now (handle env rn now r)
       (req\<lparr>rq_post := posts r, rq_id := (if r \<in> {RNewForm, RSaveNew} then [] else rq_id req)\<rparr>)"

end
