(* ===== verification/Web_Admin_Props.thy ===== *)
theory Web_Admin_Props
  imports Web_Admin
begin

text \<open>
  What the admin area guarantees: without a live session and its form token a request changes nothing
  but the session's own expiry; a login opens a session only for the right password within the limits;
  saving a form stores what was validated and hands it to the monitor.
\<close>

section \<open>Store calls on the server's state\<close>

definition store_of :: "'b server \<Rightarrow> db" where "store_of s = m_store (sv_mon s)"

definition with_store :: "db \<Rightarrow> 'b server \<Rightarrow> 'b server" where
  "with_store d s = s\<lparr>sv_mon := (sv_mon s)\<lparr>m_store := d\<rparr>\<rparr>"

lemma on_db_eq: "on_db q s = (fst (q (store_of s)), with_store (snd (q (store_of s))) s)"
  by (simp add: on_db_def on_store_def store_of_def with_store_def split: prod.split)

lemma store_of_with [simp]: "store_of (with_store d s) = d" "with_store d (with_store d' s) = with_store d s"
  "with_store (store_of s) s = s" "sv_limit (with_store d s) = sv_limit s"
  "with_store d (s\<lparr>sv_limit := l\<rparr>) = (with_store d s)\<lparr>sv_limit := l\<rparr>" "store_of (s\<lparr>sv_limit := l\<rparr>) = store_of s"
  by (simp_all add: store_of_def with_store_def)

section \<open>Hashed tokens\<close>

lemma hexDigit_inject [simp]: "m < 16 \<Longrightarrow> n < 16 \<Longrightarrow> hexDigit m = hexDigit n \<longleftrightarrow> m = n"
  by (metis hexVal_hexDigit option.inject)

lemma hexEncode_inject [simp]: "hexEncode s = hexEncode t \<longleftrightarrow> s = t"
proof (induction s arbitrary: t)
  case Nil
  then show ?case by (cases t) (simp_all add: hexEncode_def)
next
  case (Cons c s)
  have "c = d" if "byte c div 16 = byte d div 16" "byte c mod 16 = byte d mod 16" for d
    using that by (metis byte_eq_iff div_mult_mod_eq)
  moreover have "byte d div 16 < 16" for d using byte_less [of d] by (simp add: less_mult_imp_div_less)
  ultimately show ?case using Cons.IH by (cases t) (auto simp: hexEncode_def)
qed

text \<open>Two tokens are kept as the same text just when their sums agree.\<close>

lemma hashToken_eq: "hashToken sha a = hashToken sha b \<longleftrightarrow> sha a = sha b"
  by (simp add: hashToken_def)

section \<open>The guard\<close>

text \<open>The request carries the token of a live session and, to change something, that session's form
  token.\<close>

definition authenticated :: "webenv \<Rightarrow> time \<Rightarrow> route \<Rightarrow> request \<Rightarrow> 'b server \<Rightarrow> bool" where
  "authenticated env now r req s \<longleftrightarrow>
     (\<exists>token sess. rq_cookie req (cookieName env ''sid'') = Some token \<and>
        fst (StoreSession (hashToken (e_sha256 env)) token now (store_of s)) = Inr sess \<and>
        (posts r \<longrightarrow> (\<exists>f. rq_form req = Some f \<and> validToken (f ''csrf'') (ses_CSRF sess))))"

text \<open>At most the time stamps of sessions changed (and the script of the driver's failures went on).\<close>

definition touched_db :: "db \<Rightarrow> db \<Rightarrow> bool" where
  "touched_db d d' \<longleftrightarrow>
     targets d' = targets d \<and> checks d' = checks d \<and> hourly d' = hourly d \<and> incidents d' = incidents d \<and>
     admin d' = admin d \<and> devices d' = devices d \<and>
     map (\<lambda>r. (s_hash r, s_csrf r, s_created r)) (sessions d') = map (\<lambda>r. (s_hash r, s_csrf r, s_created r)) (sessions d)"

definition only_touched :: "'b server \<Rightarrow> 'b server \<Rightarrow> bool" where
  "only_touched s s' \<longleftrightarrow> s' = with_store (store_of s') s \<and> touched_db (store_of s) (store_of s')"

lemma only_touched_with: "only_touched s (with_store d s) \<longleftrightarrow> touched_db (store_of s) d"
  by (simp add: only_touched_def)

lemma only_touched_refl [simp]: "only_touched s s"
  by (simp add: only_touched_def touched_db_def)

lemma only_touched_reads: "reads q \<Longrightarrow> only_touched s (with_store (snd (q (store_of s))) s)"
proof -
  assume "reads q"
  then obtain fs where "snd (q (store_of s)) = (store_of s)\<lparr>faults := fs\<rparr>" unfolding reads_def by blast
  then show ?thesis by (simp add: only_touched_with touched_db_def)
qed

lemma update_where_map: "(\<And>r. g (f r) = g r) \<Longrightarrow> map g (update_where p f rs) = map g rs"
  by (simp add: update_where_def)

lemma only_touched_touch: "only_touched s (with_store (snd (TouchSession ht token now (store_of s))) s)"
proof -
  have "touched_db d (snd (TouchSession ht token now d))" for d
    unfolding TouchSession_def by (rule exec_rule) (simp_all add: Let_def update_where_map touched_db_def)
  then show ?thesis by (simp add: only_touched_with)
qed

lemma only_touched_trans: "only_touched s s1 \<Longrightarrow> only_touched s1 s2 \<Longrightarrow> only_touched s s2"
  unfolding only_touched_def touched_db_def by (metis store_of_with(2))

text \<open>A request under /admin/ that carries no live session's token, or that would change something and
  does not carry that session's form token, changes nothing but time stamps of the session itself, is
  answered with the login page's address, the list's with a warning, or an error, and is given no
  session.\<close>

lemma guard_keeps:
  assumes "\<not> authenticated env now r req s" and "admin_route env rn now r req s = (rp, s')"
  shows "only_touched s s' \<and>
    rp_view rp \<in> {Redirect ''/admin/login'', Redirect ''/admin/?ok=csrf'', BadForm, ErrorPage} \<and>
    (\<forall>c \<in> set (rp_cookies rp). ck_Value c = [])"
proof (cases "rq_cookie req (cookieName env ''sid'')")
  case None
  then show ?thesis using assms(2) by (auto simp: admin_route_def admin_guard_def toLogin_def reply_def)
next
  case (Some token)
  let ?q = "StoreSession (hashToken (e_sha256 env)) token now"
  define s1 where "s1 = with_store (snd (?q (store_of s))) s"
  have q: "on_db ?q s = (fst (?q (store_of s)), s1)" by (simp add: on_db_eq s1_def)
  have t1: "only_touched s s1" unfolding s1_def by (rule only_touched_reads) simp
  show ?thesis
  proof (cases "fst (?q (store_of s))")
    case (Inl e)
    then show ?thesis
      using assms(2) Some q t1
      by (auto simp: admin_route_def admin_guard_def toLogin_def reply_def mk_cookie_def split: if_splits)
  next
    case (Inr sess)
    define s2 where "s2 = (if minute \<le> subTime now (ses_LastSeen sess)
      then snd (on_db (TouchSession (hashToken (e_sha256 env)) token now) s1) else s1)"
    have "only_touched s1 s2"
      using only_touched_touch [of s1 "hashToken (e_sha256 env)" token now] by (simp add: s2_def on_db_eq)
    then have t2: "only_touched s s2" by (rule only_touched_trans [OF t1])
    have p: "posts r" and bad: "\<forall>f. rq_form req = Some f \<longrightarrow> \<not> validToken (f ''csrf'') (ses_CSRF sess)"
      using assms(1) Some Inr by (auto simp: authenticated_def)
    have "(rp, s') = (case rq_form req of None \<Rightarrow> (reply BadForm, s2) | Some f \<Rightarrow> (reply (Redirect ''/admin/?ok=csrf''), s2))"
      using assms(2) Some q Inr p bad by (auto simp: admin_route_def admin_guard_def s2_def [symmetric] split: option.splits)
    then show ?thesis using t2 by (auto simp: reply_def split: option.splits)
  qed
qed

section \<open>Logging in\<close>

text \<open>The browser is given a session.\<close>

definition gives_session :: "webenv \<Rightarrow> reply \<Rightarrow> bool" where
  "gives_session env rp \<longleftrightarrow> (\<exists>c \<in> set (rp_cookies rp). ck_Name c = cookieName env ''sid'')"

definition session_open :: "webenv \<Rightarrow> string \<Rightarrow> string \<Rightarrow> time \<Rightarrow> 'b server \<Rightarrow> bool" where
  "session_open env token csrf now s \<longleftrightarrow>
     (\<exists>r. live_row s_hash s_expires (hashToken (e_sha256 env) token) (unixSec now) (sessions (store_of s)) = Some r \<and> s_csrf r = csrf)"

definition no_new_session :: "'b server \<Rightarrow> 'b server \<Rightarrow> bool" where
  "no_new_session s s' \<longleftrightarrow> set (sessions (store_of s')) \<subseteq> set (sessions (store_of s))"

lemma sessions_reads: "reads q \<Longrightarrow> sessions (snd (q d)) = sessions d \<and> admin (snd (q d)) = admin d"
  unfolding reads_def by (metis db.select_convs(5,6) db.surjective db.update_convs(8))

lemma DeleteSession_sessions: "set (sessions (snd (DeleteSession ht token d))) \<subseteq> set (sessions d)"
  unfolding DeleteSession_def by (rule exec_rule) auto

lemma CreateDevice_sessions: "sessions (snd (CreateDevice ht token now d)) = sessions d"
  unfolding CreateDevice_def by (rule exec_rule) (auto simp: Let_def)

lemma CreateSession_cases:
  "(\<exists>e. fst (CreateSession ht token csrf now d) = Inl e) \<and> sessions (snd (CreateSession ht token csrf now d)) = sessions d \<or>
   (\<exists>sess. fst (CreateSession ht token csrf now d) = Inr (token, sess)) \<and>
     live_row s_hash s_expires (ht token) (unixSec now) (sessions (snd (CreateSession ht token csrf now d))) =
       Some (mk_session (ht token) (unixSec now + SessionIdle) (csrf, unixSec now, unixSec now))"
  unfolding CreateSession_def
  by (rule exec_rule)
    (auto simp: Let_def truncTime_second addTime_def unixSec_add_seconds SessionIdle_def session_tokens.live_inserted)

lemma cookieName_eq [simp]: "cookieName env a = cookieName env b \<longleftrightarrow> a = b"
  by (simp add: cookieName_def)

lemma gives_session_simps [simp]:
  "\<not> gives_session env (reply v)" "gives_session env (rp\<lparr>rp_retryAfter := x\<rparr>) \<longleftrightarrow> gives_session env rp"
  by (simp_all add: gives_session_def reply_def)

lemma session_outcome:
  assumes "login_session env rn now known req s = (rp, s')"
  shows "gives_session env rp \<and> session_open env (rn_sid rn) (rn_csrf rn) now s' \<or> \<not> gives_session env rp \<and> no_new_session s s'"
proof -
  obtain r1 s1 where first: "(case rq_cookie req (cookieName env ''sid'') of
      Some old \<Rightarrow> on_db (DeleteSession (hashToken (e_sha256 env)) old) s | None \<Rightarrow> (Inr (), s)) = (r1, s1)" by fastforce
  have sub: "no_new_session s s1"
    using first by (auto simp: no_new_session_def on_db_eq dest: subsetD [OF DeleteSession_sessions] split: option.splits)
  show ?thesis
  proof (cases r1)
    case (Inl e)
    then show ?thesis using assms first sub by (auto simp: login_session_def)
  next
    case (Inr u)
    let ?c = "CreateSession (hashToken (e_sha256 env)) (rn_sid rn) (rn_csrf rn) now"
    define s2 where "s2 = with_store (snd (?c (store_of s1))) s1"
    show ?thesis
    proof (cases "\<exists>e. fst (?c (store_of s1)) = Inl e")
      case True
      then have "no_new_session s s2"
        using sub CreateSession_cases [of "hashToken (e_sha256 env)" "rn_sid rn" "rn_csrf rn" now "store_of s1"]
        by (auto simp: s2_def no_new_session_def)
      then show ?thesis using assms first Inr True by (auto simp: login_session_def on_db_eq s2_def)
    next
      case False
      then obtain sess where c: "fst (?c (store_of s1)) = Inr (rn_sid rn, sess)"
        and live: "session_open env (rn_sid rn) (rn_csrf rn) now s2"
        using CreateSession_cases [of "hashToken (e_sha256 env)" "rn_sid rn" "rn_csrf rn" now "store_of s1"]
        by (auto simp: s2_def session_open_def)
      have "session_open env (rn_sid rn) (rn_csrf rn) now s'" "gives_session env rp"
        using assms first Inr c live
        by (auto simp: login_session_def on_db_eq s2_def [symmetric] session_open_def CreateDevice_sessions
            gives_session_def mk_cookie_def Let_def split: if_splits sum.splits)
      then show ?thesis by blast
    qed
  qed
qed

text \<open>The limiter lets the attempt through, and name and password are those of the account.\<close>

definition credentials :: "webenv \<Rightarrow> (string \<Rightarrow> string) \<Rightarrow> db \<Rightarrow> bool" where
  "credentials env f d \<longleftrightarrow>
     (\<exists>a. admin d = Some a \<and> e_sha256 env (f ''username'') = e_sha256 env (a_username a) \<and>
        Verify (e_argon env) (f ''password'') (a_pw_hash a) = Some True)"

lemma checkLogin_true:
  assumes "checkLogin env u p s = (r, s1)"
  shows "sessions (store_of s1) = sessions (store_of s) \<and>
    (r = Inr True \<longrightarrow> (\<exists>a. admin (store_of s) = Some a \<and> e_sha256 env u = e_sha256 env (a_username a) \<and>
       Verify (e_argon env) p (a_pw_hash a) = Some True))"
proof -
  have "\<forall>x. fst (StoreAdmin d) = Inr x \<longrightarrow> (\<exists>a. admin d = Some a \<and> x = (a_username a, a_pw_hash a))" for d
    unfolding StoreAdmin_def by (rule exec_rule) (auto split: option.splits)
  then show ?thesis
    using assms sessions_reads [of StoreAdmin "store_of s"]
    by (fastforce simp: checkLogin_def on_db_eq split: sum.splits option.splits prod.splits if_splits)
qed

lemma attempt_outcome:
  assumes "login_attempt env rn now known csrf f req s = (rp, s')"
  shows "gives_session env rp \<and> session_open env (rn_sid rn) (rn_csrf rn) now s' \<and> credentials env f (store_of s) \<and>
      \<not> 0 < fst (fst (limiter_take (clientIP (e_proxy env) (rq_remote req) (rq_xff req)) now known (sv_limit s))) \<or>
    \<not> gives_session env rp \<and> no_new_session s s'"
proof -
  obtain wait first l where lim:
    "limiter_take (clientIP (e_proxy env) (rq_remote req) (rq_xff req)) now known (sv_limit s) = ((wait, first), l)"
    by (metis surj_pair)
  have refl: "no_new_session s (s\<lparr>sv_limit := l\<rparr>)" by (simp add: no_new_session_def)
  obtain r s2 where chk: "checkLogin env (f ''username'') (f ''password'') (s\<lparr>sv_limit := l\<rparr>) = (r, s2)" by fastforce
  note c = checkLogin_true [OF chk]
  show ?thesis
  proof (cases "0 < wait \<or> rq_gone req \<or> r \<noteq> Inr True")
    case True
    then show ?thesis
      using assms lim chk refl c
      by (auto simp: login_attempt_def Let_def no_new_session_def split: if_splits sum.splits)
  next
    case False
    let ?s3 = "s2\<lparr>sv_limit := forgive (clientIP (e_proxy env) (rq_remote req) (rq_xff req)) (sv_limit s2)\<rparr>"
    have "login_session env rn now known req ?s3 = (rp, s')"
      using assms lim chk False by (simp add: login_attempt_def)
    then have "gives_session env rp \<and> session_open env (rn_sid rn) (rn_csrf rn) now s' \<or> \<not> gives_session env rp \<and> no_new_session ?s3 s'"
      by (rule session_outcome)
    moreover have "credentials env f (store_of s)" using c False by (auto simp: credentials_def)
    ultimately show ?thesis using lim c False by (auto simp: no_new_session_def)
  qed
qed


section \<open>Saving a target\<close>

text \<open>The target with the given number is stored with the columns of \<open>t\<close>, and the monitor runs it with
  them unless it is paused or the service is shutting down; no other runner is touched and the cached
  pages are dropped.\<close>

definition saved :: "int \<Rightarrow> Target \<Rightarrow> 'b server \<Rightarrow> 'b server \<Rightarrow> bool" where
  "saved i t s s' \<longleftrightarrow>
     (\<exists>r created updated. r = mk_target i (t, created, updated) \<and> find_row ID i (targets (store_of s')) = Some r \<and>
        (\<forall>j. j \<noteq> i \<longrightarrow> find_row ID j (targets (store_of s')) = find_row ID j (targets (store_of s))) \<and>
        m_runners (sv_mon s') = (m_runners (sv_mon s))
          (i := if Paused t \<or> m_done (sv_mon s) then None else Some (fresh_runner (scanTarget r))) \<and>
        sv_cache s' = Map.empty)"

lemma healthy_keeps: "healthy d \<Longrightarrow> healthy (snd (CreateTarget now t d)) \<and> healthy (snd (UpdateTarget now t d))"
  by (simp add: CreateTarget_def UpdateTarget_def Let_def healthy_def exec_def)

lemma Reload_targets: "healthy (m_store m) \<Longrightarrow> targets (m_store (snd (Reload now i m))) = targets (m_store m)"
  by (auto simp: Reload_def on_store_def StoreTarget_healthy start_def ClosePausedIncident_def Let_def split: option.splits)

text \<open>What remains to be done once the row is stored.\<close>

lemma saved_reload:
  assumes h: "healthy d" "db_ok d"
    and row: "find_row ID i (targets d) = Some (mk_target i (t, created, updated))"
    and others: "\<And>j. j \<noteq> i \<Longrightarrow> find_row ID j (targets d) = find_row ID j (targets (store_of s))"
  shows "saved i t s (clearCache (reload now i (with_store d s)))"
proof -
  let ?m = "(sv_mon s)\<lparr>m_store := d\<rparr>" and ?r = "mk_target i (t, created, updated)"
  have "m_runners (snd (Reload now i ?m)) = (m_runners (sv_mon s))
      (i := if Paused t \<or> m_done (sv_mon s) then None else Some (fresh_runner (scanTarget ?r)))"
    using Reload_healthy [of ?m now i] h row by (simp add: mk_target_def)
  moreover have "targets (m_store (snd (Reload now i ?m))) = targets d" using Reload_targets [of ?m now i] h by simp
  ultimately show ?thesis
    using row others unfolding saved_def
    by (intro exI [of _ ?r] exI [of _ created] exI [of _ updated])
      (simp add: clearCache_def reload_def with_store_def store_of_def)
qed

lemma CreateTarget_valid:
  assumes "healthy d" and "Validate p t = Map.empty"
  shows "fst (CreateTarget now t d) = Inr (next_rowid (map ID (targets d)))"
    and "targets (snd (CreateTarget now t d)) = targets d @ [mk_target (next_rowid (map ID (targets d))) (t, unixSec now, unixSec now)]"
  using assms target_checks_mk_target by (auto simp: CreateTarget_def Let_def Validate_empty target_checks_def)

lemma UpdateTarget_valid:
  assumes "healthy d" and "Validate p t = Map.empty" and "target_exists (ID t) d"
  shows "fst (UpdateTarget now t d) = Inr ()"
    and "targets (snd (UpdateTarget now t d)) =
      update_where (\<lambda>r. ID r = ID t) (\<lambda>r. mk_target (ID r) (t, t_created r, unixSec now)) (targets d)"
proof -
  have "target_checks t" using assms(2) by (auto simp: Validate_empty target_checks_def)
  moreover have "count_where (\<lambda>r. ID r = ID t) (targets d) \<noteq> 0"
    using assms(3) by (force simp: count_where_zero target_exists_def)
  ultimately show "fst (UpdateTarget now t d) = Inr ()" "targets (snd (UpdateTarget now t d)) =
      update_where (\<lambda>r. ID r = ID t) (\<lambda>r. mk_target (ID r) (t, t_created r, unixSec now)) (targets d)"
    using assms(1) by (simp_all add: UpdateTarget_def Let_def affected_def)
qed

lemma badNumbers_empty: "badNumbers f errs = Map.empty \<Longrightarrow> errs = Map.empty"
  by (simp add: badNumbers_def)

lemma submitted_ID [simp]: "ID (submitted f t) = ID t"
  by (simp add: submitted_def)

lemma save_target_effect:
  assumes h: "healthy (store_of s)" "db_ok (store_of s)" and t0: "ID t0 = 0 \<or> target_exists (ID t0) (store_of s)"
    and run: "save_target env now f t0 csrf s = (rp, s')"
  shows "(\<exists>i. rp = reply (Redirect ''/admin/?ok=gespeichert'') \<and> (ID t0 \<noteq> 0 \<longrightarrow> i = ID t0) \<and>
       Validate (e_parseURL env) (submitted f t0) = Map.empty \<and> saved i (submitted f t0) s s') \<or>
    (\<exists>errs. errs \<noteq> Map.empty \<and> rp = reply (FormView 422 (submitted f t0) errs csrf) \<and> s' = s)"
proof (cases "badNumbers f (Validate (e_parseURL env) (submitted f t0)) = Map.empty")
  case False
  then show ?thesis using run by (auto simp: save_target_def Let_def)
next
  case True
  let ?t = "submitted f t0" and ?d = "store_of s"
  have v: "Validate (e_parseURL env) ?t = Map.empty" using True by (rule badNumbers_empty)
  show ?thesis
  proof (cases "ID t0 = 0")
    case new: True
    let ?i = "next_rowid (map ID (targets ?d))"
    note c = CreateTarget_valid [OF h(1) v, where now = now]
    have "saved ?i ?t s (clearCache (reload now ?i (with_store (snd (CreateTarget now ?t ?d)) s)))"
      by (rule saved_reload [where created = "unixSec now" and updated = "unixSec now"])
        (use h healthy_keeps [OF h(1), of now ?t] CreateTarget_keeps [OF h(2), of now ?t] in \<open>simp_all add: c(2) target_rows.find_insert\<close>)
    then show ?thesis using run True v new c(1) by (auto simp: save_target_def on_db_eq)
  next
    case False
    then have ex: "target_exists (ID ?t) ?d" using t0 by simp
    then obtain r where r: "find_row ID (ID t0) (targets ?d) = Some r" "ID r = ID t0"
      using find_row_None [of ID "ID t0" "targets ?d"] by (auto simp: target_exists_def find_row_def dest: find_Some_mem)
    note c = UpdateTarget_valid [OF h(1) v ex, where now = now]
    have "saved (ID t0) ?t s (clearCache (reload now (ID t0) (with_store (snd (UpdateTarget now ?t ?d)) s)))"
    proof (rule saved_reload [where created = "t_created r" and updated = "unixSec now"])
      have key: "ID (mk_target (ID r) c) = ID r" for r :: target_row and c :: "Target \<times> int \<times> int"
        by (rule target_rows.key_mk)
      show "find_row ID (ID t0) (targets (snd (UpdateTarget now ?t ?d))) = Some (mk_target (ID t0) (?t, t_created r, unixSec now))"
        using r unfolding c(2) by (subst target_rows.find_update) (simp_all add: key)
      show "find_row ID j (targets (snd (UpdateTarget now ?t ?d))) = find_row ID j (targets ?d)" if "j \<noteq> ID t0" for j
      proof -
        have "ID x = j" if "find_row ID j (targets ?d) = Some x" for x using that by (auto simp: find_row_def dest: find_Some_mem)
        then show ?thesis
          using \<open>j \<noteq> ID t0\<close> unfolding c(2)
          by (subst target_rows.find_update)
            (auto simp: key split: option.splits, cases "find_row ID j (targets ?d)", auto)
      qed
    qed (use h healthy_keeps [OF h(1), of now ?t] UpdateTarget_keeps [OF h(2), of now ?t] in simp_all)
    then show ?thesis using run True v False c(1) by (auto simp: save_target_def on_db_eq)
  qed
qed

lemma path_target_healthy:
  assumes "healthy (store_of s)"
  shows "path_target req s =
    ((case pathID (rq_id req) of
        None \<Rightarrow> Inl NotFoundPage
      | Some i \<Rightarrow> (case find_row ID i (targets (store_of s)) of None \<Rightarrow> Inl NotFoundPage | Some r \<Rightarrow> Inr (scanTarget r))), s)"
  using assms by (auto simp: path_target_def on_db_eq StoreTarget_healthy split: option.splits)

text \<open>C20: With a working driver, saving a target's form either stores exactly the validated values, under
  the number in the path or a new one, has the monitor run the target with them (or not at all when it
  is paused) and drops the cached pages; or it changes nothing and answers with the form and its
  errors, or with the page for an unknown target.\<close>

theorem save_effect:
  assumes "healthy (store_of s)" and "db_ok (store_of s)" and "rq_form req = Some f"
    and "save env now req csrf s = (rp, s')"
  shows "(\<exists>i t0. rp = reply (Redirect ''/admin/?ok=gespeichert'') \<and>
       Validate (e_parseURL env) (submitted f t0) = Map.empty \<and> saved i (submitted f t0) s s' \<and>
       (if rq_id req = [] then t0 = newTarget
        else pathID (rq_id req) = Some i \<and> (\<exists>r. find_row ID i (targets (store_of s)) = Some r \<and> t0 = scanTarget r))) \<or>
    s' = s \<and> (rp = reply NotFoundPage \<or> (\<exists>t errs. errs \<noteq> Map.empty \<and> rp = reply (FormView 422 t errs csrf)))"
proof (cases "rq_id req = []")
  case True
  then have "save_target env now f newTarget csrf s = (rp, s')" using assms(3,4) by (simp add: save_def)
  moreover have "ID newTarget = 0" by (simp add: newTarget_def)
  ultimately show ?thesis using save_target_effect [OF assms(1,2), of newTarget env now f csrf rp s'] True by auto
next
  case id: False
  show ?thesis
  proof (cases "\<exists>i r. pathID (rq_id req) = Some i \<and> find_row ID i (targets (store_of s)) = Some r")
    case False
    then show ?thesis
      using assms id by (auto simp: save_def path_target_healthy Let_def split: option.splits)
  next
    case True
    then obtain i r where ir: "pathID (rq_id req) = Some i" "find_row ID i (targets (store_of s)) = Some r" by blast
    have r: "r \<in> set (targets (store_of s))" "ID r = i" using ir(2) by (auto simp: find_row_def dest!: find_Some_mem)
    have "0 < i" using ir(1) by (auto simp: pathID_def split: option.splits if_splits)
    then have "ID (scanTarget r) = i" "i \<noteq> 0" "target_exists i (store_of s)" using r by (auto simp: scanTarget_def target_exists_def)
    moreover have "save_target env now f (scanTarget r) csrf s = (rp, s')"
      using assms id ir by (simp add: save_def path_target_healthy)
    ultimately show ?thesis
      using save_target_effect [OF assms(1,2), of "scanTarget r" env now f csrf rp s'] ir id by auto
  qed
qed

section \<open>A concrete server\<close>

definition demo_lib :: mail_lib where
  "demo_lib = \<lparr>parseAddress = (\<lambda>s. Some \<lparr>a_Text = s, a_Address = s\<rparr>), addressText = id, qEncode = id, rfcDate = (\<lambda>_. []),
     clockText = (\<lambda>_. []), quotedPrintable = Some\<rparr>"

definition demo_env :: webenv where
  "demo_env = \<lparr>e_sha256 = id, e_argon = toy_argon, e_lib = demo_lib, e_parseURL = (\<lambda>_. None),
     e_proxy = None, e_CookieSecure = False, e_mailer = True\<rparr>"

definition demo_random :: random where
  "demo_random = \<lparr>rn_lcsrf = ''L'', rn_sid = ''S'', rn_csrf = ''C'', rn_dev = ''D'', rn_bytes = (\<lambda>n. replicate n (CHR ''r'')), rn_mail = ''M''\<rparr>"

definition demo_request :: request where
  "demo_request = \<lparr>rq_post = True,
     rq_form = Some ((\<lambda>_. [])(''username'' := ''root'', ''password'' := ''geheim'', ''csrf'' := mask ''r'' ''x'')),
     rq_cookie = [''lcsrf'' \<mapsto> ''x''], rq_remote = ''h'', rq_xff = [], rq_id = [], rq_ok = [], rq_gone = False\<rparr>"

definition demo_server :: "unit server" where
  "demo_server = \<lparr>sv_mon = New (empty_db\<lparr>admin := Some \<lparr>a_username = ''root'',
       a_pw_hash = Hash toy_argon (replicate 16 (CHR ''s'')) ''geheim'', a_updated = 0\<rparr>\<rparr>) sample_mailer,
     sv_limit = newLimiter, sv_cache = Map.empty\<rparr>"

lemma demo_login: "gives_session demo_env (fst (login demo_env demo_random 0 demo_request demo_server))"
proof -
  have len: "\<And>pw salt t m p n. length (IDKey toy_argon pw salt t m p n) = n" by (simp add: toy_argon_def)
  have v: "Verify toy_argon ''geheim'' (Hash toy_argon (replicate 16 (CHR ''s'')) ''geheim'') = Some True"
    by (subst Verify_Hash [OF len]) (simp_all add: saltLen_def)
  have m: "validToken (mask ''r'' ''x'') ''x''" by (simp add: validToken_mask)
  have l: "fst (fst (limiter_take ''h'' 0 False newLimiter)) = 0" by code_simp
  have ip: "clientIP None ''h'' [] = ''h''" by code_simp
  obtain b lm where l2: "limiter_take ''h'' 0 False newLimiter = ((0, b), lm)"
    using l by (metis prod.collapse)
  show ?thesis
    using v m l2 ip
    by (simp add: login_def demo_request_def cookieName_def login_attempt_def demo_server_def demo_env_def checkLogin_def on_db_def on_store_def
        New_def StoreAdmin_def exec_def empty_db_def login_session_def CreateSession_def CreateDevice_def Let_def
        demo_random_def gives_session_def reply_def mk_cookie_def)
qed


text \<open>A form with every value the validation asks for.\<close>

definition tcp_form :: "string \<Rightarrow> string" where
  "tcp_form = (\<lambda>_. [])(''name'' := Name tcp_target, ''kind'' := Kind tcp_target, ''address'' := Address tcp_target, ''interval_s'' := ''60'',
     ''timeout_ms'' := ''5000'', ''fail_threshold'' := ''3'', ''public'' := ''1'')"

lemma tcp_form_numbers: "badNumbers tcp_form Map.empty = Map.empty" "formInt tcp_form ''interval_s'' n = 60"
  "formInt tcp_form ''timeout_ms'' n = 5000" "formInt tcp_form ''fail_threshold'' n = 3"
proof -
  have a: "Atoi (TrimSpace (tcp_form ''interval_s'')) = Some 60" "Atoi (TrimSpace (tcp_form ''timeout_ms'')) = Some 5000"
    "Atoi (TrimSpace (tcp_form ''fail_threshold'')) = Some 3" by code_simp+
  show "badNumbers tcp_form Map.empty = Map.empty" by (simp add: badNumbers_def noteIf_def a)
  show "formInt tcp_form ''interval_s'' n = 60" "formInt tcp_form ''timeout_ms'' n = 5000" "formInt tcp_form ''fail_threshold'' n = 3"
    by (simp_all add: formInt_def a)
qed

lemma tcp_form_valid: "Validate (e_parseURL demo_env) (submitted tcp_form newTarget) = Map.empty"
proof -
  have t: "TrimSpace ''web'' = ''web''" "TrimSpace ''h:80'' = ''h:80''" "TrimSpace [] = []" by code_simp+
  have "submitted tcp_form newTarget = tcp_target\<lparr>ExpectStatus := [], CreatedAt := zeroTime, UpdatedAt := zeroTime\<rparr>"
    by (simp add: submitted_def tcp_form_numbers) (simp add: tcp_form_def tcp_target_def newTarget_def t)
  moreover have "Kind tcp_target \<noteq> KindHTTP" by (simp add: tcp_target_def kind_defs)
  ultimately show ?thesis using tcp_target_valid by (simp add: Validate_empty demo_env_def runeCount_def containsFunc_def)
qed

theorem save_effect_witness:
  "\<exists>i. saved i (submitted tcp_form newTarget) demo_server (snd (save demo_env 0 (demo_request\<lparr>rq_form := Some tcp_form\<rparr>) ''c'' demo_server))"
proof -
  let ?req = "demo_request\<lparr>rq_form := Some tcp_form\<rparr>"
  have h: "healthy (store_of demo_server)" "db_ok (store_of demo_server)"
    by (simp_all add: store_of_def demo_server_def New_def healthy_def empty_db_def db_ok_def targets_ok_def checks_ok_def
        hourly_ok_def incidents_ok_def one_open_def tokens_db_ok_def tokens_ok_def)
  have new: "rq_id ?req = []" "rq_form ?req = Some tcp_form" by (simp_all add: demo_request_def)
  have "fst (CreateTarget 0 (submitted tcp_form newTarget) (store_of demo_server)) = Inr 1"
    using validated_created [OF tcp_form_valid h(1)] by (simp add: store_of_def demo_server_def New_def empty_db_def next_rowid_def)
  moreover have "ID (submitted tcp_form newTarget) = 0" by (simp add: submitted_def newTarget_def)
  ultimately have "fst (save demo_env 0 ?req ''c'' demo_server) = reply (Redirect ''/admin/?ok=gespeichert'')"
    using new by (simp add: save_def save_target_def Let_def tcp_form_valid tcp_form_numbers(1) on_db_eq)
  then show ?thesis
    using save_effect [OF h new(2) prod.collapse [symmetric], of demo_env 0 "''c''"] new(1) by (auto simp: reply_def)
qed

end
