(* ===== verification/Command.thy ===== *)
theory Command
  imports Config Migrate Dialer Web_Admin_Props
begin

text \<open>
  The command line, \<^verbatim>\<open>cmd/dmn-status/main.go\<close>: the commands on a database file and how \<^verbatim>\<open>serve\<close> puts the
  parts together. The environment variables, standard input, the clock, random salts, name
  resolution and the HTTP client of the health check are the argument \<open>w\<close>; log
  lines are left out.
\<close>

section \<open>The outside of a command\<close>

datatype srv_err = ErrServerClosed | ErrListen

datatype cmd_err =
    ConfigErr errors
  | StoreErr store_err
  | TextErr string
  | ReadErr
  | AddrErr
  | HTTPErr
  | StatusErr int
  | ServeErr srv_err

text \<open>What ends the server: its listener returns an error, or a signal arrives.\<close>

datatype ending = Listener srv_err | Signalled

record world =
  w_get :: "string \<Rightarrow> string"
  w_lib :: config_lib
  w_argon :: argon2
  w_salt :: string
  w_now :: time
  w_clock :: "string \<Rightarrow> time"
  w_stdin :: "string \<times> bool"
  w_lookupIP :: "string \<Rightarrow> addr list option"
  w_http :: "string \<Rightarrow> int option"
  w_occupied :: "string \<Rightarrow> bool"
  w_wire :: "bool list"

definition on_file :: "(db \<Rightarrow> 'a result \<times> db) \<Rightarrow> dbfile \<Rightarrow> 'a result \<times> dbfile" where
  "on_file q f = (case q (f_db f) of (r, d) \<Rightarrow> (r, f\<lparr>f_db := d\<rparr>))"

section \<open>Accounts\<close>

definition bootstrap :: "argon2 \<Rightarrow> string \<Rightarrow> time \<Rightarrow> string \<Rightarrow> string \<Rightarrow> db \<Rightarrow> unit result \<times> db" where
  "bootstrap argon salt now user password d =
     (case StoreAdmin d of
        (Inl e, d1) \<Rightarrow>
          if e = ErrNotFound \<and> user = [] then (Inr (), d1)
          else if e = ErrNotFound then SetAdmin now user (Hash argon salt password) d1
          else (Inl e, d1)
      | (Inr _, d1) \<Rightarrow> (Inr (), d1))"

definition badName :: "string \<Rightarrow> bool" where
  "badName name \<longleftrightarrow> name = [] \<or> 60 < runeCount name \<or> containsFunc name isSpace \<or> containsFunc name isControl"

text \<open>\<^verbatim>\<open>ReadString('\n')\<close> on the bytes of standard input, after which reading may fail; the line without its end.\<close>

definition newline :: char where "newline = CHR 0x0A"

definition ReadLine :: "string \<times> bool \<Rightarrow> string option" where
  "ReadLine inp =
     (case inp of (s, broken) \<Rightarrow>
        if newline \<in> set s then Some (takeWhile (\<lambda>c. c \<noteq> newline) s @ [newline])
        else if broken then None else Some s)"

definition lineText :: "string \<Rightarrow> string" where
  "lineText line = trimSuffix (trimSuffix line [newline]) [CHR 0x0D]"

definition setPassword :: "argon2 \<Rightarrow> string \<Rightarrow> time \<Rightarrow> string \<Rightarrow> string \<times> bool \<Rightarrow> db \<Rightarrow> (cmd_err + unit) \<times> db" where
  "setPassword argon salt now name inp d =
     (if badName name then (Inl (TextErr ''name: bis 60 zeichen, keine leerzeichen''), d)
      else (case ReadLine inp of
              None \<Rightarrow> (Inl ReadErr, d)
            | Some line \<Rightarrow>
                let password = lineText line in
                if runeCount password < 12 then (Inl (TextErr ''passwort: mindestens 12 zeichen''), d)
                else (case SetAdmin now name (Hash argon salt password) d of
                        (Inl e, d1) \<Rightarrow> (Inl (StoreErr e), d1) | (Inr _, d1) \<Rightarrow> (Inr (), d1))))"

section \<open>Commands on the store\<close>

definition withStore :: "world \<Rightarrow> (dbfile \<Rightarrow> (cmd_err + 'a) \<times> dbfile) \<Rightarrow> dbfile \<Rightarrow> (cmd_err + 'a) \<times> dbfile" where
  "withStore w fn f =
     (case load (w_lib w) (w_get w) of (cfg, errs) \<Rightarrow>
        if errs \<noteq> [] then (Inl (ConfigErr errs), f)
        else (case Open (w_clock w) (cf_DBPath cfg) f of
                (Inl e, f1) \<Rightarrow> (Inl (StoreErr e), f1)
              | (Inr _, f1) \<Rightarrow>
                  (case fn f1 of (r, f2) \<Rightarrow>
                     (case CloseStore f2 of (c, f3) \<Rightarrow>
                        (case (r, c) of
                           (Inl e, _) \<Rightarrow> (Inl e, f3)
                         | (Inr x, Inl e) \<Rightarrow> (Inl (StoreErr e), f3)
                         | (Inr x, Inr _) \<Rightarrow> (Inr x, f3))))))"

section \<open>Starting the service\<close>

definition selfAddrs :: "world \<Rightarrow> string \<Rightarrow> addr list" where
  "selfAddrs w baseURL =
     (if baseURL = [] then []
      else (case cl_parseURL (w_lib w) baseURL of
              None \<Rightarrow> []
            | Some u \<Rightarrow>
                (case w_lookupIP w (u_Hostname u) of
                   None \<Rightarrow> []
                 | Some found \<Rightarrow>
                     filter (\<lambda>ip. \<not> isPrivate ip \<and> \<not> isLoopback ip \<and> \<not> prefix_contains cgnat ip)
                       (map (\<lambda>ip. unmap (withoutZone ip)) found))))"

definition mkMailer :: "bool list \<Rightarrow> Config \<Rightarrow> Mailer" where
  "mkMailer wr cfg =
     \<lparr>Host = cf_SMTPHost cfg, Port = cf_SMTPPort cfg, User = cf_SMTPUser cfg, Pass = cf_SMTPPass cfg, From = cf_MailFrom cfg,
      To = cf_MailTo cfg, BaseURL = cf_BaseURL cfg, sent = [], sentTest = [], wire = wr\<rparr>"

definition newServer :: "Mailer Manager \<Rightarrow> 'b server" where
  "newServer mgr = \<lparr>sv_mon = mgr, sv_limit = newLimiter, sv_cache = Map.empty\<rparr>"

record started =
  st_config :: Config
  st_mailer :: bool
  st_checker :: Checker
  st_server :: "string server"

text \<open>\<^verbatim>\<open>serve\<close> up to the listener. Without mail settings there is no mailer, and no mail is ever sent.\<close>

definition serveStart :: "world \<Rightarrow> dbfile \<Rightarrow> (cmd_err + started) \<times> dbfile" where
  "serveStart w f =
     (case load (w_lib w) (w_get w) of (cfg, errs) \<Rightarrow>
        if errs \<noteq> [] then (Inl (ConfigErr errs), f)
        else (case Open (w_clock w) (cf_DBPath cfg) f of
                (Inl e, f1) \<Rightarrow> (Inl (StoreErr e), f1)
              | (Inr _, f1) \<Rightarrow>
                  (case on_file (bootstrap (w_argon w) (w_salt w) (w_now w) (cf_AdminUser cfg) (cf_AdminPassword cfg)) f1 of
                     (Inl e, f2) \<Rightarrow> (Inl (StoreErr e), f2)
                   | (Inr _, f2) \<Rightarrow>
                       (case Start (New (f_db f2) (mkMailer (w_wire w) cfg)) of
                          (Inl e, m) \<Rightarrow> (Inl (StoreErr e), f2\<lparr>f_db := m_store m\<rparr>)
                        | (Inr _, m) \<Rightarrow>
                            (Inr \<lparr>st_config = cfg, st_mailer = MailEnabled cfg,
                                  st_checker = \<lparr>PrivateAllow = cf_PrivateAllow cfg, Block = selfAddrs w (cf_BaseURL cfg), loopback = False\<rparr>,
                                  st_server = newServer m\<rparr>, f2\<lparr>f_db := m_store m\<rparr>)))))"

text \<open>The end of \<^verbatim>\<open>serve\<close>: a closed server and a signal are no errors.\<close>

definition serveEnd :: "ending \<Rightarrow> cmd_err + unit" where
  "serveEnd en = (case en of Listener ErrListen \<Rightarrow> Inl (ServeErr ErrListen) | _ \<Rightarrow> Inr ())"

section \<open>The health check\<close>

definition probe :: "(string \<Rightarrow> int option) \<Rightarrow> string \<Rightarrow> cmd_err + unit" where
  "probe http url =
     (case http url of None \<Rightarrow> Inl HTTPErr | Some code \<Rightarrow> if code \<noteq> 200 then Inl (StatusErr code) else Inr ())"

definition healthcheck :: "world \<Rightarrow> cmd_err + unit" where
  "healthcheck w =
     (case load (w_lib w) (w_get w) of (cfg, errs) \<Rightarrow>
        if errs \<noteq> [] then Inl (ConfigErr errs)
        else (case SplitHostPort (cf_Addr cfg) of
                None \<Rightarrow> Inl AddrErr
              | Some (_, port) \<Rightarrow> probe (w_http w) (''http://'' @ JoinHostPort ''127.0.0.1'' port @ ''/healthz'')))"

section \<open>The commands\<close>

datatype outcome = Usage | ShowVersion | Ran | Broke cmd_err

definition exitCode :: "outcome \<Rightarrow> int" where
  "exitCode o1 = (case o1 of Usage \<Rightarrow> 2 | Broke _ \<Rightarrow> 1 | _ \<Rightarrow> 0)"

definition outcomeOf :: "cmd_err + 'a \<Rightarrow> outcome" where
  "outcomeOf r = (case r of Inl e \<Rightarrow> Broke e | Inr _ \<Rightarrow> Ran)"

text \<open>The arguments behind the program's name. A backup is the file it wrote; \<open>service\<close> is what the running
  service does to the file until it ends (the steps of \<open>mstep\<close>).\<close>

definition backup_cmd :: "world \<Rightarrow> string \<Rightarrow> dbfile \<Rightarrow> (cmd_err + dbfile) \<times> dbfile" where
  "backup_cmd w file = withStore w (\<lambda>f. case Backup (w_occupied w file) f of
     (Inl e, f1) \<Rightarrow> (Inl (StoreErr e), f1) | (Inr copy, f1) \<Rightarrow> (Inr copy, f1))"

definition password_cmd :: "world \<Rightarrow> string \<Rightarrow> dbfile \<Rightarrow> (cmd_err + unit) \<times> dbfile" where
  "password_cmd w name = withStore w (\<lambda>f.
     case setPassword (w_argon w) (w_salt w) (w_now w) name (w_stdin w) (f_db f) of (r, d) \<Rightarrow> (r, f\<lparr>f_db := d\<rparr>))"

definition run_main :: "world \<Rightarrow> (started \<Rightarrow> dbfile \<Rightarrow> ending \<times> dbfile) \<Rightarrow> string list \<Rightarrow> dbfile \<Rightarrow> outcome \<times> dbfile" where
  "run_main w service argv f =
     (case argv of
        [] \<Rightarrow> (Usage, f)
      | cmd # args \<Rightarrow>
          if cmd = ''serve''
          then (case serveStart w f of (Inl e, f1) \<Rightarrow> (Broke e, f1) |
                (Inr st, f1) \<Rightarrow> (case service st f1 of (en, f2) \<Rightarrow> (outcomeOf (serveEnd en), f2)))
          else if cmd = ''admin''
          then if length args \<noteq> 2 \<or> args ! 0 \<noteq> ''set-password'' then (Usage, f)
               else (case password_cmd w (args ! 1) f of (r, f1) \<Rightarrow> (outcomeOf r, f1))
          else if cmd = ''healthcheck'' then (outcomeOf (healthcheck w), f)
          else if cmd = ''backup''
          then if length args \<noteq> 1 then (Usage, f) else (case backup_cmd w (args ! 0) f of (r, f1) \<Rightarrow> (outcomeOf r, f1))
          else if cmd = ''version'' then (ShowVersion, f)
          else (Usage, f))"

section \<open>Accounts\<close>

lemma healthy_exec: "healthy d \<Longrightarrow> exec q d = q d"
  by (simp add: healthy_def exec_def)

lemma checkLogin_stored:
  assumes "healthy (m_store (sv_mon s))" and "admin (m_store (sv_mon s)) = Some a"
  shows "fst (checkLogin env user pw s) =
     Inr (case Verify (e_argon env) pw (a_pw_hash a) of None \<Rightarrow> False | Some ok \<Rightarrow> e_sha256 env user = e_sha256 env (a_username a) \<and> ok)"
  using assms by (simp add: checkLogin_def on_db_def on_store_def StoreAdmin_def healthy_exec split: option.split)

lemma setPassword_cases:
  obtains (refused) e where "setPassword argon salt now name inp d = (Inl e, d)"
  | (fault) e fs where "setPassword argon salt now name inp d = (Inl (StoreErr e), d\<lparr>faults := fs\<rparr>)"
  | (stored) line fs where "ReadLine inp = Some line" "12 \<le> runeCount (lineText line)" "\<not> badName name"
      "setPassword argon salt now name inp d =
         (Inr (), d\<lparr>admin := Some \<lparr>a_username = name, a_pw_hash = Hash argon salt (lineText line), a_updated = unixSec now\<rparr>,
            sessions := [], devices := [], faults := fs\<rparr>)"
proof (cases "badName name \<or> ReadLine inp = None \<or> runeCount (lineText (the (ReadLine inp))) < 12")
  case True
  then have "\<exists>e. setPassword argon salt now name inp d = (Inl e, d)"
    by (cases "ReadLine inp") (auto simp: setPassword_def)
  then show ?thesis using refused by blast
next
  case False
  then obtain line where line: "ReadLine inp = Some line" "12 \<le> runeCount (lineText line)" "\<not> badName name" by auto
  show ?thesis
  proof (cases rule: SetAdmin_cases [of now name "Hash argon salt (lineText line)" d])
    case (fault e fs)
    then show ?thesis using line that(2) [of e fs] by (simp add: setPassword_def)
  next
    case (reset fs)
    then show ?thesis using line stored [of line fs] by (simp add: setPassword_def)
  qed
qed

text \<open>C33: Setting a password either changes no table, or the input had a line of at least twelve characters and the
  name is acceptable. Then every session and every remembered device is gone, nothing else changed, and a
  login succeeds with exactly that name and that password, as far as the hashes tell them apart.\<close>

theorem set_password_login:
  assumes law: "\<And>pw salt t m p n. length (IDKey argon pw salt t m p n) = n" and salt: "length salt = saltLen"
    and set: "setPassword argon salt now name inp d = (r, d')"
  shows "(isl r \<longrightarrow> d' = d\<lparr>faults := faults d'\<rparr>) \<and>
    (\<not> isl r \<longrightarrow> (\<exists>line. ReadLine inp = Some line \<and> 12 \<le> runeCount (lineText line) \<and> \<not> badName name \<and>
       d' = d\<lparr>admin := admin d', sessions := [], devices := [], faults := faults d'\<rparr> \<and>
       (\<forall>env s user pw. e_argon env = argon \<and> m_store (sv_mon s) = d' \<and> healthy d' \<longrightarrow>
          fst (checkLogin env user pw (s :: 'b server)) =
            Inr (e_sha256 env user = e_sha256 env name \<and>
                 IDKey argon pw salt passes memKiB threads keyLen = IDKey argon (lineText line) salt passes memKiB threads keyLen))))"
proof (cases rule: setPassword_cases [of argon salt now name inp d])
  case (refused e)
  then show ?thesis using set by simp
next
  case (fault e fs)
  then show ?thesis using set by auto
next
  case (stored line fs)
  then have d': "d' = d\<lparr>admin := Some \<lparr>a_username = name, a_pw_hash = Hash argon salt (lineText line), a_updated = unixSec now\<rparr>,
      sessions := [], devices := [], faults := fs\<rparr>" and r: "r = Inr ()" using set by auto
  have "fst (checkLogin env user pw s) =
      Inr (e_sha256 env user = e_sha256 env name \<and>
           IDKey argon pw salt passes memKiB threads keyLen = IDKey argon (lineText line) salt passes memKiB threads keyLen)"
    if "e_argon env = argon" "m_store (sv_mon s) = d'" "healthy d'" for env user pw and s :: "'b server"
    using checkLogin_stored [of s _ env user pw] that d' Verify_Hash [OF law salt] by simp
  then show ?thesis using stored r d' by auto
qed

lemma runeCount_ascii: "ascii s \<Longrightarrow> runeCount s = length s"
  by (simp add: runeCount_def runes_ascii)

theorem set_password_login_witness:
  "let d' = snd (setPassword toy_argon (replicate 16 (CHR ''s'')) 0 ''admin'' (''geheim-geheim'' @ [newline], False) empty_db)
   in \<forall>env s. e_argon env = toy_argon \<and> m_store (sv_mon s) = d' \<longrightarrow> fst (checkLogin env ''admin'' ''geheim-geheim'' (s :: string server)) = Inr True"
proof -
  let ?inp = "(''geheim-geheim'' @ [newline], False)"
  let ?r = "setPassword toy_argon (replicate 16 (CHR ''s'')) 0 ''admin'' ?inp empty_db"
  have len: "\<And>pw salt t m p n. length (IDKey toy_argon pw salt t m p n) = n" by (simp add: toy_argon_def)
  have salt: "length (replicate 16 (CHR ''s'')) = saltLen" by (simp add: saltLen_def)
  have line: "ReadLine ?inp = Some (''geheim-geheim'' @ [newline])" "lineText (''geheim-geheim'' @ [newline]) = ''geheim-geheim''"
    by code_simp+
  have name: "\<not> badName ''admin''" "12 \<le> runeCount ''geheim-geheim''"
    by (simp_all add: badName_def runeCount_ascii containsFunc_def runes_ascii ascii_def byte_def isSpace_def isControl_def)
  have r: "\<not> isl (fst ?r)" "healthy (snd ?r)"
    using line name by (simp_all add: setPassword_def SetAdmin_def transact_def and_then_def exec_def empty_db_def healthy_def)
  show ?thesis
    using set_password_login [where 'b = string, OF len salt prod.collapse [symmetric], of 0 "''admin''" ?inp empty_db] r line by (auto simp: Let_def)
qed

section \<open>A started service\<close>

lemma bootstrap_cases:
  obtains (fault) e fs where "bootstrap argon salt now user pw d = (Inl e, d\<lparr>faults := fs\<rparr>)"
  | (kept) fs where "bootstrap argon salt now user pw d = (Inr (), d\<lparr>faults := fs\<rparr>)" "admin d = None \<longrightarrow> user = []"
  | (made) fs where "bootstrap argon salt now user pw d =
      (Inr (), d\<lparr>admin := Some \<lparr>a_username = user, a_pw_hash = Hash argon salt pw, a_updated = unixSec now\<rparr>,
         sessions := [], devices := [], faults := fs\<rparr>)" "admin d = None" "user \<noteq> []"
proof -
  obtain fs where q: "StoreAdmin d = (Inl ErrDriver, d\<lparr>faults := fs\<rparr>) \<or>
      StoreAdmin d = (case admin d of None \<Rightarrow> Inl ErrNotFound | Some a \<Rightarrow> Inr (a_username a, a_pw_hash a), d\<lparr>faults := fs\<rparr>)"
  proof (cases "faults d")
    case Nil
    then have "d\<lparr>faults := []\<rparr> = d" by (cases d) simp
    then show ?thesis using that [of "[]"] Nil by (simp add: StoreAdmin_def exec_def split: option.split)
  next
    case (Cons b fs)
    then show ?thesis using that [of fs] by (cases b) (simp_all add: StoreAdmin_def exec_def split: option.split)
  qed
  consider "StoreAdmin d = (Inl ErrDriver, d\<lparr>faults := fs\<rparr>)"
    | a where "admin d = Some a" "StoreAdmin d = (Inr (a_username a, a_pw_hash a), d\<lparr>faults := fs\<rparr>)"
    | "admin d = None" "StoreAdmin d = (Inl ErrNotFound, d\<lparr>faults := fs\<rparr>)"
    using q by (cases "admin d") auto
  then show ?thesis
  proof cases
    case 3
    show ?thesis
    proof (cases "user = []")
      case True
      then show ?thesis using 3 kept [of fs] by (simp add: bootstrap_def)
    next
      case False
      then have set: "bootstrap argon salt now user pw d = SetAdmin now user (Hash argon salt pw) (d\<lparr>faults := fs\<rparr>)"
        using 3 by (simp add: bootstrap_def)
      show ?thesis
      proof (cases rule: SetAdmin_cases [of now user "Hash argon salt pw" "d\<lparr>faults := fs\<rparr>"])
        case (fault e gs)
        then show ?thesis using set that(1) [of e gs] by simp
      next
        case (reset gs)
        then show ?thesis using set 3(1) False made [of gs] by simp
      qed
    qed
  qed (use that in \<open>auto simp: bootstrap_def\<close>)
qed

lemma bootstrap_result:
  assumes b: "bootstrap argon salt now user pw d = (Inr (), d')" and ok: "db_ok d"
    and law: "\<And>pw salt t m p n. length (IDKey argon pw salt t m p n) = n" and salt: "length salt = saltLen"
  shows "db_ok d' \<and> targets d' = targets d \<and> incidents d' = incidents d \<and>
    (case admin d of
       Some a \<Rightarrow> admin d' = Some a \<and> sessions d' = sessions d
     | None \<Rightarrow> if user = [] then admin d' = None
         else (\<exists>a. admin d' = Some a \<and> a_username a = user \<and> Verify argon pw (a_pw_hash a) = Some True))"
proof (cases rule: bootstrap_cases [of argon salt now user pw d])
  case (fault e fs)
  then show ?thesis using b by simp
next
  case (kept fs)
  then show ?thesis using b ok by (auto split: option.split)
next
  case (made fs)
  have "db_ok (snd (bootstrap argon salt now user pw d))"
    using SetAdmin_keeps [OF ok] made ok by (auto simp: db_ok_tokens tokens_ok_def)
  then show ?thesis using made b Verify_Hash [OF law salt] by auto
qed

lemma fold_start_runners:
  "m_runners (fold start ts m) i \<noteq> None \<longleftrightarrow> m_runners m i \<noteq> None \<or> i \<in> ID ` set ts"
  by (induction ts arbitrary: m) (auto simp: start_def)

lemma fold_start_store [simp]: "m_store (fold start ts m) = m_store m" "m_world (fold start ts m) = m_world m"
  by (induction ts arbitrary: m) (simp_all add: start_def)

lemma Start_New:
  assumes "Start (New d wd) = (Inr (), m)"
  shows "m_world m = wd \<and> m_store m = d\<lparr>faults := faults (m_store m)\<rparr> \<and>
     (\<forall>i. m_runners m i \<noteq> None \<longleftrightarrow> (\<exists>t \<in> set (targets d). ID t = i \<and> \<not> Paused t))"
proof -
  obtain ts m1 where ts: "on_store StoreTargets (New d wd) = (Inr ts, m1)" "m = fold start (filter (\<lambda>t. \<not> Paused t) ts) m1"
    using assms by (auto simp: Start_def split: prod.splits sum.splits)
  have "m_runners m1 = Map.empty" "m_world m1 = wd" "m_store m1 = d\<lparr>faults := faults (m_store m1)\<rparr>"
      "(\<lambda>t. (ID t, Paused t)) ` set ts = (\<lambda>t. (ID t, Paused t)) ` set (targets d)"
    using ts(1) by (auto simp: on_store_def New_def StoreTargets_def select_targets_def exec_def scanTarget_def image_image
        split: prod.splits list.splits if_splits)
  moreover have "i \<in> ID ` set (filter (\<lambda>t. \<not> Paused t) ts) \<longleftrightarrow> (\<exists>t \<in> set (targets d). ID t = i \<and> \<not> Paused t)" for i
  proof -
    have "i \<in> ID ` set (filter (\<lambda>t. \<not> Paused t) ts) \<longleftrightarrow> (i, False) \<in> (\<lambda>t. (ID t, Paused t)) ` set ts" by auto
    then show ?thesis unfolding calculation(4) by auto
  qed
  moreover have "m_runners m i \<noteq> None \<longleftrightarrow> i \<in> ID ` set (filter (\<lambda>t. \<not> Paused t) ts)" for i
    unfolding ts(2) fold_start_runners using calculation(1) by simp
  ultimately show ?thesis using ts(2) by simp
qed

lemma selfAddrs_refused:
  assumes "ip \<in> set (selfAddrs w url)"
  shows "\<not> allowed ip loop extra (selfAddrs w url)"
proof -
  have "unmap (withoutZone ip) = ip"
  proof -
    obtain x where "ip = unmap (withoutZone x)" using assms by (auto simp: selfAddrs_def split: if_splits option.splits)
    then show ?thesis by (cases x) auto
  qed
  then show ?thesis using assms by (simp add: allowed_def Let_def)
qed


definition demo_world :: world where
  "demo_world = \<lparr>w_get = (\<lambda>_. []),
     w_lib = \<lparr>cl_parseURL = \<lambda>_. None, cl_parseAddress = Some, cl_parseAddressList = \<lambda>_. None, cl_quote = id\<rparr>,
     w_argon = toy_argon, w_salt = replicate 16 (CHR ''s''), w_now = 0, w_clock = (\<lambda>_. 0), w_stdin = ([], False),
     w_lookupIP = (\<lambda>_. None), w_http = (\<lambda>_. None), w_occupied = (\<lambda>_. False), w_wire = []\<rparr>"

definition demo_file :: dbfile where
  "demo_file = (snd (Open (\<lambda>_. 0) ''status.db'' (fresh_file [])))\<lparr>f_db := empty_db\<lparr>targets := [demo_target]\<rparr>\<rparr>"


end
