(* ===== verification/Metrics.thy ===== *)
theory Metrics
  imports Web_Admin
begin

text \<open>
  The metrics of \<^verbatim>\<open>internal/web/public.go\<close>: the bearer token and the text for Prometheus with every target
  that was checked since the start. Seconds are written from whole milliseconds, which is what
  \<^verbatim>\<open>FormatFloat\<close> gives for every latency below a million years.
\<close>

section \<open>The text\<close>

definition dq :: string where "dq = [CHR 0x22]"

definition labelChar :: "char \<Rightarrow> string" where
  "labelChar c =
     (if c = CHR 0x5C then [CHR 0x5C, CHR 0x5C] else if c = CHR 0x22 then [CHR 0x5C, CHR 0x22]
      else if c = CHR 0x0A then [CHR 0x5C, CHR ''n''] else [c])"

definition labelEscape :: "string \<Rightarrow> string" where "labelEscape s = concat (map labelChar s)"

definition trimZeros :: "string \<Rightarrow> string" where "trimZeros s = rev (dropWhile (\<lambda>c. c = CHR ''0'') (rev s))"

definition pad3 :: "int \<Rightarrow> string" where
  "pad3 n = (if n < 10 then ''00'' @ Itoa n else if n < 100 then ''0'' @ Itoa n else Itoa n)"

definition secondsText :: "int \<Rightarrow> string" where
  "secondsText ms =
     (let a = \<bar>ms\<bar>; r = a mod 1000
      in (if ms < 0 then ''-'' else []) @ Itoa (a div 1000) @ (if r = 0 then [] else ''.'' @ trimZeros (pad3 r)))"

definition upLine :: "Target \<Rightarrow> Stat \<Rightarrow> string" where
  "upLine t st =
     ''dmn_status_up{target='' @ dq @ labelEscape (Name t) @ dq @ '',kind='' @ dq @ labelEscape (Kind t) @ dq @ ''} '' @
     Itoa (if stat_OK st then 1 else 0)"

definition latLine :: "Target \<Rightarrow> Stat \<Rightarrow> string" where
  "latLine t st =
     ''dmn_status_latency_seconds{target='' @ dq @ labelEscape (Name t) @ dq @ ''} '' @ secondsText (stat_LatencyMs st)"

definition okLine :: "Target \<Rightarrow> Stat \<Rightarrow> string" where
  "okLine t st =
     ''dmn_status_checks_total{target='' @ dq @ labelEscape (Name t) @ dq @ '',result='' @ dq @ ''ok'' @ dq @ ''} '' @
     Itoa (int (unat (stat_ChecksOK st)))"

definition failLine :: "Target \<Rightarrow> Stat \<Rightarrow> string" where
  "failLine t st =
     ''dmn_status_checks_total{target='' @ dq @ labelEscape (Name t) @ dq @ '',result='' @ dq @ ''fail'' @ dq @ ''} '' @
     Itoa (int (unat (stat_ChecksFail st)))"

definition upHead :: "string list" where
  "upHead = [''# HELP dmn_status_up Ergebnis des letzten Checks, 1 erreichbar.'', ''# TYPE dmn_status_up gauge'']"

definition latHead :: "string list" where
  "latHead = [''# HELP dmn_status_latency_seconds Antwortzeit des letzten Checks.'', ''# TYPE dmn_status_latency_seconds gauge'']"

definition totalHead :: "string list" where
  "totalHead = [''# HELP dmn_status_checks_total Checks seit dem Start des Prozesses.'', ''# TYPE dmn_status_checks_total counter'']"

definition buildLines :: "string \<Rightarrow> string list" where
  "buildLines ver =
     [''# HELP dmn_status_build_info Version des laufenden Builds.'', ''# TYPE dmn_status_build_info gauge'',
      ''dmn_status_build_info{version='' @ dq @ labelEscape ver @ dq @ ''} 1'']"

definition unlines :: "string list \<Rightarrow> string" where "unlines ls = concat (map (\<lambda>l. l @ nl) ls)"

text \<open>The loop with its three builders; a target without a check so far is left out.\<close>

fun metrics_loop :: "(int \<rightharpoonup> Stat) \<Rightarrow> Target list \<Rightarrow> string \<times> string \<times> string \<Rightarrow> string \<times> string \<times> string" where
  "metrics_loop snap [] b = b"
| "metrics_loop snap (t # ts) (up, lat, tot) =
     (case snap (ID t) of
        None \<Rightarrow> metrics_loop snap ts (up, lat, tot)
      | Some st \<Rightarrow>
          if \<not> stat_Checked st then metrics_loop snap ts (up, lat, tot)
          else metrics_loop snap ts
                 (up @ upLine t st @ nl, lat @ latLine t st @ nl, tot @ okLine t st @ nl @ failLine t st @ nl))"

definition metrics_text :: "string \<Rightarrow> (int \<rightharpoonup> Stat) \<Rightarrow> Target list \<Rightarrow> string" where
  "metrics_text ver snap ts =
     (case metrics_loop snap ts (unlines upHead, unlines latHead, unlines totalHead) of
        (up, lat, tot) \<Rightarrow> up @ lat @ tot @ unlines (buildLines ver))"

section \<open>The handler\<close>

datatype metrics_answer = Unauthorized | MetricsFail store_err | MetricsText string

definition metrics_auth :: "(string \<Rightarrow> string) \<Rightarrow> string \<Rightarrow> string \<Rightarrow> bool" where
  "metrics_auth sha token auth \<longleftrightarrow>
     (case cutPrefix auth ''Bearer '' of (got, found) \<Rightarrow> found \<and> got \<noteq> [] \<and> sha got = sha token)"

definition metrics :: "(string \<Rightarrow> string) \<Rightarrow> string \<Rightarrow> string \<Rightarrow> string \<Rightarrow> 'b server \<Rightarrow> metrics_answer \<times> 'b server" where
  "metrics sha token ver auth s =
     (if \<not> metrics_auth sha token auth then (Unauthorized, s)
      else (case on_db StoreTargets s of
              (Inl e, s1) \<Rightarrow> (MetricsFail e, s1)
            | (Inr ts, s1) \<Rightarrow> (MetricsText (metrics_text ver (Snapshot (sv_mon s1)) ts), s1)))"

section \<open>Labels and lines\<close>

text \<open>How a label value is read up to its closing quote.\<close>

fun readLabel :: "string \<Rightarrow> (string \<times> string) option" where
  "readLabel [] = None"
| "readLabel (c # cs) =
     (if c = CHR 0x22 then Some ([], cs)
      else if c = CHR 0x5C
      then (case cs of
              [] \<Rightarrow> None
            | e # ds \<Rightarrow> map_option (map_prod ((#) (if e = CHR ''n'' then CHR 0x0A else e)) id) (readLabel ds))
      else map_option (map_prod ((#) c) id) (readLabel cs))"

lemma readLabel_escape: "readLabel (labelEscape s @ dq @ rest) = Some (s, rest)"
  by (induction s) (auto simp: labelEscape_def labelChar_def dq_def)

lemma labelEscape_line: "CHR 0x0A \<notin> set (labelEscape s)"
  by (auto simp: labelEscape_def labelChar_def split: if_splits)

lemma Itoa_line: "CHR 0x0A \<notin> set (Itoa n)"
  using showNat_digits(2) [of "nat n"] showNat_digits(2) [of "nat (- n)"]
  by (auto simp: Itoa_def list_all_iff isDigit_def byte_def)

lemma secondsText_line: "CHR 0x0A \<notin> set (secondsText ms)"
  using Itoa_line by (auto simp: secondsText_def Let_def trimZeros_def pad3_def dest!: set_dropWhileD)

lemmas metric_lines = upLine_def latLine_def okLine_def failLine_def buildLines_def upHead_def latHead_def totalHead_def

lemma lines_clean:
  "CHR 0x0A \<notin> set (upLine t st)" "CHR 0x0A \<notin> set (latLine t st)" "CHR 0x0A \<notin> set (okLine t st)" "CHR 0x0A \<notin> set (failLine t st)"
  "\<forall>l \<in> set (upHead @ latHead @ totalHead @ buildLines v). CHR 0x0A \<notin> set l"
  by (simp_all add: metric_lines dq_def labelEscape_line Itoa_line secondsText_line)

lemma splitAt_unlines: "(\<forall>l \<in> set ls. CHR 0x0A \<notin> set l) \<Longrightarrow> splitAt (CHR 0x0A) (unlines ls) = ls @ [[]]"
  by (induction ls) (simp_all add: unlines_def nl_def splitAt_append)

text \<open>The targets that appear, each with its counters.\<close>

definition measured :: "(int \<rightharpoonup> Stat) \<Rightarrow> Target list \<Rightarrow> (Target \<times> Stat) list" where
  "measured snap ts =
     concat (map (\<lambda>t. case snap (ID t) of None \<Rightarrow> [] | Some st \<Rightarrow> if stat_Checked st then [(t, st)] else []) ts)"

lemma metrics_loop_spec:
  "metrics_loop snap ts (up, lat, tot) =
     (up @ unlines (map (case_prod upLine) (measured snap ts)), lat @ unlines (map (case_prod latLine) (measured snap ts)),
      tot @ unlines (concat (map (\<lambda>(t, st). [okLine t st, failLine t st]) (measured snap ts))))"
  by (induction ts arbitrary: up lat tot) (auto simp: measured_def unlines_def split: option.split)

text \<open>The lines of the text, in order.\<close>

definition metricLines :: "string \<Rightarrow> (Target \<times> Stat) list \<Rightarrow> string list" where
  "metricLines ver ms =
     upHead @ map (case_prod upLine) ms @ latHead @ map (case_prod latLine) ms @
     totalHead @ concat (map (\<lambda>(t, st). [okLine t st, failLine t st]) ms) @ buildLines ver"

lemma metrics_text_lines: "splitAt (CHR 0x0A) (metrics_text ver snap ts) = metricLines ver (measured snap ts) @ [[]]"
proof -
  have "metrics_text ver snap ts = unlines (metricLines ver (measured snap ts))"
    by (simp add: metrics_text_def metrics_loop_spec metricLines_def unlines_def)
  moreover have "\<forall>l \<in> set (metricLines ver (measured snap ts)). CHR 0x0A \<notin> set l"
    using lines_clean(1-4) lines_clean(5) [of ver] by (auto simp: metricLines_def)
  ultimately show ?thesis by (simp add: splitAt_unlines)
qed



end
