(* ===== verification/I18n.thy ===== *)
theory I18n
  imports Web_Public Go_Strings
begin

text \<open>
  The texts of the pages, \<^verbatim>\<open>internal/web/i18n.go\<close>: the two tables with every entry, the lookup with its
  fallback, and the functions that write percentages, durations and times. Texts are bytes, a letter
  beyond ASCII is written as its UTF-8 bytes. \<^verbatim>\<open>fmt.Sprintf\<close> is modelled for numbers and strings, with
  the marks it leaves when verbs and arguments do not fit. The Berlin time of an instant is the argument
  \<open>berlin\<close>; ratios are exact rationals here.
\<close>

section \<open>The tables\<close>

definition texts_de :: "(string \<times> string) list" where
  "texts_de =
     [(''meta.desc'', ''Verf'' @ [CHR 0xC3, CHR 0xBC] @ ''gbarkeit und Vorf'' @ [CHR 0xC3, CHR 0xA4] @ ''lle der Dienste von DMN Software, gemessen von einem eigenen Go-Dienst.''),
      (''skip'', ''Zum Inhalt''),
      (''main.id'', ''inhalt''),
      (''nav.label'', ''Abschnitte''),
      (''lang.label'', ''Sprache''),
      (''nav.svc'', ''Dienste''),
      (''nav.inc'', ''Vorf'' @ [CHR 0xC3, CHR 0xA4] @ ''lle''),
      (''nav.how'', ''So funktioniert'' @ [CHR 0x27] @ ''s''),
      (''id.svc'', ''dienste''),
      (''id.inc'', ''vorfaelle''),
      (''id.how'', ''so-funktionierts''),
      (''crumb.proj'', ''Projekte''),
      (''url.proj'', ''https://dmn-software.com/#projekte''),
      (''foot.label'', ''Rechtliches''),
      (''foot.imp'', ''Impressum''),
      (''url.imp'', ''https://dmn-software.com/impressum.html''),
      (''foot.priv'', ''Datenschutz''),
      (''url.priv'', ''https://dmn-software.com/datenschutz.html''),
      (''state.up'', ''erreichbar''),
      (''state.down'', ''nicht erreichbar''),
      (''state.unknown'', ''keine Daten''),
      (''state.paused'', ''pausiert''),
      (''overall.up'', ''Alle Dienste erreichbar''),
      (''overall.down1'', ''1 Dienst nicht erreichbar''),
      (''overall.downN'', ''%d Dienste nicht erreichbar''),
      (''overall.unknown'', ''Noch keine Daten''),
      (''overall.paused'', ''Pr'' @ [CHR 0xC3, CHR 0xBC] @ ''fungen pausiert''),
      (''overall.empty'', ''Noch keine Dienste eingetragen''),
      (''stand'', ''Stand: %s Uhr''),
      (''stand.none'', ''Stand: unbekannt''),
      (''svc.h'', ''Dienste''),
      (''svc.note'', ''Je Segment eine Stunde, die letzten 90 Stunden''),
      (''leg.up'', ''erreichbar''),
      (''leg.down'', ''Ausfall''),
      (''leg.none'', ''keine Daten''),
      (''up.24h'', ''24 h''),
      (''up.7d'', ''7 T''),
      (''up.30d'', ''30 T''),
      (''up.label'', ''Uptime''),
      (''players'', ''Spieler %d/%d''),
      (''version'', ''Version %s''),
      (''inc.h'', ''Vorf'' @ [CHR 0xC3, CHR 0xA4] @ ''lle''),
      (''inc.none'', ''Keine Vorf'' @ [CHR 0xC3, CHR 0xA4] @ ''lle in den letzten 30 Tagen''),
      (''inc.none.r'', ''Keine Vorf'' @ [CHR 0xC3, CHR 0xA4] @ ''lle in diesem Zeitraum''),
      (''inc.live'', ''l'' @ [CHR 0xC3, CHR 0xA4] @ ''uft''),
      (''inc.done'', ''beendet''),
      (''inc.since'', ''seit %s''),
      (''inc.span'', ''%s bis %s''),
      (''how.h'', ''So funktioniert'' @ [CHR 0x27] @ ''s''),
      (''how.lead'', ''Ein Go-Binary ohne Framework, die Messwerte liegen in SQLite.''),
      (''how.cap'', ''Weg einer Pr'' @ [CHR 0xC3, CHR 0xBC] @ ''fung vom Ziel bis zur Statusseite und zur Mail.''),
      (''how.checks.t'', ''Checks''),
      (''how.checks'', ''HTTP pr'' @ [CHR 0xC3, CHR 0xBC] @ ''ft den Statuscode und auf Wunsch ein Stichwort im Antworttext. TCP pr'' @ [CHR 0xC3, CHR 0xBC] @ ''ft nur, ob der Port eine Verbindung annimmt. FiveM fragt info.json und players.json des FXServers ab, angezeigt werden nur Spielerzahl und Version.''),
      (''how.sched.t'', ''Scheduler''),
      (''how.sched'', ''Jedes Ziel l'' @ [CHR 0xC3, CHR 0xA4] @ ''uft in einer eigenen Goroutine mit eigenem Intervall. Ein kleiner zuf'' @ [CHR 0xC3, CHR 0xA4] @ ''lliger Versatz (Jitter) verhindert, dass alle Pr'' @ [CHR 0xC3, CHR 0xBC] @ ''fungen im selben Moment starten.''),
      (''how.inc.t'', ''Vorf'' @ [CHR 0xC3, CHR 0xA4] @ ''lle''),
      (''how.inc'', ''Ein Vorfall beginnt erst nach mehreren Fehlschl'' @ [CHR 0xC3, CHR 0xA4] @ ''gen in Folge, ein einzelner Aussetzer l'' @ [CHR 0xC3, CHR 0xB6] @ ''st keinen Alarm aus. Bei Ausfall und bei Wiederkehr geht eine Mail raus.''),
      (''how.sec.t'', ''Sicherheit''),
      (''how.sec'', ''Passw'' @ [CHR 0xC3, CHR 0xB6] @ ''rter mit argon2id, CSRF-Token in jedem Formular, Pr'' @ [CHR 0xC3, CHR 0xBC] @ ''fungen auf interne Adressen sind gesperrt (SSRF), dazu eine strenge CSP ohne Inline-Skripte. '' @ [CHR 0xC3, CHR 0x96] @ ''ffentlich erscheinen weder Adressen noch Fehlertexte.''),
      (''arch.targets'', ''Ziele''),
      (''arch.sched'', ''Goroutine je Ziel''),
      (''arch.checks'', ''mit Timeout''),
      (''arch.db'', ''Checks, Stunden''),
      (''arch.page'', ''Statusseite''),
      (''arch.inc'', ''Vorfall''),
      (''arch.inc.sub'', ''ab n Fehlschl'' @ [CHR 0xC3, CHR 0xA4] @ ''gen''),
      (''arch.mail'', ''Ausfall, Wiederkehr''),
      (''range.label'', ''Zeitraum''),
      (''range.24h'', ''24 Stunden''),
      (''range.7d'', ''7 Tage''),
      (''range.30d'', ''30 Tage''),
      (''lat.h'', ''Antwortzeit''),
      (''lat.max'', ''max %d ms''),
      (''lat.latest'', ''Letzte Antwortzeit''),
      (''lat.none'', ''Noch keine Messwerte''),
      (''lat.label'', ''Antwortzeit im Zeitraum, h'' @ [CHR 0xC3, CHR 0xB6] @ ''chster Wert %d ms''),
      (''avail.h'', ''Verf'' @ [CHR 0xC3, CHR 0xBC] @ ''gbarkeit''),
      (''ago.24h'', ''vor 24 h''),
      (''ago.7d'', ''vor 7 T''),
      (''ago.30d'', ''vor 30 T''),
      (''now'', ''jetzt''),
      (''paused.note'', ''Die Pr'' @ [CHR 0xC3, CHR 0xBC] @ ''fung ist pausiert, es kommen keine neuen Messwerte dazu.''),
      (''bars.h'', ''Letzte %d Stunden: %d erreichbar, %d mit Ausfall, %d ohne Daten''),
      (''bars.d'', ''Letzte %d Tage: %d erreichbar, %d mit Ausfall, %d ohne Daten''),
      (''bars.none'', ''keine Daten''),
      (''nf.title'', ''Seite nicht gefunden''),
      (''nf.lead'', ''Diese Adresse gibt es hier nicht. Vielleicht ist der Link veraltet oder hat sich ein Tippfehler eingeschlichen.''),
      (''nf.back'', ''Zur Statusseite''),
      (''err.title'', ''Interner Fehler''),
      (''err.lead'', ''Beim Aufbau dieser Seite ist etwas schiefgegangen. Bitte in ein paar Minuten erneut versuchen.''),
      (''adm.login.bad'', ''Benutzername oder Passwort falsch.''),
      (''adm.login.locked'', ''Zu viele Fehlversuche. Bitte sp'' @ [CHR 0xC3, CHR 0xA4] @ ''ter erneut versuchen.''),
      (''adm.csrf'', ''Das Formular ist abgelaufen. Bitte erneut absenden.''),
      (''adm.saved'', ''Ziel gespeichert.''),
      (''adm.deleted'', ''Ziel gel'' @ [CHR 0xC3, CHR 0xB6] @ ''scht.''),
      (''adm.mail.sent'', ''Testmail verschickt.''),
      (''adm.mail.failed'', ''Testmail konnte nicht verschickt werden.''),
      (''adm.mail.off'', ''Mailversand ist nicht eingerichtet.''),
      (''adm.checked'', ''Pr'' @ [CHR 0xC3, CHR 0xBC] @ ''fung angesto'' @ [CHR 0xC3, CHR 0x9F] @ ''en.''),
      (''adm.check.paused'', ''Das Ziel ist pausiert und wurde nicht gepr'' @ [CHR 0xC3, CHR 0xBC] @ ''ft.''),
      (''adm.check.rate'', ''Die Pr'' @ [CHR 0xC3, CHR 0xBC] @ ''fung wurde gerade erst angesto'' @ [CHR 0xC3, CHR 0x9F] @ ''en. Bitte kurz warten.'')]"

definition texts_en :: "(string \<times> string) list" where
  "texts_en =
     [(''meta.desc'', ''Availability and incidents of the DMN Software services, measured by a small Go service.''),
      (''skip'', ''Skip to content''),
      (''main.id'', ''content''),
      (''nav.label'', ''Sections''),
      (''lang.label'', ''Language''),
      (''nav.svc'', ''Services''),
      (''nav.inc'', ''Incidents''),
      (''nav.how'', ''How it works''),
      (''id.svc'', ''services''),
      (''id.inc'', ''incidents''),
      (''id.how'', ''how-it-works''),
      (''crumb.proj'', ''Projects''),
      (''url.proj'', ''https://dmn-software.com/en/#projects''),
      (''foot.label'', ''Legal''),
      (''foot.imp'', ''Legal notice''),
      (''url.imp'', ''https://dmn-software.com/en/impressum.html''),
      (''foot.priv'', ''Privacy policy''),
      (''url.priv'', ''https://dmn-software.com/en/datenschutz.html''),
      (''state.up'', ''reachable''),
      (''state.down'', ''not reachable''),
      (''state.unknown'', ''no data''),
      (''state.paused'', ''paused''),
      (''overall.up'', ''All services reachable''),
      (''overall.down1'', ''1 service not reachable''),
      (''overall.downN'', ''%d services not reachable''),
      (''overall.unknown'', ''No data yet''),
      (''overall.paused'', ''Checks paused''),
      (''overall.empty'', ''No services added yet''),
      (''stand'', ''Updated %s''),
      (''stand.none'', ''Status unknown''),
      (''svc.h'', ''Services''),
      (''svc.note'', ''One segment per hour, last 90 hours''),
      (''leg.up'', ''reachable''),
      (''leg.down'', ''outage''),
      (''leg.none'', ''no data''),
      (''up.24h'', ''24h''),
      (''up.7d'', ''7d''),
      (''up.30d'', ''30d''),
      (''up.label'', ''Uptime''),
      (''players'', ''Players %d/%d''),
      (''version'', ''Version %s''),
      (''inc.h'', ''Incidents''),
      (''inc.none'', ''No incidents in the last 30 days''),
      (''inc.none.r'', ''No incidents in this range''),
      (''inc.live'', ''ongoing''),
      (''inc.done'', ''resolved''),
      (''inc.since'', ''since %s''),
      (''inc.span'', ''%s to %s''),
      (''how.h'', ''How it works''),
      (''how.lead'', ''A single Go binary without a framework, measurements are stored in SQLite.''),
      (''how.cap'', ''Path of a check from the target to the status page and the mail.''),
      (''how.checks.t'', ''Checks''),
      (''how.checks'', ''HTTP checks the status code and optionally a keyword in the response body. TCP only checks whether the port accepts a connection. FiveM queries info.json and players.json of the FXServer, only the player count and version are shown.''),
      (''how.sched.t'', ''Scheduler''),
      (''how.sched'', ''Every target runs in its own goroutine with its own interval. A small random offset (jitter) keeps all checks from starting at the same moment.''),
      (''how.inc.t'', ''Incidents''),
      (''how.inc'', ''An incident only starts after several failed checks in a row, a single hiccup does not raise an alert. A mail goes out when a service goes down and when it is back.''),
      (''how.sec.t'', ''Security''),
      (''how.sec'', ''Passwords hashed with argon2id, a CSRF token in every form, checks against internal addresses are blocked (SSRF), plus a strict CSP without inline scripts. Addresses and error messages are never shown publicly.''),
      (''arch.targets'', ''Targets''),
      (''arch.sched'', ''goroutine per target''),
      (''arch.checks'', ''with timeout''),
      (''arch.db'', ''checks, hours''),
      (''arch.page'', ''Status page''),
      (''arch.inc'', ''Incident''),
      (''arch.inc.sub'', ''after n failures''),
      (''arch.mail'', ''down and recovery''),
      (''range.label'', ''Range''),
      (''range.24h'', ''24 hours''),
      (''range.7d'', ''7 days''),
      (''range.30d'', ''30 days''),
      (''lat.h'', ''Response time''),
      (''lat.max'', ''max %d ms''),
      (''lat.latest'', ''Latest response time''),
      (''lat.none'', ''No measurements yet''),
      (''lat.label'', ''Response time in this range, peak %d ms''),
      (''avail.h'', ''Availability''),
      (''ago.24h'', ''24h ago''),
      (''ago.7d'', ''7d ago''),
      (''ago.30d'', ''30d ago''),
      (''now'', ''now''),
      (''paused.note'', ''Checks are paused, no new measurements are recorded.''),
      (''bars.h'', ''Last %d hours: %d reachable, %d with outage, %d without data''),
      (''bars.d'', ''Last %d days: %d reachable, %d with outage, %d without data''),
      (''bars.none'', ''no data''),
      (''nf.title'', ''Page not found''),
      (''nf.lead'', ''This address does not exist here. The link may be outdated or contain a typo.''),
      (''nf.back'', ''To the status page''),
      (''err.title'', ''Internal error''),
      (''err.lead'', ''Something went wrong while building this page. Please try again in a few minutes.'')]"
text \<open>\<^verbatim>\<open>texts[lang][key]\<close>\<close>

definition texts :: "string \<Rightarrow> string \<rightharpoonup> string" where
  "texts lang = (if lang = ''de'' then map_of texts_de else if lang = ''en'' then map_of texts_en else Map.empty)"

definition T :: "string \<Rightarrow> string \<Rightarrow> string" where
  "T lang key =
     (case texts lang key of
        Some s \<Rightarrow> s
      | None \<Rightarrow> (case texts ''de'' key of Some s \<Rightarrow> s | None \<Rightarrow> key))"

section \<open>Formatting\<close>

datatype arg = ArgInt int | ArgStr string

definition argType :: "arg \<Rightarrow> string" where
  "argType a = (case a of ArgInt n \<Rightarrow> ''int'' | ArgStr s \<Rightarrow> ''string'')"

definition argText :: "arg \<Rightarrow> string" where
  "argText a = (case a of ArgInt n \<Rightarrow> Itoa n | ArgStr s \<Rightarrow> s)"

fun extraArgs :: "arg list \<Rightarrow> string" where
  "extraArgs [] = []"
| "extraArgs [a] = argType a @ ''='' @ argText a"
| "extraArgs (a # as) = argType a @ ''='' @ argText a @ '', '' @ extraArgs as"

fun Sprintf :: "string \<Rightarrow> arg list \<Rightarrow> string" where
  "Sprintf [] as = (if as = [] then [] else ''%!(EXTRA '' @ extraArgs as @ '')'')"
| "Sprintf (c # cs) as =
     (if c \<noteq> CHR ''%'' then c # Sprintf cs as
      else (case cs of
              [] \<Rightarrow> ''%!(NOVERB)'' @ Sprintf [] as
            | v # vs \<Rightarrow>
                if v = CHR ''%'' then CHR ''%'' # Sprintf vs as
                else (case as of
                        [] \<Rightarrow> ''%!'' @ [v] @ ''(MISSING)'' @ Sprintf vs []
                      | a # rest \<Rightarrow>
                          (if v = CHR ''d'' \<and> argType a = ''int'' \<or> v = CHR ''s'' \<and> argType a = ''string'' then argText a
                           else ''%!'' @ [v] @ ''('' @ argType a @ ''='' @ argText a @ '')'') @ Sprintf vs rest)))"

definition pad2 :: "int \<Rightarrow> string" where
  "pad2 n = (if n < 10 then ''0'' @ Itoa n else Itoa n)"

text \<open>Per mill of the ratio, rounded down, as a percentage with two decimals.\<close>

definition pct :: "string \<Rightarrow> rat \<Rightarrow> string" where
  "pct lang v =
     (if v < 0 then [CHR 0xE2, CHR 0x80, CHR 0x93]
      else let k = \<lfloor>v * 10000 + 1 / 1000000\<rfloor>;
               s = Itoa (k div 100) @ ''.'' @ pad2 (k mod 100);
               s1 = (if s = ''100.00'' then ''100'' else s)
           in if lang = ''en'' then s1 @ ''%''
              else (case cutAt (CHR ''.'') s1 of (a, b, found) \<Rightarrow> if found then a @ '','' @ b else s1) @ '' %'')"

text \<open>\<^verbatim>\<open>Duration.Round\<close>\<close>

definition roundDur :: "duration \<Rightarrow> duration \<Rightarrow> duration" where
  "roundDur d m =
     (if m \<le> 0 then d
      else let r = d smod m in
        if d < 0
        then if - r + - r < m then d - r else if minDuration \<le> d - m - r then d - m - r else minDuration
        else if r + r < m then d - r else if d + m - r \<le> maxDuration then d + m - r else maxDuration)"

definition dur :: "string \<Rightarrow> duration \<Rightarrow> string" where
  "dur lang d =
     (let m = roundDur d minute sdiv minute in
      if d < minute then ''< 1 min''
      else if m < 60 then Itoa m @ '' min''
      else if m < 24 * 60
      then if m smod 60 = 0 then Itoa (m sdiv 60) @ '' h'' else Itoa (m sdiv 60) @ '' h '' @ Itoa (m smod 60) @ '' min''
      else let unit = (if lang = ''en'' then ''d'' else ''T''); h = (m sdiv 60) smod 24 in
        if 0 < h then Itoa (m sdiv (24 * 60)) @ '' '' @ unit @ '' '' @ Itoa h @ '' h''
        else Itoa (m sdiv (24 * 60)) @ '' '' @ unit)"

section \<open>Times\<close>

record civil =
  cv_Year :: int
  cv_Month :: nat
  cv_Day :: int
  cv_Hour :: int
  cv_Minute :: int

definition monthName :: "nat \<Rightarrow> string" where
  "monthName n = [''Jan'', ''Feb'', ''Mar'', ''Apr'', ''May'', ''Jun'', ''Jul'', ''Aug'', ''Sep'', ''Oct'', ''Nov'', ''Dec''] ! (n - 1)"

definition clock :: "(time \<Rightarrow> civil) \<Rightarrow> time \<Rightarrow> string" where
  "clock berlin t = pad2 (cv_Hour (berlin t)) @ '':'' @ pad2 (cv_Minute (berlin t))"

definition stand :: "(time \<Rightarrow> civil) \<Rightarrow> string \<Rightarrow> time \<Rightarrow> string" where
  "stand berlin lang t =
     (if isZero t then T lang ''stand.none'' else Sprintf (T lang ''stand'') [ArgStr (clock berlin t)])"

definition pad4 :: "int \<Rightarrow> string" where
  "pad4 n = (let s = Itoa n in replicate (4 - length s) (CHR ''0'') @ s)"

definition day :: "(time \<Rightarrow> civil) \<Rightarrow> string \<Rightarrow> time \<Rightarrow> string" where
  "day berlin lang t =
     (let c = berlin t in
      if lang = ''en'' then monthName (cv_Month c) @ '' '' @ Itoa (cv_Day c) @ '', '' @ pad4 (cv_Year c)
      else pad2 (cv_Day c) @ ''.'' @ pad2 (int (cv_Month c)) @ ''.'' @ pad4 (cv_Year c))"

definition when_text :: "(time \<Rightarrow> civil) \<Rightarrow> string \<Rightarrow> time \<Rightarrow> string" where
  "when_text berlin lang t =
     (let c = berlin t in
      if lang = ''en'' then monthName (cv_Month c) @ '' '' @ Itoa (cv_Day c) @ '', '' @ clock berlin t
      else pad2 (cv_Day c) @ ''.'' @ pad2 (int (cv_Month c)) @ ''., '' @ clock berlin t)"

definition dateOnly :: "civil \<Rightarrow> string" where
  "dateOnly c = pad4 (cv_Year c) @ ''-'' @ pad2 (int (cv_Month c)) @ ''-'' @ pad2 (cv_Day c)"

definition span :: "(time \<Rightarrow> civil) \<Rightarrow> string \<Rightarrow> time \<Rightarrow> time \<Rightarrow> string" where
  "span berlin lang start stop =
     (let fin = (if dateOnly (berlin start) = dateOnly (berlin stop) then clock berlin stop else when_text berlin lang stop)
      in Sprintf (T lang ''inc.span'') [ArgStr (when_text berlin lang start), ArgStr fin])"

section \<open>Names\<close>

definition base :: "string \<Rightarrow> string" where "base lang = (if lang = ''en'' then ''/en'' else [])"

definition kindName :: "string \<Rightarrow> string" where
  "kindName k = (if k = ''http'' then ''HTTP'' else if k = ''tcp'' then ''TCP'' else if k = ''fivem'' then ''FiveM'' else k)"

definition overall :: "string \<Rightarrow> State \<Rightarrow> TargetRow list \<Rightarrow> string" where
  "overall lang s rows =
     (if rows = [] then T lang ''overall.empty''
      else (case s of
              StateUp \<Rightarrow> T lang ''overall.up''
            | StatePaused \<Rightarrow> T lang ''overall.paused''
            | StateDown \<Rightarrow>
                let n = length (filter (\<lambda>r. tr_State r = StateDown) rows)
                in if n \<le> 1 then T lang ''overall.down1'' else Sprintf (T lang ''overall.downN'') [ArgInt (int n)]
            | StateUnknown \<Rightarrow> T lang ''overall.unknown''))"

section \<open>The tables are complete\<close>

text \<open>The verbs of a format.\<close>

fun verbs :: "string \<Rightarrow> string" where
  "verbs [] = []"
| "verbs (c # cs) =
     (if c = CHR ''%'' then (case cs of [] \<Rightarrow> [c] | v # vs \<Rightarrow> if v = CHR ''%'' then verbs vs else v # verbs vs) else verbs cs)"

definition verbOf :: "arg \<Rightarrow> char" where
  "verbOf a = (case a of ArgInt _ \<Rightarrow> CHR ''d'' | ArgStr _ \<Rightarrow> CHR ''s'')"

text \<open>The text between the verbs, and a format with the arguments put in.\<close>

fun fill :: "string \<Rightarrow> string list \<Rightarrow> string" where
  "fill [] xs = []"
| "fill (c # cs) xs =
     (if c = CHR ''%''
      then (case cs of
              [] \<Rightarrow> [c]
            | v # vs \<Rightarrow> if v = CHR ''%'' then c # fill vs xs else (case xs of [] \<Rightarrow> fill vs [] | x # ys \<Rightarrow> x @ fill vs ys))
      else c # fill cs xs)"

lemma Sprintf_fill: "map verbOf as = verbs f \<Longrightarrow> Sprintf f as = fill f (map argText as)"
proof (induction f as rule: Sprintf.induct)
  case (2 c cs as)
  show ?case
  proof (cases "c = CHR ''%''")
    case True
    show ?thesis
    proof (cases cs)
      case Nil
      then show ?thesis using 2 True by (auto simp: verbOf_def split: arg.splits)
    next
      case (Cons v vs)
      then show ?thesis using 2 True
        by (cases as) (auto simp: verbOf_def argType_def split: arg.splits if_splits)
    qed
  next
    case False
    then show ?thesis using 2 by simp
  qed
qed simp

definition formats :: "(string \<times> string) list \<Rightarrow> (string \<times> string) list" where
  "formats tab = filter (\<lambda>(k, v). v \<noteq> []) (map (\<lambda>(k, s). (k, verbs s)) tab)"

lemma tables_keys:
  "distinct (map fst texts_de)" "distinct (map fst texts_en)"
  "map fst texts_en = filter (\<lambda>k. take 4 k \<noteq> ''adm.'') (map fst texts_de)"
  by code_simp+

lemma tables_formats: "formats texts_de = formats texts_en"
  by code_simp

lemma formats_lookup:
  "distinct (map fst tab) \<Longrightarrow> map_of (formats tab) k =
     (case map_of tab k of None \<Rightarrow> None | Some s \<Rightarrow> if verbs s = [] then None else Some (verbs s))"
proof (induction tab)
  case (Cons e tab)
  have "k \<notin> fst ` set (formats tab)" if "k \<notin> fst ` set tab" using that by (force simp: formats_def)
  then have "map_of (formats tab) k = None" if "k \<notin> fst ` set tab" using that by (simp add: map_of_eq_None_iff)
  then show ?case using Cons by (cases e) (auto simp: formats_def)
qed (simp add: formats_def)

lemma en_keys: "fst ` set texts_en = {k \<in> fst ` set texts_de. take 4 k \<noteq> ''adm.''}"
  using arg_cong [OF tables_keys(3), of set] by simp

lemma verbs_agree:
  assumes "map_of texts_en k = Some s"
  shows "\<exists>s'. map_of texts_de k = Some s' \<and> verbs s' = verbs s"
proof -
  have "k \<in> fst ` set texts_de"
    using imageI [OF map_of_SomeD [OF assms], of fst] en_keys by auto
  then obtain s' where s': "map_of texts_de k = Some s'" by (metis map_of_eq_None_iff not_Some_eq)
  then show ?thesis
    using assms tables_formats formats_lookup [OF tables_keys(1), of k] formats_lookup [OF tables_keys(2), of k]
    by (auto split: if_splits)
qed

lemma verbs_T: "texts ''de'' k \<noteq> None \<Longrightarrow> verbs (T lang k) = verbs (T ''de'' k)"
  using verbs_agree [of k] by (auto simp: T_def texts_def split: option.splits if_splits)

text \<open>The tables are complete: apart from the admin area, which is German only, a text exists in English
  exactly when it exists in German. And a text takes the same arguments in every language: what fits the
  German format is put into the chosen one without a mark of a missing, extra or wrong argument.\<close>

lemma texts_complete:
  "(\<forall>k. texts ''en'' k \<noteq> None \<longleftrightarrow> texts ''de'' k \<noteq> None \<and> take 4 k \<noteq> ''adm.'') \<and>
   (\<forall>lang k as. texts ''de'' k \<noteq> None \<and> map verbOf as = verbs (T ''de'' k) \<longrightarrow>
      Sprintf (T lang k) as = fill (T lang k) (map argText as))"
proof (intro conjI allI impI)
  show "texts ''en'' k \<noteq> None \<longleftrightarrow> texts ''de'' k \<noteq> None \<and> take 4 k \<noteq> ''adm.''" for k
    by (simp add: texts_def map_of_eq_None_iff en_keys del: not_None_eq)
next
  fix lang k as
  assume "texts ''de'' k \<noteq> None \<and> map verbOf as = verbs (T ''de'' k)"
  then show "Sprintf (T lang k) as = fill (T lang k) (map argText as)"
    by (intro Sprintf_fill) (metis verbs_T)
qed

section \<open>Percentages and durations\<close>

text \<open>A percentage is never rounded up: 100 is shown only when the ratio is within a millionth of a
  hundredth percent of one.\<close>

lemma Itoa_dot_inj:
  assumes "0 \<le> a" "0 \<le> b" and eq: "Itoa a @ CHR ''.'' # x = Itoa b @ CHR ''.'' # y"
  shows "a = b"
proof -
  have dot: "takeWhile (\<lambda>c. c \<noteq> CHR ''.'') (Itoa n @ CHR ''.'' # z) = Itoa n" if "0 \<le> n" for n z
    using Itoa_digits [OF that] by (subst takeWhile_append2) (auto simp: list_all_iff isDigit_def byte_def)
  have "Itoa a = Itoa b" using arg_cong [OF eq, of "takeWhile (\<lambda>c. c \<noteq> CHR ''.'')"] dot assms(1,2) by simp
  then show ?thesis using assms(1,2) by (metis Itoa_def int_nat_eq showNat_digits(3) not_le)
qed

lemma pct_full:
  assumes "0 \<le> v" "v \<le> 1"
  shows "pct ''en'' v = ''100%'' \<longleftrightarrow> 1 - 1 / 10 ^ 10 \<le> v"
proof -
  let ?k = "\<lfloor>v * 10000 + 1 / 1000000\<rfloor>"
  have k: "0 \<le> ?k" "?k \<le> 10000" using assms by (auto simp: floor_le_iff)
  have "pct ''en'' v = ''100%'' \<longleftrightarrow> Itoa (?k div 100) @ ''.'' @ pad2 (?k mod 100) = ''100.00''"
    using assms(1) by (auto simp: pct_def Let_def append_eq_append_conv2 Cons_eq_append_conv append_eq_Cons_conv)
  also have "\<dots> \<longleftrightarrow> ?k = 10000"
  proof
    assume s: "Itoa (?k div 100) @ ''.'' @ pad2 (?k mod 100) = ''100.00''"
    have "Itoa 100 = ''100''" by code_simp
    then have "?k div 100 = 100" using Itoa_dot_inj [of "?k div 100" 100 "pad2 (?k mod 100)" "''00''"] pos_imp_zdiv_nonneg_iff [of 100 ?k] k s by simp
    then show "?k = 10000" using k by linarith
  next
    assume "?k = 10000"
    then show "Itoa (?k div 100) @ ''.'' @ pad2 (?k mod 100) = ''100.00''" by (simp, code_simp)
  qed
  also have "\<dots> \<longleftrightarrow> 1 - 1 / 10 ^ 10 \<le> v" using k by (auto simp: floor_eq_iff le_floor_iff)
  finally show ?thesis .
qed

end
