(* ===== verification/Chart.thy ===== *)
theory Chart
  imports I18n
begin

text \<open>
  The charts, \<^verbatim>\<open>internal/web/chart.go\<close> with \<^verbatim>\<open>Chart\<close> and \<^verbatim>\<open>Bar\<close> of \<^verbatim>\<open>view.go\<close>: the bars over the hours and the line of
  the response times. The geometry of the bars is integral. A coordinate of the line is the exact
  rational; how a \<^verbatim>\<open>float64\<close> next to it is written with one decimal is the argument \<open>fmt\<close>.
\<close>

section \<open>Bars\<close>

record Bar =
  b_X :: int
  b_Y :: int
  b_W :: int
  b_H :: int
  b_State :: State
  b_Title :: string

record Chart =
  ch_Width :: int
  ch_Height :: int
  ch_Line :: string
  ch_Bars :: "Bar list"
  ch_MaxMs :: int
  ch_Label :: string

definition barStep :: int where "barStep = 4"
definition barsWide :: nat where "barsWide = 30"
definition barHeight :: int where "barHeight = 24"
definition barStub :: int where "barStub = 4"

definition middot :: string where "middot = '' '' @ [CHR 0xC2, CHR 0xB7] @ '' ''"

definition barTitle :: "(time \<Rightarrow> civil) \<Rightarrow> string \<Rightarrow> HourCell \<Rightarrow> State \<Rightarrow> duration \<Rightarrow> string" where
  "barTitle berlin lang cell s step =
     (let start = (if 24 * hourDur \<le> step then day berlin lang (hc_Start cell) else when_text berlin lang (hc_Start cell)) in
      if s = StateUnknown then start @ middot @ T lang ''bars.none''
      else if s = StateDown then start @ middot @ T lang ''leg.down'' @ middot @ pct lang (hc_Uptime cell)
      else start @ middot @ pct lang (hc_Uptime cell))"

definition bar :: "(time \<Rightarrow> civil) \<Rightarrow> duration \<Rightarrow> string \<Rightarrow> nat \<Rightarrow> HourCell \<Rightarrow> Bar" where
  "bar berlin step lang i cell =
     (let (s, y, h) = (case hc_State cell of
            StateUp \<Rightarrow> (StateUp, barHeight - 18, 18)
          | StateDown \<Rightarrow> (StateDown, 0, barHeight)
          | _ \<Rightarrow> (StateUnknown, barHeight - barStub, barStub))
      in \<lparr>b_X = int i * barStep, b_Y = y, b_W = barStep - 1, b_H = h, b_State = s, b_Title = barTitle berlin lang cell s step\<rparr>)"

text \<open>The loop with its counters: up, down, none.\<close>

fun bars_loop ::
    "(time \<Rightarrow> civil) \<Rightarrow> duration \<Rightarrow> string \<Rightarrow> nat \<Rightarrow> HourCell list \<Rightarrow> int \<times> int \<times> int \<Rightarrow> Bar list \<times> int \<times> int \<times> int" where
  "bars_loop berlin step lang i [] n = ([], n)"
| "bars_loop berlin step lang i (cell # cs) (up, down, none) =
     (case bars_loop berlin step lang (Suc i) cs
             (case hc_State cell of
                StateUp \<Rightarrow> (up + 1, down, none) | StateDown \<Rightarrow> (up, down + 1, none) | _ \<Rightarrow> (up, down, none + 1)) of
        (bs, n) \<Rightarrow> (bar berlin step lang i cell # bs, n))"

definition HourBars :: "(time \<Rightarrow> civil) \<Rightarrow> HourCell list \<Rightarrow> duration \<Rightarrow> string \<Rightarrow> Chart" where
  "HourBars berlin cs step lang =
     (case bars_loop berlin step lang 0 cs (0, 0, 0) of (bs, up, down, none) \<Rightarrow>
        let n = int (length cs);
            (key, n1) = (if 24 * hourDur \<le> step then (''bars.d'', n)
                         else if hourDur < step then (''bars.h'', n * (step sdiv hourDur)) else (''bars.h'', n))
        in \<lparr>ch_Width = n * barStep, ch_Height = barHeight, ch_Line = [], ch_Bars = bs, ch_MaxMs = 0,
            ch_Label = Sprintf (T lang key) [ArgInt n1, ArgInt up, ArgInt down, ArgInt none]\<rparr>)"

definition Dense :: "Chart \<Rightarrow> bool" where "Dense c \<longleftrightarrow> barsWide < length (ch_Bars c)"

definition barClass :: "Bar \<Rightarrow> string" where
  "barClass b = (case b_State b of StateUp \<Rightarrow> ''bar-up'' | StateDown \<Rightarrow> ''bar-down'' | _ \<Rightarrow> ''bar-none'')"

section \<open>The line\<close>

definition latWidth :: int where "latWidth = 600"
definition latHeight :: int where "latHeight = 165"
definition latTop :: int where "latTop = 15"

definition MaxY :: "Chart \<Rightarrow> int" where "MaxY c = latTop"

fun scan_ms :: "int list \<Rightarrow> bool \<Rightarrow> int \<Rightarrow> bool \<times> int" where
  "scan_ms [] seen mx = (seen, mx)"
| "scan_ms (v # vs) seen mx = (if 0 \<le> v then scan_ms vs True (max mx v) else scan_ms vs seen mx)"

definition x_of :: "nat \<Rightarrow> nat \<Rightarrow> rat" where
  "x_of n i = (if 1 < n then of_nat i * of_int latWidth / of_nat (n - 1) else of_int latWidth / 2)"

definition y_of :: "int \<Rightarrow> int \<Rightarrow> rat" where
  "y_of mx v = of_int latHeight - of_int v / of_int mx * of_int (latHeight - latTop)"

fun line_loop :: "(nat \<Rightarrow> int \<Rightarrow> string) \<Rightarrow> nat \<Rightarrow> nat \<Rightarrow> int list \<Rightarrow> string" where
  "line_loop pt i run [] = (if run = 1 then ''h0'' else [])"
| "line_loop pt i run (v # vs) =
     (if v < 0 then (if run = 1 then ''h0'' else []) @ line_loop pt (Suc i) 0 vs
      else (if run = 0 then ''M'' else '' '') @ pt i v @ line_loop pt (Suc i) (Suc run) vs)"

definition LatencyLine :: "(rat \<Rightarrow> string) \<Rightarrow> int list \<Rightarrow> string \<Rightarrow> Chart" where
  "LatencyLine fmt ms lang =
     (let c = \<lparr>ch_Width = latWidth, ch_Height = latHeight, ch_Line = [], ch_Bars = [], ch_MaxMs = 0, ch_Label = []\<rparr>;
          (seen, mx) = scan_ms ms False 0 in
      if \<not> seen then c\<lparr>ch_MaxMs := mx, ch_Label := T lang ''lat.none''\<rparr>
      else let pt = (\<lambda>i v. fmt (x_of (length ms) i) @ '','' @ fmt (y_of (max mx 1) v)) in
        c\<lparr>ch_MaxMs := mx, ch_Line := line_loop pt 0 0 ms, ch_Label := Sprintf (T lang ''lat.label'') [ArgInt mx]\<rparr>)"

section \<open>The bars fit and are counted\<close>

lemma bars_loop_spec:
  "bars_loop berlin step lang i hs (up, down, none) =
     (map2 (bar berlin step lang) [i..<i + length hs] hs,
      up + count_where (\<lambda>c. hc_State c = StateUp) hs, down + count_where (\<lambda>c. hc_State c = StateDown) hs,
      none + count_where (\<lambda>c. hc_State c \<notin> {StateUp, StateDown}) hs)"
proof (induction hs arbitrary: i up down none)
  case (Cons c cs)
  have "[i..<i + length (c # cs)] = i # [Suc i..<Suc i + length cs]" by (simp add: upt_conv_Cons del: upt_Suc)
  then show ?case using Cons by (cases "hc_State c") (simp_all add: count_where_def del: upt_Suc)
qed (simp add: count_where_def)

lemma bar_fits:
  assumes "i < n"
  shows "0 \<le> b_X (bar berlin step lang i c) \<and> b_X (bar berlin step lang i c) + b_W (bar berlin step lang i c) < int n * barStep \<and>
    0 \<le> b_Y (bar berlin step lang i c) \<and> b_Y (bar berlin step lang i c) + b_H (bar berlin step lang i c) = barHeight"
  using assms by (auto simp: bar_def Let_def barStep_def barHeight_def barStub_def split: State.splits)

section \<open>The line is drawn per run\<close>

text \<open>The runs of slots with a value, with their numbers, and the path of one run; a single point gets a
  stroke of no length, so that it is visible.\<close>

function runs_of :: "nat \<Rightarrow> int list \<Rightarrow> (nat \<times> int) list list" where
  "runs_of i ms =
     (if ms = [] then []
      else if hd ms < 0 then runs_of (Suc i) (tl ms)
      else let r = takeWhile (\<lambda>v. 0 \<le> v) ms
           in zip [i..<i + length r] r # runs_of (i + length r) (drop (length r) ms))"
  by pat_completeness auto
termination by (relation "measure (\<lambda>(i, ms). length ms)") (auto simp: neq_Nil_conv)

declare runs_of.simps [simp del]

definition segment :: "(nat \<Rightarrow> int \<Rightarrow> string) \<Rightarrow> (nat \<times> int) list \<Rightarrow> string" where
  "segment pt r =
     (case r of
        [] \<Rightarrow> []
      | (i, v) # ps \<Rightarrow> ''M'' @ pt i v @ concat (map (\<lambda>(j, w). '' '' @ pt j w) ps) @ (if ps = [] then ''h0'' else []))"

lemma segment_Cons:
  "segment pt ((i, v) # ps) = ''M'' @ pt i v @ concat (map (\<lambda>(j, w). '' '' @ pt j w) ps) @ (if ps = [] then ''h0'' else [])"
  by (simp add: segment_def)

lemma numbered_Nil: "zip [i..<i + length r] r = [] \<longleftrightarrow> r = []"
  using length_0_conv [of "zip [i..<i + length r] r"] by simp

lemma line_in_run:
  "line_loop pt i (Suc k) ms =
     (let r = takeWhile (\<lambda>v. 0 \<le> v) ms in
      concat (map (\<lambda>(j, w). '' '' @ pt j w) (zip [i..<i + length r] r)) @ (if k = 0 \<and> r = [] then ''h0'' else []) @
      line_loop pt (i + length r) 0 (drop (length r) ms))"
proof (induction ms arbitrary: i k)
  case (Cons v vs)
  show ?case
  proof (cases "v < 0")
    case False
    have "[i..<i + Suc n] = i # [Suc i..<Suc i + n]" for n by (simp add: upt_conv_Cons del: upt_Suc)
    then show ?thesis using False Cons.IH [of "Suc i" "Suc k"] by (simp add: Let_def del: upt_Suc)
  qed simp
qed simp

lemma line_runs: "line_loop pt i 0 ms = concat (map (segment pt) (runs_of i ms))"
proof (induction i ms rule: runs_of.induct)
  case (1 i ms)
  show ?case
  proof (cases ms)
    case Nil
    then show ?thesis by (simp add: runs_of.simps)
  next
    case (Cons v vs)
    show ?thesis
    proof (cases "v < 0")
      case True
      then show ?thesis using 1(1) Cons by (simp add: runs_of.simps [of i "v # vs"])
    next
      case False
      let ?r = "takeWhile (\<lambda>v. 0 \<le> v) vs"
      have up: "[i..<i + Suc n] = i # [Suc i..<Suc i + n]" for n by (simp add: upt_conv_Cons del: upt_Suc)
      have "runs_of i ms = ((i, v) # zip [Suc i..<Suc i + length ?r] ?r) # runs_of (Suc i + length ?r) (drop (length ?r) vs)"
        using False Cons up [of "length ?r"] by (simp add: runs_of.simps [of i "v # vs"] Let_def del: upt_Suc)
      moreover have "line_loop pt (Suc i + length ?r) 0 (drop (length ?r) vs) =
          concat (map (segment pt) (runs_of (Suc i + length ?r) (drop (length ?r) vs)))"
        using 1(2) [OF _ _ refl] False Cons by simp
      ultimately show ?thesis
        using False Cons line_in_run [of pt "Suc i" 0 vs] numbered_Nil [of "Suc i" ?r] by (simp add: segment_Cons Let_def)
    qed
  qed
qed

lemma scan_ms_spec:
  "scan_ms ms seen mx = (s, m) \<Longrightarrow> 0 \<le> mx \<Longrightarrow>
   (s \<longleftrightarrow> seen \<or> (\<exists>v \<in> set ms. 0 \<le> v)) \<and> mx \<le> m \<and> (\<forall>v \<in> set ms. v \<le> m) \<and> (m = mx \<or> m \<in> set ms)"
proof (induction ms arbitrary: seen mx)
  case (Cons v vs)
  then show ?case
  proof (cases "0 \<le> v")
    case True
    then show ?thesis using Cons.IH [of True "max mx v"] Cons.prems by auto
  next
    case False
    then show ?thesis using Cons.IH [of seen mx] Cons.prems by auto
  qed
qed simp

lemma x_of_bounds: "i < n \<Longrightarrow> 0 \<le> x_of n i \<and> x_of n i \<le> 600"
  by (auto simp: x_of_def latWidth_def field_simps)

lemma y_of_bounds: "0 \<le> v \<Longrightarrow> v \<le> mx \<Longrightarrow> 0 < mx \<Longrightarrow> 15 \<le> y_of mx v \<and> y_of mx v \<le> 165"
  by (auto simp: y_of_def latHeight_def latTop_def field_simps)

text \<open>When some slot has a value, the line consists of one path per maximal run of slots with values, in
  order, with a visible stroke for a run of a single slot; the scale is the largest value; and every point
  lies in the drawing area, between the line of the maximum and the base line.\<close>

lemma latency_line:
  assumes "\<exists>v \<in> set ms. 0 \<le> v" and c: "c = LatencyLine fmt ms lang"
  shows "ch_Line c = concat (map (segment (\<lambda>i v. fmt (x_of (length ms) i) @ '','' @ fmt (y_of (max (ch_MaxMs c) 1) v))) (runs_of 0 ms)) \<and>
    ch_MaxMs c \<in> set ms \<and> (\<forall>v \<in> set ms. v \<le> ch_MaxMs c) \<and>
    (\<forall>i < length ms. 0 \<le> ms ! i \<longrightarrow> 0 \<le> x_of (length ms) i \<and> x_of (length ms) i \<le> of_int (ch_Width c) \<and>
       of_int (MaxY c) \<le> y_of (max (ch_MaxMs c) 1) (ms ! i) \<and> y_of (max (ch_MaxMs c) 1) (ms ! i) \<le> of_int (ch_Height c))"
proof -
  obtain s m where scan: "scan_ms ms False 0 = (s, m)" by fastforce
  note sp = scan_ms_spec [OF scan order_refl]
  then have s: s and max: "\<forall>v \<in> set ms. v \<le> m" "0 \<le> m" using assms(1) by auto
  have "m \<in> set ms" using sp assms(1) by force
  have fields: "ch_MaxMs c = m" "ch_Width c = 600" "ch_Height c = 165" "MaxY c = 15"
      "ch_Line c = line_loop (\<lambda>i v. fmt (x_of (length ms) i) @ '','' @ fmt (y_of (max m 1) v)) 0 0 ms"
    using s by (simp_all add: c LatencyLine_def scan latWidth_def latHeight_def MaxY_def latTop_def Let_def)
  have "15 \<le> y_of (max m 1) v \<and> y_of (max m 1) v \<le> 165" if "v \<in> set ms" "0 \<le> v" for v
    using y_of_bounds [of v "max m 1"] max that by auto
  then show ?thesis using fields \<open>m \<in> set ms\<close> max(1) x_of_bounds by (simp add: line_runs)
qed

end
