(* ===== verification/Web_Server.thy ===== *)
theory Web_Server
  imports Web_Admin_Props Metrics Migrate Chart
begin

text \<open>
  The web server around the handlers, \<^verbatim>\<open>internal/web/server.go\<close>, \<^verbatim>\<open>render.go\<close> and the rest of \<^verbatim>\<open>public.go\<close>: routes,
  response headers, the panic handler, the error pages, static files, the health check and the cached
  pages. A request has the segments of its cleaned and decoded path (for other paths the mux of the
  standard library answers with a redirect). What a handler does is a \<open>run\<close>: a response, nothing, or a panic.
  The template engine, the JSON encoder, the embedded files and the zone data are the argument \<open>x\<close>.
\<close>

section \<open>Requests and responses\<close>

record http_req =
  hq_method :: string
  hq_segs :: "string list"
  hq_hasV :: bool
  hq_range :: string
  hq_auth :: string
  hq_site :: string
  hq_origin :: string
  hq_host :: string
  hq_canceled :: bool
  hq_req :: request

record resp =
  rs_status :: int
  rs_header :: "string \<rightharpoonup> string"
  rs_cookies :: "cookie list"
  rs_body :: string

text \<open>A panic that aborts the request, or another one, with what was written before.\<close>

datatype run = Sent resp | Silent | Panicked bool "resp option"

record Page =
  pg_Title :: string
  pg_Lang :: string
  pg_AltURL :: string
  pg_Path :: string
  pg_Version :: string
  pg_CSRF :: string
  pg_Admin :: bool
  pg_Flash :: string
  pg_FlashWarn :: bool

text \<open>The pages of the admin area.\<close>

record LoginPage =
  lp_Page :: Page
  lp_Username :: string
  lp_Error :: string

record AdminListPage =
  al_Page :: Page
  al_Targets :: "AdminTargetRow list"
  al_MailOK :: bool

record TargetForm =
  tf_Page :: Page
  tf_ID :: int
  tf_Name :: string
  tf_Kind :: string
  tf_Address :: string
  tf_ExpectStatus :: string
  tf_Keyword :: string
  tf_ConnectTo :: string
  tf_IntervalS :: int
  tf_TimeoutMs :: int
  tf_FailThreshold :: int
  tf_Public :: bool
  tf_Paused :: bool
  tf_Errors :: "string \<rightharpoonup> string"

text \<open>The templates with their data.\<close>

datatype page =
    StatusTmpl Page StatusPage "Chart list"
  | DetailTmpl Page DetailPage Chart Chart
  | NotFoundTmpl Page
  | ErrorTmpl Page
  | LoginTmpl LoginPage
  | ListTmpl AdminListPage
  | FormTmpl TargetForm

record webctx =
  x_env :: webenv
  x_execute :: "page \<Rightarrow> string option"
  x_json :: "apiTarget list \<Rightarrow> string"
  x_berlin :: "time \<Rightarrow> civil"
  x_fmt :: "rat \<Rightarrow> string"
  x_token :: string
  x_version :: string
  x_open :: "string \<Rightarrow> bool option"
  x_serve :: "string \<Rightarrow> string \<Rightarrow> int \<times> string option \<times> string"
  x_originHost :: "string \<Rightarrow> string option"

definition urlPath :: "http_req \<Rightarrow> string" where
  "urlPath q = concat (map (\<lambda>s. ''/'' @ s) (hq_segs q))"

definition hasPrefix :: "string \<Rightarrow> string \<Rightarrow> bool" where "hasPrefix s p \<longleftrightarrow> take (length p) s = p"

definition req_lang :: "http_req \<Rightarrow> string" where
  "req_lang q = (if urlPath q = ''/en'' \<or> hasPrefix (urlPath q) ''/en/'' then ''en'' else ''de'')"

section \<open>Rendering and errors\<close>

definition htmlType :: string where "htmlType = ''text/html; charset=utf-8''"

definition body_resp :: "int \<Rightarrow> string \<Rightarrow> string \<Rightarrow> resp" where
  "body_resp code ctype body =
     \<lparr>rs_status = code, rs_header = [''Content-Type'' \<mapsto> ctype, ''Content-Length'' \<mapsto> Itoa (int (length body))], rs_cookies = [], rs_body = body\<rparr>"

definition Render :: "webctx \<Rightarrow> int \<Rightarrow> page \<Rightarrow> resp option" where
  "Render x code p = map_option (body_resp code htmlType) (x_execute x p)"

definition http_Error :: "int \<Rightarrow> string \<Rightarrow> resp" where
  "http_Error code msg =
     \<lparr>rs_status = code, rs_header = [''Content-Type'' \<mapsto> ''text/plain; charset=utf-8'', ''X-Content-Type-Options'' \<mapsto> ''nosniff''],
      rs_cookies = [], rs_body = msg @ nl\<rparr>"

definition errPage :: "webctx \<Rightarrow> http_req \<Rightarrow> string \<Rightarrow> Page" where
  "errPage x q key =
     \<lparr>pg_Title = T (req_lang q) key, pg_Lang = req_lang q, pg_AltURL = [], pg_Path = [], pg_Version = x_version x, pg_CSRF = [], pg_Admin = False, pg_Flash = [], pg_FlashWarn = False\<rparr>"

definition notFound :: "webctx \<Rightarrow> http_req \<Rightarrow> run" where
  "notFound x q = (case Render x 404 (NotFoundTmpl (errPage x q ''nf.title'')) of Some r \<Rightarrow> Sent r | None \<Rightarrow> Silent)"

definition errorPage :: "webctx \<Rightarrow> http_req \<Rightarrow> run" where
  "errorPage x q =
     (case Render x 500 (ErrorTmpl (errPage x q ''err.title'')) of
        Some r \<Rightarrow> Sent r | None \<Rightarrow> Sent (http_Error 500 ''interner fehler''))"

text \<open>An error that comes from the client going away (\<open>hq_canceled\<close>) is not answered; the cached pages are built in a
  context that this does not cancel. \<open>ErrPanic\<close> stands for a panic of the code that was
  called, which unwinds the handler.\<close>

definition req_fail :: "webctx \<Rightarrow> http_req \<Rightarrow> store_err \<Rightarrow> run" where
  "req_fail x q e =
     (if e = ErrPanic then Panicked False None else if e = ErrDriver \<and> hq_canceled q then Silent else errorPage x q)"

definition render :: "webctx \<Rightarrow> http_req \<Rightarrow> int \<Rightarrow> page \<Rightarrow> run" where
  "render x q code p = (case Render x code p of Some r \<Rightarrow> Sent r | None \<Rightarrow> errorPage x q)"

definition recover :: "webctx \<Rightarrow> http_req \<Rightarrow> run \<Rightarrow> run" where
  "recover x q out =
     (case out of
        Panicked abort wrote \<Rightarrow>
          if abort then out else (case wrote of None \<Rightarrow> errorPage x q | Some r \<Rightarrow> Sent r)
      | _ \<Rightarrow> out)"

section \<open>Headers\<close>

definition csp :: string where
  "csp = ''default-src '' @ [CHR 0x27] @ ''none'' @ [CHR 0x27] @ ''; script-src '' @ [CHR 0x27] @ ''self'' @ [CHR 0x27] @
     ''; style-src '' @ [CHR 0x27] @ ''self'' @ [CHR 0x27] @ ''; img-src '' @ [CHR 0x27] @ ''self'' @ [CHR 0x27] @
     ''; connect-src '' @ [CHR 0x27] @ ''self'' @ [CHR 0x27] @ ''; form-action '' @ [CHR 0x27] @ ''self'' @ [CHR 0x27] @
     ''; base-uri '' @ [CHR 0x27] @ ''none'' @ [CHR 0x27] @ ''; frame-ancestors '' @ [CHR 0x27] @ ''none'' @ [CHR 0x27]"

definition secHeaders :: "string \<rightharpoonup> string" where
  "secHeaders =
     [''Content-Security-Policy'' \<mapsto> csp, ''X-Frame-Options'' \<mapsto> ''DENY'', ''X-Content-Type-Options'' \<mapsto> ''nosniff'',
      ''Referrer-Policy'' \<mapsto> ''same-origin'', ''Cross-Origin-Opener-Policy'' \<mapsto> ''same-origin'',
      ''Permissions-Policy'' \<mapsto> ''camera=(), microphone=(), geolocation=(), payment=(), usb=()'']"

definition privatePath :: "string \<Rightarrow> bool" where
  "privatePath p \<longleftrightarrow> p = ''/admin'' \<or> hasPrefix p ''/admin/'' \<or> p = ''/metrics'' \<or> p = ''/healthz''"

definition baseHeaders :: "string \<Rightarrow> string \<rightharpoonup> string" where
  "baseHeaders p =
     (if privatePath p then secHeaders(''Cache-Control'' \<mapsto> ''no-store'')
      else if hasPrefix p ''/static/'' then secHeaders
      else secHeaders(''Cache-Control'' \<mapsto> ''no-cache''))"

text \<open>What a handler sets comes on top; a handler that wrote nothing is answered with an empty 200.\<close>

definition headers :: "http_req \<Rightarrow> run \<Rightarrow> run" where
  "headers q out =
     (case out of
        Sent r \<Rightarrow> Sent (r\<lparr>rs_header := baseHeaders (urlPath q) ++ rs_header r\<rparr>)
      | Silent \<Rightarrow> Sent \<lparr>rs_status = 200, rs_header = baseHeaders (urlPath q), rs_cookies = [], rs_body = []\<rparr>
      | Panicked _ _ \<Rightarrow> out)"

section \<open>Public pages\<close>

definition statusPath :: "string \<Rightarrow> string" where "statusPath lang = base lang @ ''/''"

definition detailPath :: "string \<Rightarrow> int \<Rightarrow> string \<Rightarrow> string" where
  "detailPath lang i rng = base lang @ ''/ziel/'' @ Itoa i @ (if rng \<noteq> ''24h'' then ''?r='' @ rng else [])"

definition other :: "string \<Rightarrow> string" where "other lang = (if lang = ''en'' then ''de'' else ''en'')"

definition fromCache ::
    "webctx \<Rightarrow> time \<Rightarrow> http_req \<Rightarrow> string \<Rightarrow> string \<Rightarrow> (string server \<Rightarrow> string result \<times> string server) \<Rightarrow> string server \<Rightarrow> run \<times> string server" where
  "fromCache x now q key ctype build s =
     (let c = (case sv_cache s key of None \<Rightarrow> \<lparr>c_body = None, c_at_time = zeroTime\<rparr> | Some c \<Rightarrow> c) in
      case cached_get now build (c, s\<lparr>sv_cache := (sv_cache s)(key \<mapsto> c)\<rparr>) of
        (r, c1, s1) \<Rightarrow>
          ((case r of Inl e \<Rightarrow> req_fail x (q\<lparr>hq_canceled := False\<rparr>) e | Inr body \<Rightarrow> Sent (body_resp 200 ctype body)), s1\<lparr>sv_cache := (sv_cache s1)(key \<mapsto> c1)\<rparr>))"

definition executed :: "webctx \<Rightarrow> page \<Rightarrow> string result" where
  "executed x p = (case x_execute x p of None \<Rightarrow> Inl ErrDriver | Some b \<Rightarrow> Inr b)"

definition status_html :: "webctx \<Rightarrow> time \<Rightarrow> string \<Rightarrow> string server \<Rightarrow> string result \<times> string server" where
  "status_html x now lang s =
     (case on_db (status_build now) s of
        (Inl e, s1) \<Rightarrow> (Inl e, s1)
      | (Inr p, s1) \<Rightarrow>
          (executed x (StatusTmpl
             \<lparr>pg_Title = ''Status'', pg_Lang = lang, pg_AltURL = statusPath (other lang), pg_Path = statusPath lang, pg_Version = x_version x, pg_CSRF = [], pg_Admin = False, pg_Flash = [], pg_FlashWarn = False\<rparr>
             p (map (\<lambda>r. HourBars (x_berlin x) (tr_Hours r) hourDur lang) (sp_Targets p))), s1))"

definition status :: "webctx \<Rightarrow> time \<Rightarrow> string \<Rightarrow> http_req \<Rightarrow> string server \<Rightarrow> run \<times> string server" where
  "status x now lang q = fromCache x now q (''status/'' @ lang) htmlType (status_html x now lang)"

definition api_json :: "webctx \<Rightarrow> time \<Rightarrow> string server \<Rightarrow> string result \<times> string server" where
  "api_json x now s = (case on_db (api_build now) s of (Inl e, s1) \<Rightarrow> (Inl e, s1) | (Inr ts, s1) \<Rightarrow> (Inr (x_json x ts), s1))"

definition api :: "webctx \<Rightarrow> time \<Rightarrow> http_req \<Rightarrow> string server \<Rightarrow> run \<times> string server" where
  "api x now q = fromCache x now q ''api'' ''application/json'' (api_json x now)"

definition detail_html :: "webctx \<Rightarrow> string \<Rightarrow> http_req \<Rightarrow> DetailPage \<Rightarrow> run" where
  "detail_html x lang q p =
     (let r = dp_Target p; rng = dp_Range p; step = p_step (the (periods rng)) in
      render x q 200 (DetailTmpl
        \<lparr>pg_Title = tr_Name r, pg_Lang = lang, pg_AltURL = detailPath (other lang) (tr_ID r) rng, pg_Path = detailPath lang (tr_ID r) rng,
         pg_Version = x_version x, pg_CSRF = [], pg_Admin = False, pg_Flash = [], pg_FlashWarn = False\<rparr>
        p (HourBars (x_berlin x) (tr_Hours r) step lang) (LatencyLine (x_fmt x) (dp_Latency p) lang)))"

definition detail_req :: "webctx \<Rightarrow> time \<Rightarrow> string \<Rightarrow> string \<Rightarrow> http_req \<Rightarrow> string server \<Rightarrow> run \<times> string server" where
  "detail_req x now lang pid q s =
     (case detail now (pathID pid) (hq_range q) (store_of s) of
        (a, d) \<Rightarrow>
          ((case a of NotFound \<Rightarrow> notFound x q | Failed e \<Rightarrow> req_fail x q e | Answer p \<Rightarrow> detail_html x lang q p), with_store d s))"

definition metrics_req :: "webctx \<Rightarrow> http_req \<Rightarrow> string server \<Rightarrow> run \<times> string server" where
  "metrics_req x q s =
     (case metrics (e_sha256 (x_env x)) (x_token x) (x_version x) (hq_auth q) s of
        (Unauthorized, s1) \<Rightarrow>
          (Sent ((http_Error 401 ''nicht angemeldet'')\<lparr>rs_header := (rs_header (http_Error 401 ''nicht angemeldet''))(''WWW-Authenticate'' \<mapsto> ''Bearer'')\<rparr>), s1)
      | (MetricsFail e, s1) \<Rightarrow> (req_fail x q e, s1)
      | (MetricsText body, s1) \<Rightarrow>
          (Sent \<lparr>rs_status = 200, rs_header = [''Content-Type'' \<mapsto> ''text/plain; version=0.0.4; charset=utf-8''], rs_cookies = [], rs_body = body\<rparr>, s1))"

definition healthz :: "http_req \<Rightarrow> string server \<Rightarrow> run \<times> string server" where
  "healthz q s =
     (case on_db Ping s of
        (Inl e, s1) \<Rightarrow>
          (Sent \<lparr>rs_status = 503, rs_header = [''Content-Type'' \<mapsto> ''text/plain; charset=utf-8''], rs_cookies = [], rs_body = ''db nicht erreichbar'' @ nl\<rparr>, s1)
      | (Inr _, s1) \<Rightarrow>
          (Sent \<lparr>rs_status = 200, rs_header = [''Content-Type'' \<mapsto> ''text/plain; charset=utf-8''], rs_cookies = [], rs_body = ''ok'' @ nl\<rparr>, s1))"

section \<open>Static files\<close>

definition pathExt :: "string \<Rightarrow> string" where
  "pathExt s =
     (let b = rev (takeWhile (\<lambda>c. c \<noteq> CHR ''/'') (rev s))
      in if CHR ''.'' \<in> set b then CHR ''.'' # rev (takeWhile (\<lambda>c. c \<noteq> CHR ''.'') (rev b)) else [])"

definition staticTypes :: "string \<rightharpoonup> string" where
  "staticTypes =
     [''.css'' \<mapsto> ''text/css; charset=utf-8'', ''.js'' \<mapsto> ''text/javascript; charset=utf-8'', ''.svg'' \<mapsto> ''image/svg+xml'']"

definition immutable :: string where "immutable = ''public, max-age=31536000, immutable''"

definition with_cache :: "string \<Rightarrow> run \<Rightarrow> run" where
  "with_cache v out =
     (case out of
        Sent r \<Rightarrow> Sent (r\<lparr>rs_header := [''Cache-Control'' \<mapsto> v] ++ rs_header r\<rparr>)
      | Silent \<Rightarrow> Sent \<lparr>rs_status = 200, rs_header = [''Cache-Control'' \<mapsto> v], rs_cookies = [], rs_body = []\<rparr>
      | _ \<Rightarrow> out)"

text \<open>\<^verbatim>\<open>http.ServeFileFS\<close> answers with the file, a part of it or that it is unchanged, and decides on the type; its
  errors drop the header for caches.\<close>

definition static_req :: "webctx \<Rightarrow> string \<Rightarrow> http_req \<Rightarrow> run" where
  "static_req x name q =
     (case staticTypes (pathExt name) of
        None \<Rightarrow> with_cache ''no-cache'' (notFound x q)
      | Some ct \<Rightarrow>
          (case x_open x name of
             Some False \<Rightarrow>
               (case x_serve x name ct of (code, t, body) \<Rightarrow>
                  if 400 \<le> code then Sent (http_Error code body)
                  else with_cache (if hq_hasV q then immutable else ''no-cache'')
                         (Sent \<lparr>rs_status = code, rs_header = Map.empty(''Content-Type'' := t), rs_cookies = [], rs_body = body\<rparr>))
           | _ \<Rightarrow> with_cache ''no-cache'' (notFound x q)))"

section \<open>Replies of the admin area\<close>

definition redirect :: "http_req \<Rightarrow> string \<Rightarrow> int \<Rightarrow> string \<Rightarrow> resp" where
  "redirect q loc code txt =
     (let isGet = (hq_method q = ''GET''); known = (isGet \<or> hq_method q = ''HEAD'')
      in \<lparr>rs_status = code,
          rs_header = (if known then [''Location'' \<mapsto> loc, ''Content-Type'' \<mapsto> htmlType] else [''Location'' \<mapsto> loc]), rs_cookies = [],
          rs_body = (if isGet then ''<a href='' @ dq @ loc @ dq @ ''>'' @ txt @ ''</a>.'' @ nl @ nl else [])\<rparr>)"

definition add_reply :: "reply \<Rightarrow> run \<Rightarrow> run" where
  "add_reply rp out =
     (let h = (case rp_retryAfter rp of None \<Rightarrow> Map.empty | Some n \<Rightarrow> [''Retry-After'' \<mapsto> Itoa n]) in
      case out of
        Sent r \<Rightarrow> Sent (r\<lparr>rs_header := h ++ rs_header r, rs_cookies := rp_cookies rp\<rparr>)
      | Silent \<Rightarrow> Sent \<lparr>rs_status = 200, rs_header = h, rs_cookies = rp_cookies rp, rs_body = []\<rparr>
      | _ \<Rightarrow> out)"

text \<open>The data of the admin pages. A view names its texts by their keys; here they are looked up.\<close>

definition adminPage :: "webctx \<Rightarrow> string \<Rightarrow> string \<Rightarrow> string \<Rightarrow> Page" where
  "adminPage x title path csrf =
     \<lparr>pg_Title = title, pg_Lang = ''de'', pg_AltURL = [], pg_Path = path, pg_Version = x_version x, pg_CSRF = csrf, pg_Admin = True,
      pg_Flash = [], pg_FlashWarn = False\<rparr>"

definition loginPage :: "webctx \<Rightarrow> string \<Rightarrow> Page" where
  "loginPage x csrf =
     \<lparr>pg_Title = ''Anmelden'', pg_Lang = ''de'', pg_AltURL = [], pg_Path = ''/admin/login'', pg_Version = x_version x, pg_CSRF = csrf,
      pg_Admin = False, pg_Flash = [], pg_FlashWarn = False\<rparr>"

definition login_data :: "webctx \<Rightarrow> string \<Rightarrow> string \<Rightarrow> string \<Rightarrow> LoginPage" where
  "login_data x csrf user err =
     \<lparr>lp_Page = loginPage x csrf, lp_Username = user, lp_Error = (if err = [] then [] else T ''de'' err)\<rparr>"

definition list_data :: "webctx \<Rightarrow> AdminTargetRow list \<Rightarrow> (string \<times> bool) option \<Rightarrow> bool \<Rightarrow> string \<Rightarrow> AdminListPage" where
  "list_data x rows flash mailOK csrf =
     (let p = adminPage x ''Ziele'' ''/admin/'' csrf in
      \<lparr>al_Page = (case flash of None \<Rightarrow> p | Some (key, warn) \<Rightarrow> p\<lparr>pg_Flash := T ''de'' key, pg_FlashWarn := warn\<rparr>),
       al_Targets = rows, al_MailOK = mailOK\<rparr>)"

definition formPage :: "webctx \<Rightarrow> Target \<Rightarrow> string \<Rightarrow> Page" where
  "formPage x t csrf =
     (if ID t = 0 then adminPage x ''Ziel anlegen'' ''/admin/ziel/neu'' csrf
      else adminPage x ''Ziel bearbeiten'' (''/admin/ziel/'' @ Itoa (ID t)) csrf)"

definition form :: "Page \<Rightarrow> Target \<Rightarrow> (string \<rightharpoonup> string) \<Rightarrow> TargetForm" where
  "form p t errs =
     \<lparr>tf_Page = p, tf_ID = ID t, tf_Name = Name t, tf_Kind = Kind t, tf_Address = Address t, tf_ExpectStatus = ExpectStatus t,
      tf_Keyword = Keyword t, tf_ConnectTo = ConnectTo t, tf_IntervalS = IntervalS t, tf_TimeoutMs = TimeoutMs t,
      tf_FailThreshold = FailThreshold t, tf_Public = Public t, tf_Paused = Paused t, tf_Errors = errs\<rparr>"

definition view_run :: "webctx \<Rightarrow> http_req \<Rightarrow> view \<Rightarrow> run" where
  "view_run x q v =
     (case v of
        Redirect loc \<Rightarrow> Sent (redirect q loc 303 ''See Other'')
      | NotFoundPage \<Rightarrow> notFound x q
      | ErrorPage \<Rightarrow> req_fail x q ErrDriver
      | BadForm \<Rightarrow> Sent (http_Error 400 (''Formular ung'' @ [CHR 0xC3, CHR 0xBC] @ ''ltig''))
      | NoReply \<Rightarrow> Silent
      | LoginView code csrf user err \<Rightarrow> render x q code (LoginTmpl (login_data x csrf user err))
      | ListView rows flash mailOK csrf \<Rightarrow> render x q 200 (ListTmpl (list_data x rows flash mailOK csrf))
      | FormView code t errs csrf \<Rightarrow> render x q code (FormTmpl (form (formPage x t csrf) t errs)))"

definition reply_run :: "webctx \<Rightarrow> http_req \<Rightarrow> reply \<times> string server \<Rightarrow> run \<times> string server" where
  "reply_run x q rs = (case rs of (rp, s) \<Rightarrow> (add_reply rp (view_run x q (rp_view rp)), s))"

section \<open>Routes\<close>

datatype place =
    PStatus string
  | PDetail string string
  | PApi
  | PHealthz
  | PMetrics
  | PStatic string
  | PMoved string int string
  | PLoginForm
  | PLogin
  | PAdmin route string
  | PNotFound

fun joinSlash :: "string list \<Rightarrow> string" where
  "joinSlash [] = []"
| "joinSlash [s] = s"
| "joinSlash (s # ss) = s @ ''/'' @ joinSlash ss"

text \<open>The patterns for \<^verbatim>\<open>GET\<close>, which also serve \<^verbatim>\<open>HEAD\<close>; a path that lacks only the slash of a pattern is moved
  (the query that the new address takes over is left out).\<close>

definition mux_get :: "bool \<Rightarrow> string list \<Rightarrow> place" where
  "mux_get hasToken segs =
     (if segs = [[]] then PStatus ''de''
      else if segs = [''en'', []] then PStatus ''en''
      else if segs = [''en''] then PMoved ''/en/'' 307 ''Temporary Redirect''
      else if segs = [''static''] then PMoved ''/static/'' 307 ''Temporary Redirect''
      else if length segs = 2 \<and> segs ! 0 = ''ziel'' \<and> segs ! 1 \<noteq> [] then PDetail ''de'' (segs ! 1)
      else if length segs = 3 \<and> take 2 segs = [''en'', ''ziel''] \<and> segs ! 2 \<noteq> [] then PDetail ''en'' (segs ! 2)
      else if segs = [''api'', ''status.json''] then PApi
      else if segs = [''healthz''] then PHealthz
      else if segs = [''metrics''] \<and> hasToken then PMetrics
      else if 2 \<le> length segs \<and> segs ! 0 = ''static'' then PStatic (joinSlash (tl segs))
      else if segs = [''admin''] then PMoved ''/admin/'' 301 ''Moved Permanently''
      else if segs = [''admin'', ''login''] then PLoginForm
      else if segs = [''admin'', []] then PAdmin RList []
      else if segs = [''admin'', ''ziel'', ''neu''] then PAdmin RNewForm []
      else if length segs = 3 \<and> take 2 segs = [''admin'', ''ziel''] \<and> segs ! 2 \<noteq> [] then PAdmin REditForm (segs ! 2)
      else PNotFound)"

definition mux_post :: "string list \<Rightarrow> place" where
  "mux_post segs =
     (if segs = [''admin'', ''login''] then PLogin
      else if segs = [''admin'', ''logout''] then PAdmin RLogout []
      else if segs = [''admin'', ''ziel'', ''neu''] then PAdmin RSaveNew []
      else if segs = [''admin'', ''testmail''] then PAdmin RTestMail []
      else if length segs = 3 \<and> take 2 segs = [''admin'', ''ziel''] \<and> segs ! 2 \<noteq> [] then PAdmin RSave (segs ! 2)
      else if length segs = 4 \<and> take 2 segs = [''admin'', ''ziel''] \<and> segs ! 2 \<noteq> []
      then if segs ! 3 = ''pause'' then PAdmin RPause (segs ! 2)
           else if segs ! 3 = ''pruefen'' then PAdmin RCheckNow (segs ! 2)
           else if segs ! 3 = ''loeschen'' then PAdmin RRemove (segs ! 2)
           else PNotFound
      else PNotFound)"

definition mux :: "bool \<Rightarrow> http_req \<Rightarrow> place" where
  "mux hasToken q =
     (if hq_method q = ''GET'' \<or> hq_method q = ''HEAD'' then mux_get hasToken (hq_segs q)
      else if hq_method q = ''POST'' then mux_post (hq_segs q)
      else PNotFound)"

fun serve_place :: "webctx \<Rightarrow> random \<Rightarrow> time \<Rightarrow> place \<Rightarrow> http_req \<Rightarrow> string server \<Rightarrow> run \<times> string server" where
  "serve_place x rn now (PStatus lang) q s = status x now lang q s"
| "serve_place x rn now (PDetail lang pid) q s = detail_req x now lang pid q s"
| "serve_place x rn now PApi q s = api x now q s"
| "serve_place x rn now PHealthz q s = healthz q s"
| "serve_place x rn now PMetrics q s = metrics_req x q s"
| "serve_place x rn now (PStatic name) q s = (static_req x name q, s)"
| "serve_place x rn now (PMoved loc code txt) q s = (Sent (redirect q loc code txt), s)"
| "serve_place x rn now PLoginForm q s = reply_run x q (loginForm (x_env x) rn (hq_req q) s)"
| "serve_place x rn now PLogin q s = reply_run x q (login (x_env x) rn now (hq_req q) s)"
| "serve_place x rn now (PAdmin r pid) q s = reply_run x q (admin_route (x_env x) rn now r ((hq_req q)\<lparr>rq_id := pid\<rparr>) s)"
| "serve_place x rn now PNotFound q s = (notFound x q, s)"

section \<open>The whole handler\<close>

text \<open>\<^verbatim>\<open>http.CrossOriginProtection\<close> without exemptions: the error with which a request is refused.\<close>

definition crossOrigin :: "(string \<Rightarrow> string option) \<Rightarrow> http_req \<Rightarrow> string option" where
  "crossOrigin originHost q =
     (if hq_method q \<in> {''GET'', ''HEAD'', ''OPTIONS''} then None
      else if hq_site q \<noteq> []
      then if hq_site q = ''same-origin'' \<or> hq_site q = ''none'' then None
           else Some ''cross-origin request detected from Sec-Fetch-Site header''
      else if hq_origin q = [] \<or> originHost (hq_origin q) = Some (hq_host q) then None
      else Some ''cross-origin request detected, and/or browser is out of date: Sec-Fetch-Site is missing, and Origin does not match Host'')"

definition handler :: "webctx \<Rightarrow> random \<Rightarrow> time \<Rightarrow> http_req \<Rightarrow> string server \<Rightarrow> run \<times> string server" where
  "handler x rn now q s =
     (case (case crossOrigin (x_originHost x) q of
              Some msg \<Rightarrow> (Sent (http_Error 403 msg), s)
            | None \<Rightarrow> serve_place x rn now (mux (x_token x \<noteq> []) q) q s) of
        (out, s1) \<Rightarrow> (headers q (recover x q out), s1))"

section \<open>Every response has the security headers\<close>

text \<open>The headers that handlers set: none of the fixed ones with another value, and caching only for static files.\<close>

definition ownHeaders :: "string set" where
  "ownHeaders = {''Content-Type'', ''Content-Length'', ''Location'', ''Retry-After'', ''WWW-Authenticate''}"

definition tame_map :: "bool \<Rightarrow> (string \<rightharpoonup> string) \<Rightarrow> bool" where
  "tame_map isStatic h \<longleftrightarrow>
     (\<forall>k v. h k = Some v \<longrightarrow> k \<in> ownHeaders \<or> k = ''X-Content-Type-Options'' \<and> v = ''nosniff'' \<or> isStatic \<and> k = ''Cache-Control'')"

definition tame :: "bool \<Rightarrow> run \<Rightarrow> bool" where
  "tame isStatic out \<longleftrightarrow> (case out of Sent r \<Rightarrow> tame_map isStatic (rs_header r) | Silent \<Rightarrow> True | Panicked _ w \<Rightarrow> w = None)"

lemma tame_basic:
  "tame b (Sent (body_resp code ct body))" "tame b (Sent (http_Error code msg))" "tame b (Sent (redirect q loc code txt))"
  by (auto simp: tame_def tame_map_def ownHeaders_def body_resp_def http_Error_def redirect_def Let_def split: if_splits)

lemma tame_errors: "tame b (errorPage x q)" "tame b (notFound x q)" "tame b (render x q code p)" "tame b (req_fail x q e)"
proof -
  show e: "tame b (errorPage x q)"
    unfolding errorPage_def Render_def by (cases "x_execute x (ErrorTmpl (errPage x q ''err.title''))") (simp_all add: tame_basic)
  show "tame b (notFound x q)"
    unfolding notFound_def Render_def by (cases "x_execute x (NotFoundTmpl (errPage x q ''nf.title''))") (simp_all add: tame_basic tame_def [of b Silent])
  show "tame b (render x q code p)"
    unfolding render_def Render_def by (cases "x_execute x p") (simp_all add: tame_basic e)
  show "tame b (req_fail x q e)"
    using \<open>tame b (errorPage x q)\<close> by (simp add: req_fail_def) (simp add: tame_def)
qed

lemma tame_add: "tame_map b h \<Longrightarrow> tame_map b h' \<Longrightarrow> tame_map b (h ++ h')"
  by (auto simp: tame_map_def map_add_Some_iff)

lemma tame_reply: "tame b out \<Longrightarrow> tame b (add_reply rp out)"
proof -
  have h: "tame_map b (case rp_retryAfter rp of None \<Rightarrow> Map.empty | Some n \<Rightarrow> [''Retry-After'' \<mapsto> Itoa n])"
    by (auto simp: tame_map_def ownHeaders_def split: option.split)
  show "tame b out \<Longrightarrow> tame b (add_reply rp out)"
    using h by (cases out) (auto simp: add_reply_def tame_def Let_def intro: tame_add)
qed

lemma tame_view: "tame b (view_run x q v)"
  by (cases v) (simp_all add: view_run_def tame_basic tame_errors, simp add: tame_def)

lemma tame_cached: "tame b (fst (fromCache x now q key ctype build s))"
  by (auto simp: fromCache_def Let_def tame_basic tame_errors split: prod.split sum.split)

lemma tame_static: "tame True (static_req x name q)"
proof -
  have c: "tame True (with_cache v out)" if "tame True out" for v out
    using that by (cases out) (auto simp: with_cache_def tame_def tame_map_def intro!: tame_add)
  show ?thesis
    by (auto simp: static_req_def tame_errors tame_basic split: option.split prod.split bool.split intro!: c)
      (simp_all add: tame_def tame_map_def ownHeaders_def)
qed

lemma tame_place: "tame (case p of PStatic _ \<Rightarrow> True | _ \<Rightarrow> False) (fst (serve_place x rn now p q s))"
proof (cases p)
  case PMetrics
  have "tame False (Sent \<lparr>rs_status = n, rs_header = [''Content-Type'' \<mapsto> ct], rs_cookies = [], rs_body = b\<rparr>)" for n ct b
    by (simp add: tame_def tame_map_def ownHeaders_def)
  moreover have "tame False (Sent ((http_Error 401 m)\<lparr>rs_header := (rs_header (http_Error 401 m))(''WWW-Authenticate'' \<mapsto> ''Bearer'')\<rparr>))" for m
    by (auto simp: tame_def tame_map_def ownHeaders_def http_Error_def)
  ultimately show ?thesis using PMetrics by (simp add: metrics_req_def tame_errors split: prod.split metrics_answer.split)
next
  case PHealthz
  then show ?thesis by (auto simp: healthz_def tame_def tame_map_def ownHeaders_def split: prod.split sum.split)
next
  case (PDetail lang pid)
  then show ?thesis by (auto simp: detail_req_def detail_html_def Let_def tame_errors split: prod.split answer.split)
qed (simp_all add: status_def api_def tame_cached tame_static tame_basic tame_errors reply_run_def tame_reply tame_view split: prod.split)

lemma static_place: "mux b q = PStatic name \<Longrightarrow> hasPrefix (urlPath q) ''/static/''"
proof -
  assume "mux b q = PStatic name"
  then have "2 \<le> length (hq_segs q)" "hq_segs q ! 0 = ''static''"
    by (auto simp: mux_def mux_get_def mux_post_def split: if_splits)
  then obtain t ts where "hq_segs q = ''static'' # t # ts" by (cases "hq_segs q" rule: list.exhaust; cases "tl (hq_segs q)") auto
  then show ?thesis by (simp add: hasPrefix_def urlPath_def)
qed

lemma hasPrefix_nth: "hasPrefix s p \<Longrightarrow> i < length p \<Longrightarrow> s ! i = p ! i"
  unfolding hasPrefix_def by (metis nth_take)

lemma static_not_private: "hasPrefix p ''/static/'' \<Longrightarrow> \<not> privatePath p"
  using hasPrefix_nth [of p "''/static/''" 1] hasPrefix_nth [of p "''/admin/''" 1] by (auto simp: privatePath_def)

lemma recover_tame: "tame b out \<Longrightarrow> tame b (recover x q out)"
  by (auto simp: recover_def tame_errors split: run.split option.split) (simp add: tame_def)

lemma tame_uncached: "tame False (Sent r) \<Longrightarrow> rs_header r ''Cache-Control'' = None"
  by (cases "rs_header r ''Cache-Control''") (auto simp: tame_def tame_map_def ownHeaders_def)

lemma static_immutable:
  assumes "recover x q (static_req x name q) = Sent r" and "rs_header r ''Cache-Control'' = Some immutable"
  shows "hq_hasV q \<and> x_open x name = Some False"
proof (rule ccontr)
  assume no: "\<not> (hq_hasV q \<and> x_open x name = Some False)"
  have miss: "rs_header r' ''Cache-Control'' = Some v" if "recover x q (with_cache v out) = Sent r'" "tame False out" "\<forall>a w. out \<noteq> Panicked a w" for v out r'
    using that tame_uncached by (cases out) (auto simp: with_cache_def recover_def map_add_def)
  have nf: "\<forall>a w. notFound x q \<noteq> Panicked a w" by (simp add: notFound_def split: option.split)
  have plain: "tame False (Sent \<lparr>rs_status = c, rs_header = Map.empty(''Content-Type'' := t), rs_cookies = [], rs_body = b\<rparr>)" for c t b
    by (simp add: tame_def tame_map_def ownHeaders_def)
  have err: "rs_header (http_Error c b) ''Cache-Control'' = None" for c b by (simp add: http_Error_def)
  have "rs_header r ''Cache-Control'' = Some ''no-cache'' \<or> rs_header r ''Cache-Control'' = None"
    using assms(1) no miss [OF _ tame_errors(2) nf] miss [OF _ plain] err
    by (auto simp: static_req_def recover_def split: option.splits prod.splits bool.splits if_splits)
  then show False using assms(2) by (auto simp: immutable_def)
qed

text \<open>The paths whose answers concern one client or one moment.\<close>

definition unstored :: "string \<Rightarrow> bool" where
  "unstored p \<longleftrightarrow> p \<in> {''/admin'', ''/metrics'', ''/healthz''} \<or> (\<exists>rest. p = ''/admin/'' @ rest)"

lemma hasPrefix_iff: "hasPrefix s p \<longleftrightarrow> (\<exists>rest. s = p @ rest)"
  unfolding hasPrefix_def by (metis append_eq_conv_conj append_take_drop_id)

lemma privatePath_iff: "privatePath p \<longleftrightarrow> unstored p"
  by (auto simp: privatePath_def unstored_def hasPrefix_iff)

text \<open>The headers of a response: the fixed ones below what its handler sets.\<close>

lemma handler_headers:
  assumes "handler x rn now q s = (Sent r, s')"
  obtains h where "rs_header r = baseHeaders (urlPath q) ++ h" and "tame_map (hasPrefix (urlPath q) ''/static/'') h"
    and "h ''Cache-Control'' = Some immutable \<longrightarrow>
      hq_hasV q \<and> (\<exists>name. mux (x_token x \<noteq> []) q = PStatic name \<and> x_open x name = Some False)"
proof -
  let ?p = "mux (x_token x \<noteq> []) q" and ?b = "hasPrefix (urlPath q) ''/static/''"
  obtain out where out: "headers q (recover x q out) = Sent r"
    and src: "tame False out \<or> (\<exists>name. ?p = PStatic name \<and> out = static_req x name q)"
  proof (cases "crossOrigin (x_originHost x) q")
    case (Some msg)
    then show ?thesis using assms that [of "Sent (http_Error 403 msg)"] by (simp add: handler_def tame_basic)
  next
    case None
    then show ?thesis
      using assms that [of "fst (serve_place x rn now ?p q s)"] tame_place [of ?p x rn now q s]
      by (auto simp: handler_def split: prod.splits place.splits)
  qed
  have wider: "tame_map True h" if "tame_map False h" for h using that by (simp add: tame_map_def) blast
  have tame: "tame ?b (recover x q out)"
  proof (rule recover_tame)
    from src show "tame ?b out"
    proof (elim disjE exE conjE)
      assume "tame False out"
      then show ?thesis using wider by (cases ?b; cases out) (simp_all add: tame_def)
    next
      fix name
      assume "?p = PStatic name" "out = static_req x name q"
      then show ?thesis using tame_static [of x name q] static_place [of "x_token x \<noteq> []" q name] by simp
    qed
  qed
  show ?thesis
  proof (cases "recover x q out")
    case (Sent r0)
    have "hq_hasV q \<and> (\<exists>name. ?p = PStatic name \<and> x_open x name = Some False)" if "rs_header r0 ''Cache-Control'' = Some immutable"
    proof -
      have "\<not> tame False out" using recover_tame [of False out x q] tame_uncached [of r0] Sent that by auto
      then show ?thesis using src Sent that static_immutable by blast
    qed
    then show ?thesis using Sent tame out that [of "rs_header r0"] by (auto simp: headers_def tame_def)
  qed (use out that [of Map.empty] in \<open>auto simp: headers_def tame_map_def\<close>)
qed


definition demo_ctx :: webctx where
  "demo_ctx = \<lparr>x_env = undefined, x_execute = (\<lambda>_. None), x_json = (\<lambda>_. []), x_berlin = undefined, x_fmt = (\<lambda>_. []), x_token = [],
     x_version = ''dev'', x_open = (\<lambda>_. None), x_serve = (\<lambda>_ ct. (200, Some ct, [])), x_originHost = (\<lambda>_. None)\<rparr>"

definition demo_req :: "string \<Rightarrow> string list \<Rightarrow> http_req" where
  "demo_req meth segs = \<lparr>hq_method = meth, hq_segs = segs, hq_hasV = False, hq_range = [], hq_auth = [], hq_site = [], hq_origin = [],
     hq_host = [], hq_canceled = False,
     hq_req = \<lparr>rq_post = False, rq_form = None, rq_cookie = Map.empty, rq_remote = [], rq_xff = [], rq_id = [], rq_ok = [], rq_gone = False\<rparr>\<rparr>"

definition plain_server :: "string server" where
  "plain_server = \<lparr>sv_mon = New empty_db undefined, sv_limit = newLimiter, sv_cache = Map.empty\<rparr>"


section \<open>What a request can change\<close>

text \<open>All tables but for the time stamps of sessions, the limiter and the manager's runners, counters and mail
  state are as before.\<close>

definition undisturbed :: "'b server \<Rightarrow> 'b server \<Rightarrow> bool" where
  "undisturbed s s' \<longleftrightarrow> touched_db (store_of s) (store_of s') \<and> sv_limit s' = sv_limit s \<and>
     (sv_mon s')\<lparr>m_store := m_store (sv_mon s)\<rparr> = sv_mon s"

lemma undisturbed_refl [simp]: "undisturbed s s"
  by (simp add: undisturbed_def touched_db_def)

lemma undisturbed_touched: "only_touched s s' \<Longrightarrow> undisturbed s s'"
  unfolding only_touched_def undisturbed_def with_store_def
  by (metis (no_types, lifting) server.select_convs server.surjective server.update_convs(1) Manager.surjective Manager.update_convs(1))

lemma undisturbed_reads: "reads q \<Longrightarrow> undisturbed s (snd (on_db q s))"
  by (simp add: on_db_eq undisturbed_touched only_touched_reads)

lemma undisturbed_cache: "undisturbed (s\<lparr>sv_cache := c\<rparr>) s' \<Longrightarrow> undisturbed s (s'\<lparr>sv_cache := c'\<rparr>)"
  by (simp add: undisturbed_def store_of_def)

lemma undisturbed_cached:
  assumes "\<And>s. undisturbed s (snd (build s))"
  shows "undisturbed s (snd (fromCache x now q key ctype build s))"
proof -
  have "undisturbed s1 (snd (snd (cached_get now build (c, s1))))" for c s1
    using assms [of s1] by (auto simp: cached_get_def split: prod.splits sum.splits)
  note keeps = this
  define c where "c = (case sv_cache s key of None \<Rightarrow> \<lparr>c_body = None, c_at_time = zeroTime\<rparr> | Some c \<Rightarrow> c)"
  let ?s1 = "s\<lparr>sv_cache := (sv_cache s)(key \<mapsto> c)\<rparr>"
  obtain r c1 s2 where get: "cached_get now build (c, ?s1) = (r, c1, s2)" by (rule prod_cases3)
  have "undisturbed ?s1 s2" using keeps [of ?s1 c] get by simp
  then show ?thesis using get by (simp add: fromCache_def Let_def c_def [symmetric] undisturbed_cache)
qed

lemma build_reads [simp]: "reads (status_build now)" "reads (api_build now)" "reads Ping"
  unfolding status_build_def api_build_def Ping_def by (auto intro!: reads_and_then reads_exec)

lemma Latency_reads [simp]: "reads (Latency now g len)"
proof -
  have "reads (\<lambda>d. case z of None \<Rightarrow> (a, d) | Some out \<Rightarrow> (f out, d))" for z and a :: "'b result" and f :: "'c \<Rightarrow> 'b result"
    by (cases z) simp_all
  then show ?thesis unfolding Latency_def Let_def by (auto intro!: reads_and_then reads_exec)
qed

lemma detail_build_reads [simp]: "reads (detail_build now t r)"
  unfolding detail_build_def Let_def by (auto intro!: reads_and_then reads_split split: option.split)

lemma detail_faults: "\<exists>fs. snd (detail now pid r d) = d\<lparr>faults := fs\<rparr>"
proof (cases pid)
  case None
  then show ?thesis by (simp add: detail_def) (metis db.surjective db.update_convs(8))
next
  case (Some i)
  obtain a d1 where a: "StoreTarget i d = (a, d1)" by fastforce
  obtain fs where d1: "d1 = d\<lparr>faults := fs\<rparr>" using readsE [OF target_queries_read(1) a] by blast
  have built: "\<exists>gs. snd (detail_build now t r d1) = d\<lparr>faults := gs\<rparr>" for t
  proof -
    obtain gs where "snd (detail_build now t r d1) = d1\<lparr>faults := gs\<rparr>" using detail_build_reads [of now t r] unfolding reads_def by blast
    then show ?thesis by (auto simp: d1)
  qed
  show ?thesis
  proof (cases "\<exists>t. a = Inr t \<and> Public t")
    case True
    then obtain t where "a = Inr t" "Public t" by blast
    then have "snd (detail now pid r d) = snd (detail_build now t r d1)"
      using Some a by (auto simp: detail_def split: prod.splits sum.splits)
    then show ?thesis using built by simp
  next
    case False
    then show ?thesis using Some a d1 by (cases a) (auto simp: detail_def)
  qed
qed

lemma detail_undisturbed: "undisturbed s (with_store (snd (detail now pid r (store_of s))) s)"
proof -
  obtain fs where "snd (detail now pid r (store_of s)) = (store_of s)\<lparr>faults := fs\<rparr>" using detail_faults by blast
  then show ?thesis by (intro undisturbed_touched) (simp add: only_touched_with touched_db_def)
qed

lemma place_undisturbed:
  assumes "p \<noteq> PLogin" and "\<And>r pid. p = PAdmin r pid \<Longrightarrow> \<not> authenticated (x_env x) now r ((hq_req q)\<lparr>rq_id := pid\<rparr>) s"
  shows "undisturbed s (snd (serve_place x rn now p q s))"
proof (cases p)
  case (PStatus lang)
  have "undisturbed s (snd (status_html x now lang s))" for s
    using undisturbed_reads [OF build_reads(1), of s now] by (auto simp: status_html_def split: prod.splits sum.splits)
  then show ?thesis using PStatus by (simp add: status_def undisturbed_cached)
next
  case PApi
  have "undisturbed s (snd (api_json x now s))" for s
    using undisturbed_reads [OF build_reads(2), of s now] by (auto simp: api_json_def split: prod.splits sum.splits)
  then show ?thesis using PApi by (simp add: api_def undisturbed_cached)
next
  case (PDetail lang pid)
  then show ?thesis
    using detail_undisturbed [of s now "pathID pid" "hq_range q"] by (simp add: detail_req_def case_prod_beta)
next
  case PHealthz
  then show ?thesis using undisturbed_reads [OF build_reads(3), of s] by (auto simp: healthz_def split: prod.splits sum.splits)
next
  case PMetrics
  then show ?thesis
    using undisturbed_reads [OF target_queries_read(2), of s]
    by (auto simp: metrics_req_def metrics_def split: prod.splits sum.splits metrics_answer.splits if_splits)
next
  case (PAdmin r pid)
  obtain rp s' where run: "admin_route (x_env x) rn now r ((hq_req q)\<lparr>rq_id := pid\<rparr>) s = (rp, s')" by fastforce
  then show ?thesis
    using guard_keeps [OF assms(2) [OF PAdmin] run] PAdmin by (simp add: reply_run_def undisturbed_touched)
qed (use assms(1) in \<open>simp_all add: reply_run_def loginForm_def split: prod.split\<close>)

text \<open>C18: A request that is neither a login attempt nor made with a live session and, to change something, its form
  token leaves every table, the login limits, the runners, the counters and the mail state as they were,
  but for the time stamps of sessions; so does every request that a browser sends from another site
  and that is not a plain read. Only the page cache and the script of faults may move.\<close>

theorem requests_harmless:
  assumes run: "handler x rn now q s = (out, s')"
    and who: "mux (x_token x \<noteq> []) q \<noteq> PLogin \<and>
      (\<forall>r pid. mux (x_token x \<noteq> []) q = PAdmin r pid \<longrightarrow> \<not> authenticated (x_env x) now r ((hq_req q)\<lparr>rq_id := pid\<rparr>) s) \<or>
      hq_method q = ''POST'' \<and> hq_site q = ''cross-site''"
  shows "touched_db (store_of s) (store_of s') \<and> sv_limit s' = sv_limit s \<and> (sv_mon s')\<lparr>m_store := store_of s\<rparr> = sv_mon s"
proof -
  have "undisturbed s s'"
  proof (cases "crossOrigin (x_originHost x) q")
    case (Some msg)
    then show ?thesis using run by (simp add: handler_def)
  next
    case None
    then have "\<not> (hq_method q = ''POST'' \<and> hq_site q = ''cross-site'')" by (auto simp: crossOrigin_def)
    then show ?thesis
      using run None who place_undisturbed [of "mux (x_token x \<noteq> []) q" x now q s rn]
      by (auto simp: handler_def split: prod.splits)
  qed
  then show ?thesis by (simp add: undisturbed_def store_of_def)
qed

theorem requests_harmless_witness:
  "touched_db (store_of plain_server) (store_of (snd (handler demo_ctx undefined 0 (demo_req ''POST'' [''admin'', ''ziel'', ''1'', ''loeschen'']) plain_server)))"
proof -
  let ?q = "demo_req ''POST'' [''admin'', ''ziel'', ''1'', ''loeschen'']"
  have "mux (x_token demo_ctx \<noteq> []) ?q = PAdmin RRemove ''1''"
    by (simp add: mux_def mux_post_def demo_req_def)
  moreover have "\<not> authenticated (x_env demo_ctx) 0 RRemove ((hq_req ?q)\<lparr>rq_id := ''1''\<rparr>) plain_server"
    by (simp add: authenticated_def demo_req_def)
  ultimately show ?thesis
    using requests_harmless [of demo_ctx undefined 0 ?q plain_server, OF prod.collapse [symmetric]] by auto
qed

end
