(* ===== verification/Service.thy ===== *)
theory Service
  imports Web_Server
begin

text \<open>
  The running service: the manager with its runners and its maintenance, and the web server with its requests,
  on one database. A step is a step of the manager or a whole request, in any order; what both keep
  is shown for the composition.
\<close>

section \<open>The composed system\<close>

inductive sstep :: "webctx \<Rightarrow> Mailer mail_fn option \<Rightarrow> string server \<Rightarrow> string server \<Rightarrow> bool" for x mail where
  background: "mstep mail (sv_mon s) m \<Longrightarrow> sstep x mail s (s\<lparr>sv_mon := m\<rparr>)"
| request: "handler x rn now q s = (out, s') \<Longrightarrow> sstep x mail s s'"

inductive service :: "webctx \<Rightarrow> Mailer mail_fn option \<Rightarrow> string server \<Rightarrow> bool" for x mail where
  boot: "reachable mail m \<Longrightarrow> service x mail \<lparr>sv_mon = m, sv_limit = newLimiter, sv_cache = Map.empty\<rparr>"
| step: "service x mail s \<Longrightarrow> sstep x mail s s' \<Longrightarrow> service x mail s'"

section \<open>The invariant\<close>

definition sinv :: "'b server \<Rightarrow> bool" where
  "sinv s \<longleftrightarrow> minv (sv_mon s) \<and> lim_ok (sv_limit s)"

lemma minv_world [simp]: "minv (m\<lparr>m_world := w\<rparr>) = minv m"
  by (simp add: minv_def)

lemma sinv_simps [simp]: "sinv (s\<lparr>sv_cache := c\<rparr>) = sinv s" "sinv (clearCache s) = sinv s"
  by (simp_all add: sinv_def clearCache_def)

lemma quiet_sessions [simp]:
  "quiet (CreateSession ht token csrf now)" "quiet (TouchSession ht token now)" "quiet (DeleteSession ht token)"
  using session_step_incidents [of ht "OpCreate token csrf now"] session_step_incidents [of ht "OpTouch token now"]
    session_step_incidents [of ht "OpLogout token"]
  by (auto intro!: quietI simp: CreateSession_keeps TouchSession_keeps DeleteSession_keeps Let_def)

lemma sinv_on_db: "on_db q s = (r, s1) \<Longrightarrow> quiet q \<Longrightarrow> sinv s \<Longrightarrow> sinv s1"
  using minv_on_store [of "sv_mon s" q] by (auto simp: on_db_def sinv_def split: prod.splits)

lemma sinv_reads: "on_db q s = (r, s1) \<Longrightarrow> reads q \<Longrightarrow> sinv s \<Longrightarrow> sinv s1"
  by (blast intro: sinv_on_db quiet_reads)

section \<open>Handlers keep it\<close>

lemma sinv_limited: "sinv s \<Longrightarrow> sinv (s\<lparr>sv_limit := snd (limiter_take ip now known (sv_limit s))\<rparr>)"
  "sinv s \<Longrightarrow> sinv (s\<lparr>sv_limit := forgive ip (sv_limit s)\<rparr>)"
  by (simp_all add: sinv_def lim_ok_take lim_ok_forgive)

lemma sinv_checkLogin: "checkLogin env user pw s = (r, s1) \<Longrightarrow> sinv s \<Longrightarrow> sinv s1"
  by (auto simp: checkLogin_def split: prod.splits sum.splits option.splits dest!: sinv_reads)

lemma sinv_login_session: "sinv s \<Longrightarrow> sinv (snd (login_session env rn now known req s))"
  by (auto simp: login_session_def Let_def split: prod.splits sum.splits option.splits dest!: sinv_on_db)

lemma sinv_login_attempt: "sinv s \<Longrightarrow> sinv (snd (login_attempt env rn now known csrf f req s))"
proof -
  assume s: "sinv s"
  define ip where "ip = clientIP (e_proxy env) (rq_remote req) (rq_xff req)"
  obtain wait first l where t: "limiter_take ip now known (sv_limit s) = ((wait, first), l)" by (metis prod.exhaust)
  let ?s = "s\<lparr>sv_limit := l\<rparr>"
  have s1: "sinv ?s" using sinv_limited(1) [OF s, of ip now known] t by simp
  obtain r s2 where c: "checkLogin env (f ''username'') (f ''password'') ?s = (r, s2)" by fastforce
  have s2: "sinv s2" using sinv_checkLogin [OF c s1] .
  show ?thesis
    using s1 s2 sinv_login_session [OF sinv_limited(2) [OF s2, of ip]] t c
    by (simp add: login_attempt_def Let_def ip_def [symmetric] split: sum.split)
qed

lemma sinv_login: "sinv s \<Longrightarrow> sinv (snd (login env rn now req s))"
  by (auto simp: login_def sinv_login_attempt split: prod.split sum.split option.split dest!: sinv_reads)

lemma sinv_path_target: "path_target req s = (r, s1) \<Longrightarrow> sinv s \<Longrightarrow> sinv s1"
  by (auto simp: path_target_def split: prod.splits sum.splits option.splits dest!: sinv_reads)

lemma sinv_reload: "sinv s \<Longrightarrow> sinv (reload now i s)"
  by (simp add: reload_def sinv_def minv_Reload)

lemma sinv_save_target: "sinv s \<Longrightarrow> sinv (snd (save_target env now f t csrf s))"
proof -
  assume s: "sinv s"
  have a: "sinv s1" if "on_db (CreateTarget now u) s = (r, s1)" for u r s1 using sinv_on_db [OF that _ s] by simp
  have b: "sinv s1" if "on_db (UpdateTarget now u) s = (r, s1)" for u r s1 using sinv_on_db [OF that _ s] by simp
  show ?thesis using s by (auto simp: save_target_def Let_def sinv_reload split: prod.split sum.split dest!: a b)
qed

lemma sinv_handle: "sinv s \<Longrightarrow> sinv (snd (handle env rn now r req csrf s))"
proof -
  assume s: "sinv s"
  have list: "reads (and_then StoreTargets (\<lambda>ts. and_then (rows_of now 0 ts) (\<lambda>rs d. (Inr (map2 adminRow ts rs), d))))"
    by (auto intro!: reads_and_then)
  have out: "sinv s1" if "on_db (DeleteSession ht v) s = (r, s1)" for ht v r s1 using sinv_on_db [OF that _ s] by simp
  have p: "sinv s1" if "path_target req s = (r, s1)" for r s1 using sinv_path_target [OF that s] .
  then have p2: "sinv (snd (path_target req s))" using prod.collapse by metis
  have m: "sinv (s1\<lparr>sv_mon := snd (CheckNow now i (sv_mon s1))\<rparr>)" "sinv (s1\<lparr>sv_mon := snd (Delete i (sv_mon s1))\<rparr>)" if "sinv s1" for s1 :: "'a server" and i
    using that by (simp_all add: sinv_def minv_CheckNow minv_Delete)
  show ?thesis
  proof (cases r)
    case RLogout
    then show ?thesis using s out by (auto simp: logout_def split: prod.splits sum.splits option.splits)
  next
    case RList
    then show ?thesis using sinv_reads [OF _ list s] by (auto simp: admin_list_def split: prod.split sum.split)
  next
    case RPause
    then show ?thesis
      using p by (auto simp: pause_def sinv_reload split: prod.splits sum.splits dest!: sinv_on_db)
  next
    case RCheckNow
    then show ?thesis using p2 m(1) by (auto simp: admin_checkNow_def case_prod_beta split: sum.split)
  next
    case RRemove
    then show ?thesis using s m(2) [OF s] by (auto simp: remove_def case_prod_beta split: option.split sum.split)
  next
    case RTestMail
    then show ?thesis using s by (auto simp: testMail_def sinv_def split: prod.split)
  qed (use s p in \<open>auto simp: newForm_def editForm_def save_def Let_def sinv_save_target split: prod.split sum.split dest!: p\<close>)
qed

lemma sinv_guard:
  assumes h: "\<And>req csrf s. sinv s \<Longrightarrow> sinv (snd (h req csrf s))" and s: "sinv s"
  shows "sinv (snd (admin_guard env rn now h req s))"
proof (cases "rq_cookie req (cookieName env ''sid'')")
  case (Some token)
  obtain r s1 where op: "on_db (StoreSession (hashToken (e_sha256 env)) token now) s = (r, s1)" by fastforce
  have s1: "sinv s1" using sinv_reads [OF op _ s] by simp
  have "sinv (snd (on_db (TouchSession (hashToken (e_sha256 env)) token now) s1))"
    using sinv_on_db [OF prod.collapse [symmetric] _ s1, of "TouchSession (hashToken (e_sha256 env)) token now"] by simp
  then show ?thesis using Some op s1 h by (simp add: admin_guard_def Let_def split: sum.split option.split)
qed (use s in \<open>simp add: admin_guard_def\<close>)

lemma sinv_route: "sinv s \<Longrightarrow> sinv (snd (admin_route env rn now r req s))"
  unfolding admin_route_def by (rule sinv_guard) (rule sinv_handle)

section \<open>Requests keep it\<close>

lemma sinv_cached:
  assumes build: "\<And>s. sinv s \<Longrightarrow> sinv (snd (build s))" and s: "sinv s"
  shows "sinv (snd (fromCache x now q key ctype build s))"
proof -
  have get: "sinv s2" if "cached_get now build (c, s1) = (r, c1, s2)" "sinv s1" for c s1 r c1 s2
    using that build [of s1] by (auto simp: cached_get_def split: prod.splits sum.splits if_splits)
  show ?thesis using s by (auto simp: fromCache_def Let_def split: prod.split dest!: get)
qed

lemma sinv_build: "sinv s \<Longrightarrow> sinv (snd (status_html x now lang s))" "sinv s \<Longrightarrow> sinv (snd (api_json x now s))"
  by (auto simp: status_html_def api_json_def split: prod.split sum.split dest!: sinv_reads)

lemma sinv_detail: "sinv s \<Longrightarrow> sinv (with_store (snd (detail now pid r (store_of s))) s)"
proof -
  assume s: "sinv s"
  obtain fs where "snd (detail now pid r (store_of s)) = (store_of s)\<lparr>faults := fs\<rparr>" using detail_faults by blast
  moreover have "minv ((sv_mon s)\<lparr>m_store := (store_of s)\<lparr>faults := fs\<rparr>\<rparr>)"
    using s runners_ok_log [of "(store_of s)\<lparr>faults := fs\<rparr>" "store_of s"]
    by (simp add: sinv_def minv_def store_of_def current_def faults_irrelevant)
  ultimately show ?thesis using s by (simp add: with_store_def sinv_def)
qed

lemma sinv_place: "sinv s \<Longrightarrow> sinv (snd (serve_place x rn now p q s))"
proof (cases p)
  case PHealthz
  assume "sinv s"
  then show ?thesis using PHealthz by (auto simp: healthz_def split: prod.split sum.split dest!: sinv_reads)
next
  case PMetrics
  assume "sinv s"
  then show ?thesis
    using PMetrics by (auto simp: metrics_req_def metrics_def split: prod.splits sum.splits metrics_answer.splits if_splits dest!: sinv_reads)
next
  case (PDetail lang pid)
  assume "sinv s"
  then show ?thesis using PDetail sinv_detail [of s now "pathID pid" "hq_range q"] by (simp add: detail_req_def case_prod_beta)
qed (simp_all add: status_def api_def sinv_cached sinv_build reply_run_def case_prod_beta loginForm_def sinv_login sinv_route)

lemma sinv_handler: "handler x rn now q s = (out, s') \<Longrightarrow> sinv s \<Longrightarrow> sinv s'"
  using sinv_place [of s x rn now "mux (x_token x \<noteq> []) q" q] by (auto simp: handler_def split: prod.splits option.splits)

lemma sinv_service: "service x mail s \<Longrightarrow> sinv s"
proof (induction rule: service.induct)
  case (boot m)
  then show ?case using minv_reachable by (auto simp: sinv_def lim_ok_def newLimiter_def loginIPs_def zero_window_def)
next
  case (step s s')
  show ?case using step.hyps(2)
  proof cases
    case (background m)
    then show ?thesis using step.IH minv_mstep by (auto simp: sinv_def)
  next
    case (request rn now q out)
    then show ?thesis using sinv_handler step.IH by blast
  qed
qed

text \<open>C4: While the service runs, in every order of checks, maintenance, requests of any kind and shutdown, and with
  any failures of the driver and the mail system: the database satisfies its schema; a runner that believes
  its target is down names the one open incident of that target; at most eight checks are in flight; and
  the login limiter keeps one entry per address, of at most its size, none above the limit.\<close>

theorem service_safe:
  assumes "service x mail s"
  shows "db_ok (m_store (sv_mon s)) \<and>
    (\<forall>i r. m_runners (sv_mon s) i = Some r \<and> r_phase r \<noteq> Starting \<and> isOpen (r_state r) \<longrightarrow>
       (\<exists>row \<in> set (incidents (m_store (sv_mon s))). i_id row = incident (r_state r) \<and> open_at i row \<and>
          (\<forall>row' \<in> set (incidents (m_store (sv_mon s))). open_at i row' \<longrightarrow> row' = row))) \<and>
    card (in_flight (m_runners (sv_mon s))) \<le> 8 \<and>
    distinct (map fst (ips (sv_limit s))) \<and> int (length (ips (sv_limit s))) \<le> loginIPs \<and>
    (\<forall>(ip, w) \<in> set (ips (sv_limit s)). w_n w \<le> loginPerIP)"
proof -
  have "minv (sv_mon s)" "lim_ok (sv_limit s)" using sinv_service [OF assms] by (simp_all add: sinv_def)
  then show ?thesis using minv_safe [of "sv_mon s"] by (auto simp: lim_ok_def)
qed

definition started_server :: "string server" where
  "started_server = \<lparr>sv_mon = snd (Start (New (empty_db\<lparr>targets := [demo_target]\<rparr>) sample_mailer)), sv_limit = newLimiter, sv_cache = Map.empty\<rparr>"

theorem service_safe_witness:
  "\<exists>r. m_runners (sv_mon (snd (handler demo_ctx undefined 0 (demo_req ''POST'' [''admin'', ''logout'']) started_server))) 1 = Some r \<and>
     db_ok (m_store (sv_mon (snd (handler demo_ctx undefined 0 (demo_req ''POST'' [''admin'', ''logout'']) started_server))))"
proof -
  let ?q = "demo_req ''POST'' [''admin'', ''logout'']"
  have "db_ok (empty_db\<lparr>targets := [demo_target]\<rparr>)" by code_simp
  then have "reachable None (New (empty_db\<lparr>targets := [demo_target]\<rparr>) sample_mailer)" by (rule reachable.init)
  then have "reachable None (sv_mon started_server)"
    unfolding started_server_def by (simp, rule reachable.step) (rule mstep.started, simp add: New_def)
  then have "service demo_ctx None started_server"
    using service.boot [of None "sv_mon started_server" demo_ctx] by (simp add: started_server_def)
  then have "service demo_ctx None (snd (handler demo_ctx undefined 0 ?q started_server))"
    by (rule service.step) (rule sstep.request, rule prod.collapse [symmetric])
  moreover have "snd (handler demo_ctx undefined 0 ?q started_server) = started_server"
    by (simp add: handler_def crossOrigin_def mux_def mux_post_def demo_req_def reply_run_def admin_route_def admin_guard_def split: prod.split)
  moreover have "m_runners (sv_mon started_server) 1 \<noteq> None"
    by (simp add: started_server_def Start_def on_store_def StoreTargets_def select_targets_def exec_def empty_db_def New_def start_def
        scanTarget_def demo_target_def)
  ultimately show ?thesis using service_safe [of demo_ctx None started_server] by auto
qed

end
