(* ===== verification/Monitor_Live.thy ===== *)
theory Monitor_Live
  imports Monitor_Inv
begin

text \<open>
  Progress of the manager: how long a runner sleeps, what the maintenance loop does, that the slots never lock a
  runner out, and that the service ends: once the context is cancelled, \<^verbatim>\<open>Wait\<close> of \<^verbatim>\<open>scheduler.go\<close> returns, however
  the runners are scheduled.
\<close>

section \<open>Timers\<close>

text \<open>The sleep of a runner: at first a random part of its interval, then between nine and eleven tenths of it;
  \<open>rnd\<close> is what \<^verbatim>\<open>rand.N\<close> draws.\<close>

definition runInterval :: "Target \<Rightarrow> duration" where "runInterval t = IntervalS t * second"

definition firstSleep :: "duration \<Rightarrow> duration \<Rightarrow> duration option" where
  "firstSleep interval rnd = (if 0 \<le> rnd \<and> rnd < interval then Some rnd else None)"

definition nextSleep :: "duration \<Rightarrow> duration \<Rightarrow> duration option" where
  "nextSleep interval rnd =
     (if 0 \<le> rnd \<and> rnd < interval sdiv 5 + 1 then Some (interval - interval sdiv 10 + rnd) else None)"

lemma nextSleep_bounds:
  assumes "0 \<le> interval" and "nextSleep interval rnd = Some d"
  shows "9 * interval \<le> 10 * d \<and> 10 * d \<le> 11 * interval + 10"
  using assms by (auto simp: nextSleep_def go_arith split: if_splits)

section \<open>Maintenance\<close>

definition rollupEvery :: duration where "rollupEvery = 5 * minute"
definition cleanupEvery :: duration where "cleanupEvery = hourDur"

datatype ticker = RollTick | CleanTick

definition maintain_begin :: "time \<Rightarrow> int \<Rightarrow> 'w Manager \<Rightarrow> 'w Manager" where
  "maintain_begin now days m = cleanup now days (rollup now m)"

definition maintain_tick :: "'w mail_fn option \<Rightarrow> time \<Rightarrow> int \<Rightarrow> ticker \<Rightarrow> 'w Manager \<Rightarrow> 'w Manager" where
  "maintain_tick mail now days tk m =
     (case tk of RollTick \<Rightarrow> retry mail now (rollup now m) | CleanTick \<Rightarrow> cleanup now days m)"

text \<open>The maintenance goroutine only takes steps of the relation.\<close>

lemma maintain_steps:
  "(mstep mail)\<^sup>*\<^sup>* m (maintain_begin now days m)" "(mstep mail)\<^sup>*\<^sup>* m (maintain_tick mail now days tk m)"
proof -
  have a: "mstep mail m (rollup now m)" and b: "mstep mail m (cleanup now days m)" for m :: "'a Manager"
    by (rule mstep.rolled, rule mstep.cleaned)
  have c: "mstep mail m (retry mail now m)" for m by (rule mstep.retried)
  show "(mstep mail)\<^sup>*\<^sup>* m (maintain_begin now days m)" unfolding maintain_begin_def using a b by (meson converse_rtranclp_into_rtranclp r_into_rtranclp)
  show "(mstep mail)\<^sup>*\<^sup>* m (maintain_tick mail now days tk m)"
    unfolding maintain_tick_def using a b c by (cases tk) (auto, meson converse_rtranclp_into_rtranclp r_into_rtranclp)
qed

text \<open>\<^verbatim>\<open>Wait\<close> returns when every runner has; the goroutine of the maintenance is between two of its steps and
  leaves at once.\<close>

definition waitOver :: "'w Manager \<Rightarrow> bool" where
  "waitOver m \<longleftrightarrow> (\<forall>i r. m_runners m i = Some r \<longrightarrow> r_phase r = Exited)"

section \<open>Finitely many runners\<close>

lemma on_store_runners [simp]: "m_runners (snd (on_store q m)) = m_runners m" "m_done (snd (on_store q m)) = m_done m"
  by (simp_all add: on_store_def split: prod.split)

lemma on_store_same: "on_store q m = (r, m1) \<Longrightarrow> m_runners m1 = m_runners m \<and> m_done m1 = m_done m"
  using on_store_runners [of q m] by simp

lemma start_finite: "finite (dom (m_runners m)) \<Longrightarrow> finite (dom (m_runners (start t m)))"
  by (simp add: start_def)

lemma starts_finite: "finite (dom (m_runners m)) \<Longrightarrow> finite (dom (m_runners (fold start ts m)))"
  by (induction ts arbitrary: m) (simp_all add: start_finite)

lemma stop_finite: "finite (dom (m_runners m)) \<Longrightarrow> finite (dom (m_runners (stop i m)))"
  by (auto simp: stop_def release_def split: option.split phase.split)

lemma set_runner_finite: "finite (dom (m_runners m)) \<Longrightarrow> finite (dom (m_runners (set_runner i r m)))"
  by (simp add: set_runner_def)

lemma mstep_finite:
  assumes "mstep mail m m'" and fin: "finite (dom (m_runners m))" and inv: "minv m"
  shows "finite (dom (m_runners m'))"
  using assms(1)
proof (cases rule: mstep.cases)
  case (restored i r)
  obtain st m1 where "restore (r_target r) m = (st, m1)" by fastforce
  then show ?thesis using restored fin restore_backed [OF _ minvD(1) [OF inv]]
    by (auto simp: run_restore_def silent_def same_control_def intro!: set_runner_finite)
next
  case (returned i r att now res)
  let ?m1 = "m\<lparr>m_sem := m_sem m - 1\<rparr>"
  obtain st m2 where e: "round_end mail now (r_target r) att res (r_state r) ?m1 = (st, m2)" by fastforce
  have "backed (m_store ?m1) (ID (r_target r)) (r_state r)"
    using minvD(4) [OF inv returned(2)] returned(3) by (simp add: runner_ok_def)
  then have "m_runners m2 = m_runners m"
    using round_end_backed [OF e] minvD(1) [OF inv] by (simp add: round_of_def same_control_def)
  then show ?thesis using returned e fin by (simp add: round_return_def Let_def set_runner_finite)
next
  case (started)
  then show ?thesis
    using fin by (auto simp: Start_def split: prod.splits sum.splits intro!: starts_finite dest!: on_store_same)
next
  case (reloaded now i)
  then show ?thesis
    using stop_finite [OF fin, of i]
    by (auto simp: Reload_def split: prod.split sum.split intro!: start_finite dest!: on_store_same)
next
  case (deleted i)
  obtain r1 m1 where one: "on_store (DeleteTarget i) (stop i m) = (r1, m1)" by fastforce
  obtain r2 m2 where two: "on_store (StoreTarget i) m1 = (r2, m2)" by fastforce
  have "finite (dom (m_runners m1))" "finite (dom (m_runners m2))"
    using on_store_same [OF one] on_store_same [OF two] stop_finite [OF fin, of i] by simp_all
  then show ?thesis using deleted one two by (cases r1; cases r2) (simp_all add: Delete_def start_finite)
next
  case (retried now)
  have "m_runners (snd (retry_loop mail now incs p m1)) = m_runners m1" for incs p m1
    using retry_loop_silent [of m1 mail now incs p] by (simp add: silent_def same_control_def)
  then show ?thesis
    using retried fin by (auto simp: retry_def split_beta split: option.split sum.split)
qed (use fin in \<open>simp_all add: run_tick_def round_begin_def run_exit_def set_runner_finite rollup_def cleanup_def CheckNow_def split: option.split\<close>)

lemma reachable_finite: "reachable mail m \<Longrightarrow> finite (dom (m_runners m))"
proof (induction rule: reachable.induct)
  case (step m m')
  then show ?case using mstep_finite minv_reachable by blast
qed (simp add: New_def)

section \<open>What a cancelled runner leaves alone\<close>

definition same_rows :: "db \<Rightarrow> db \<Rightarrow> bool" where "same_rows d d' \<longleftrightarrow> (\<exists>fs. d' = d\<lparr>faults := fs\<rparr>)"

lemma same_rows_trans: "same_rows a b \<Longrightarrow> same_rows b c \<Longrightarrow> same_rows a c"
  by (auto simp: same_rows_def)

lemma same_rows_refl [simp]: "same_rows d d"
  unfolding same_rows_def by (rule exI [of _ "faults d"]) simp

lemma on_store_rows: "reads q \<Longrightarrow> on_store q m = (r, m1) \<Longrightarrow> same_rows (m_store m) (m_store m1)"
  unfolding reads_def same_rows_def by (auto simp: on_store_def split: prod.splits) (metis snd_conv)

lemma restore_rows: "restore t m = (st, m1) \<Longrightarrow> same_rows (m_store m) (m_store m1) \<and> m_runners m1 = m_runners m \<and> m_done m1 = m_done m"
proof -
  assume re: "restore t m = (st, m1)"
  obtain r1 a where a: "on_store (OpenIncidentFor (ID t)) m = (r1, a)" by fastforce
  obtain r2 b where b: "on_store (LastIncidentEnd (ID t)) a = (r2, b)" by fastforce
  obtain r3 c where c: "on_store (LastChecks (ID t) (FailThreshold t)) b = (r3, c)" by fastforce
  obtain cs where m1: "m1 = seed_stat (ID t) cs c" using re a b c by (auto simp: restore_def Let_def)
  have "same_rows (m_store m) (m_store c)"
    using on_store_rows [OF _ a] on_store_rows [OF _ b] on_store_rows [OF _ c] by (auto intro: same_rows_trans)
  moreover have "m_runners c = m_runners m \<and> m_done c = m_done m" using on_store_same [OF a] on_store_same [OF b] on_store_same [OF c] by simp
  moreover have "m_runners m1 = m_runners c \<and> m_done m1 = m_done c"
    using seed_stat_silent(1) [of c "ID t" cs] m1 by (simp add: silent_def same_control_def)
  ultimately show ?thesis using m1 by simp
qed

section \<open>Every shutdown ends\<close>

text \<open>The steps of runners that no timer and no nudge triggers: they restore, take a slot, return from a check, leave.\<close>

inductive dstep :: "'w mail_fn option \<Rightarrow> 'w Manager \<Rightarrow> 'w Manager \<Rightarrow> bool" for mail where
  restored: "m_runners m i = Some r \<Longrightarrow> r_phase r = Starting \<Longrightarrow> dstep mail m (run_restore i r m)"
| began: "m_runners m i = Some r \<Longrightarrow> r_phase r = Queued \<Longrightarrow> m_sem m < maxParallel \<Longrightarrow> dstep mail m (round_begin i att r m)"
| returned: "m_runners m i = Some r \<Longrightarrow> r_phase r = Checking att \<Longrightarrow> dstep mail m (round_return mail i now att res r m)"
| exited: "m_done m \<Longrightarrow> m_runners m i = Some r \<Longrightarrow> r_phase r \<in> {Waiting, Queued} \<Longrightarrow> dstep mail m (run_exit i r m)"

lemma dstep_mstep: "dstep mail m m' \<Longrightarrow> mstep mail m m'"
  by (induction rule: dstep.induct) (blast intro: mstep.intros)+

fun weight :: "phase \<Rightarrow> nat" where
  "weight Starting = 2"
| "weight Waiting = 1"
| "weight Queued = 3"
| "weight (Checking att) = 2"
| "weight Exited = 0"

definition remaining :: "(int \<rightharpoonup> runner) \<Rightarrow> nat" where
  "remaining rs = (\<Sum>i \<in> dom rs. weight (r_phase (the (rs i))))"

lemma remaining_upd:
  assumes "finite (dom rs)" and "rs i = Some r" and "weight (r_phase r') < weight (r_phase r)"
  shows "remaining (rs(i \<mapsto> r')) < remaining rs"
proof -
  have i: "i \<in> dom rs" using assms(2) by auto
  then have "dom (rs(i \<mapsto> r')) = dom rs" by auto
  then show ?thesis
    unfolding remaining_def using assms i
    by (simp add: sum.remove [OF assms(1) i])
qed

lemma remaining_le: "finite (dom rs) \<Longrightarrow> remaining rs \<le> 3 * card (dom rs)"
proof -
  have "weight p \<le> 3" for p by (cases p) simp_all
  then have "remaining rs \<le> (\<Sum>i \<in> dom rs. 3)" unfolding remaining_def by (intro sum_mono) simp
  then show ?thesis by simp
qed

lemma dstep_drains:
  assumes "dstep mail m m'" and "m_done m" and "finite (dom (m_runners m))"
  shows "remaining (m_runners m') < remaining (m_runners m)" and "m_done m'" and "dom (m_runners m') = dom (m_runners m)"
    and "same_rows (m_store m) (m_store m')"
proof -
  have "\<exists>i r r'. m_runners m i = Some r \<and> m_runners m' = (m_runners m)(i \<mapsto> r') \<and> weight (r_phase r') < weight (r_phase r) \<and>
      m_done m' \<and> same_rows (m_store m) (m_store m')"
    using assms(1)
  proof cases
    case (restored i r)
    obtain st m1 where re: "restore (r_target r) m = (st, m1)" by fastforce
    show ?thesis
      using restored re restore_rows [OF re] assms(2)
      by (intro exI [of _ i] exI [of _ r] exI [of _ "r\<lparr>r_state := st, r_phase := Waiting\<rparr>"]) (simp add: run_restore_def set_runner_def)
  next
    case (began i r att)
    then show ?thesis
      using assms(2) by (intro exI [of _ i] exI [of _ r] exI [of _ "r\<lparr>r_phase := Checking att\<rparr>"]) (simp add: round_begin_def set_runner_def)
  next
    case (returned i r att now res)
    then show ?thesis
      using assms(2) by (intro exI [of _ i] exI [of _ r] exI [of _ "r\<lparr>r_phase := Waiting\<rparr>"]) (simp add: round_return_def set_runner_def)
  next
    case (exited i r)
    then show ?thesis
      using assms(2) by (intro exI [of _ i] exI [of _ r] exI [of _ "r\<lparr>r_phase := Exited\<rparr>"]) (auto simp: run_exit_def set_runner_def)
  qed
  then obtain i r r' where step: "m_runners m i = Some r" "m_runners m' = (m_runners m)(i \<mapsto> r')" "weight (r_phase r') < weight (r_phase r)"
      "m_done m'" "same_rows (m_store m) (m_store m')" by blast
  then show "remaining (m_runners m') < remaining (m_runners m)" "m_done m'" "dom (m_runners m') = dom (m_runners m)"
    "same_rows (m_store m) (m_store m')"
    using remaining_upd [OF assms(3) step(1,3)] by (auto simp: step(2) insert_absorb domI)
qed

lemma drain_run:
  "(dstep mail ^^ n) m m' \<Longrightarrow> m_done m \<Longrightarrow> finite (dom (m_runners m)) \<Longrightarrow>
   n + remaining (m_runners m') \<le> remaining (m_runners m) \<and> m_done m' \<and> dom (m_runners m') = dom (m_runners m) \<and>
   same_rows (m_store m) (m_store m')"
proof (induction n arbitrary: m')
  case (Suc n)
  then obtain m1 where m1: "(dstep mail ^^ n) m m1" "dstep mail m1 m'" by auto
  note ih = Suc.IH [OF m1(1) Suc.prems(2,3)]
  then have fin: "finite (dom (m_runners m1))" using Suc.prems(3) by simp
  show ?case
    using ih dstep_drains [OF m1(2) _ fin] same_rows_trans by fastforce
qed simp

lemma drain_progress: "m_done m \<Longrightarrow> \<not> waitOver m \<Longrightarrow> \<exists>m'. dstep mail m m'"
proof -
  assume d: "m_done m" and "\<not> waitOver m"
  then obtain i r where r: "m_runners m i = Some r" "r_phase r \<noteq> Exited" by (auto simp: waitOver_def)
  show ?thesis
  proof (cases "r_phase r")
    case Starting
    then show ?thesis using dstep.restored [OF r(1)] by blast
  next
    case (Checking att)
    then show ?thesis using dstep.returned [OF r(1)] by blast
  qed (use r dstep.exited [OF d r(1)] in auto)
qed



section \<open>Every runner can check\<close>

text \<open>A runner has left its loop only after the context was cancelled.\<close>

definition kept :: "'w Manager \<Rightarrow> bool" where
  "kept m \<longleftrightarrow> (\<forall>i r. m_runners m i = Some r \<and> r_phase r = Exited \<longrightarrow> m_done m)"

lemma kept_stop: "kept m \<Longrightarrow> kept (stop i m)"
  by (auto simp: kept_def stop_def release_def split: option.split phase.split if_splits)

lemma kept_start: "kept m \<Longrightarrow> kept (start t m)"
  by (auto simp: kept_def start_def)

lemma kept_starts: "kept m \<Longrightarrow> kept (fold start ts m)"
  by (induction ts arbitrary: m) (simp_all add: kept_start)

lemma kept_same: "kept m \<Longrightarrow> m_runners m' = m_runners m \<and> m_done m' = m_done m \<Longrightarrow> kept m'"
  by (simp add: kept_def)

lemma kept_runner: "kept m \<Longrightarrow> r_phase r \<noteq> Exited \<Longrightarrow> kept (set_runner i r m)"
  by (auto simp: kept_def set_runner_def)

lemma round_control:
  assumes "minv m" and "m_runners m i = Some r" and "r_phase r = Checking att"
    and "round_end mail now (r_target r) att res (r_state r) (m\<lparr>m_sem := n\<rparr>) = (st, m2)"
  shows "m_runners m2 = m_runners m \<and> m_done m2 = m_done m \<and> m_sem m2 = n"
proof -
  have "backed (m_store (m\<lparr>m_sem := n\<rparr>)) (ID (r_target r)) (r_state r)"
    using minvD(4) [OF assms(1,2)] assms(3) by (simp add: runner_ok_def)
  then show ?thesis
    using round_end_backed [OF assms(4)] minvD(1) [OF assms(1)] by (simp add: round_of_def same_control_def)
qed

lemma kept_mstep:
  assumes "mstep mail m m'" and k: "kept m" and inv: "minv m"
  shows "kept m'"
  using assms(1)
proof (cases rule: mstep.cases)
  case (restored i r)
  obtain st m1 where re: "restore (r_target r) m = (st, m1)" by fastforce
  then show ?thesis using restored kept_same [OF k, of m1] restore_rows [OF re] by (simp add: run_restore_def kept_runner)
next
  case (returned i r att now res)
  let ?m1 = "m\<lparr>m_sem := m_sem m - 1\<rparr>"
  obtain st m2 where e: "round_end mail now (r_target r) att res (r_state r) ?m1 = (st, m2)" by fastforce
  have "kept m2" "kept ?m1" using round_control [OF inv returned(2,3) e] k by (auto simp: kept_def)
  then show ?thesis using returned e by (simp add: round_return_def Let_def kept_runner)
next
  case (exited i r)
  then show ?thesis by (simp add: kept_def run_exit_def set_runner_def)
next
  case started
  then show ?thesis
    using k by (auto simp: Start_def split: prod.splits sum.splits intro!: kept_starts dest!: on_store_same intro: kept_same)
next
  case (reloaded now i)
  then show ?thesis
    using kept_stop [OF k, of i]
    by (auto simp: Reload_def split: prod.split sum.split intro!: kept_start dest!: on_store_same intro: kept_same)
next
  case (deleted i)
  obtain r1 m1 where one: "on_store (DeleteTarget i) (stop i m) = (r1, m1)" by fastforce
  obtain r2 m2 where two: "on_store (StoreTarget i) m1 = (r2, m2)" by fastforce
  have k1: "kept m1" using kept_stop [OF k, of i] on_store_same [OF one] by (auto simp: kept_def)
  then have "kept m2" using on_store_same [OF two] by (auto simp: kept_def)
  then show ?thesis using deleted one two k1 by (cases r1; cases r2) (simp_all add: Delete_def kept_start, simp_all add: kept_def)
next
  case cancelled
  then show ?thesis by (simp add: kept_def)
next
  case (retried now)
  have "m_runners (snd (retry_loop mail now incs p m1)) = m_runners m1 \<and> m_done (snd (retry_loop mail now incs p m1)) = m_done m1" for incs p m1
    using retry_loop_silent [of m1 mail now incs p] by (simp add: silent_def same_control_def)
  then show ?thesis
    using retried k by (auto simp: retry_def kept_def split_beta split: option.split sum.split)
next
  case (nudged now i)
  then show ?thesis using k by (auto simp: CheckNow_def kept_def split: option.split if_splits)
qed (use k in \<open>simp_all add: run_tick_def round_begin_def kept_runner rollup_def cleanup_def, auto simp: kept_def set_runner_def\<close>)

lemma reachable_kept: "reachable mail m \<Longrightarrow> kept m"
proof (induction rule: reachable.induct)
  case (step m m')
  then show ?case using kept_mstep minv_reachable by blast
qed (simp add: New_def kept_def)

lemma round_end_stats: "m_stats (snd (round_end mail now t att res st m)) = m_stats (record_stat (ID t) att res m)"
proof -
  have q: "m_stats m2 = m_stats m1" if "on_store q m1 = (r, m2)" for q :: "db \<Rightarrow> 'c result \<times> db" and r and m1 m2 :: "'a Manager"
    using that by (auto simp: on_store_def split: prod.splits)
  have n: "m_stats (snd (notify mail now inc m1)) = m_stats m1" for inc m1
    by (auto simp: notify_def on_store_def split: option.split prod.split sum.split)
  have "m_stats (snd (on_store q m1)) = m_stats m1" for q :: "db \<Rightarrow> unit result \<times> db" and m1 :: "'a Manager"
    by (simp add: on_store_def split: prod.split)
  then show ?thesis
    by (auto simp: round_end_def round_down_def round_up_def Let_def n split: prod.split event.split sum.split dest!: q)
qed

text \<open>A check in flight may return with any result, and the gauge of its target then shows it.\<close>

lemma return_step:
  fixes res :: Result
  assumes inv: "minv m" and "\<not> m_done m" and r: "m_runners m j = Some r" "r_phase r = Checking att"
  shows "\<exists>m' r' st. mstep mail m m' \<and> minv m' \<and> \<not> m_done m' \<and> m_runners m' = (m_runners m)(j \<mapsto> r') \<and> r_phase r' = Waiting \<and>
    m_sem m' = m_sem m - 1 \<and> m_stats m' j = Some st \<and> stat_Checked st \<and> stat_OK st = res_OK res \<and> stat_At st = att"
proof -
  let ?m1 = "m\<lparr>m_sem := m_sem m - 1\<rparr>" and ?m' = "round_return mail j now att res r m"
  obtain st m2 where e: "round_end mail now (r_target r) att res (r_state r) ?m1 = (st, m2)" by fastforce
  note c = round_control [OF inv r e]
  have "m_stats m2 = m_stats (record_stat j att res ?m1)"
    using round_end_stats [of mail now "r_target r" att res "r_state r" ?m1] e minvD(4) [OF inv r(1)] by (simp add: runner_ok_def)
  then have "\<exists>g. m_stats m2 j = Some g \<and> stat_Checked g \<and> stat_OK g = res_OK res \<and> stat_At g = att"
    by (simp add: record_stat_def Let_def)
  moreover have m': "?m' = set_runner j (r\<lparr>r_state := st, r_phase := Waiting\<rparr>) m2"
    using e assms(2) by (simp add: round_return_def Let_def)
  ultimately show ?thesis
    using mstep.returned [OF r, of mail now res] minv_round_return [OF inv r, of mail now res] c assms(2)
    by (intro exI [of _ ?m'] exI [of _ "r\<lparr>r_state := st, r_phase := Waiting\<rparr>"]) (auto simp: set_runner_def)
qed

text \<open>A queued runner gets its slot: when all are taken, a check of another runner can return.\<close>

lemma queued_step:
  assumes inv: "minv m" and "\<not> m_done m" and r: "m_runners m i = Some r" "r_phase r = Queued"
  shows "\<exists>m' r'. (mstep mail)\<^sup>*\<^sup>* m m' \<and> minv m' \<and> \<not> m_done m' \<and> m_runners m' i = Some r' \<and> r_phase r' = Checking att"
proof -
  have begin_it: "\<exists>m' r'. mstep mail m1 m' \<and> minv m' \<and> \<not> m_done m' \<and> m_runners m' i = Some r' \<and> r_phase r' = Checking att"
    if "minv m1" "\<not> m_done m1" "m_runners m1 i = Some r" "m_sem m1 < maxParallel" for m1
    using mstep.began [OF that(3) r(2) that(4), of mail att] minv_round_begin [OF that(1,3) r(2) that(4), of att] that(2)
    by (intro exI [of _ "round_begin i att r m1"] exI [of _ "r\<lparr>r_phase := Checking att\<rparr>"]) (simp add: round_begin_def set_runner_def)
  show ?thesis
  proof (cases "m_sem m < maxParallel")
    case True
    then show ?thesis using begin_it [OF inv assms(2) r(1)] by blast
  next
    case False
    then have "in_flight (m_runners m) \<noteq> {}" using minvD(3) [OF inv] by (auto simp: slots_ok_def maxParallel_def)
    then obtain j rj att0 where j: "m_runners m j = Some rj" "r_phase rj = Checking att0" by (auto simp: in_flight_def)
    then have "j \<noteq> i" using r by auto
    obtain m1 r' where m1: "mstep mail m m1" "minv m1" "\<not> m_done m1" "m_runners m1 = (m_runners m)(j \<mapsto> r')" "m_sem m1 = m_sem m - 1"
      using return_step [OF inv assms(2) j, of mail undefined] by blast
    have "m_sem m1 < maxParallel" using m1(5) minvD(3) [OF inv] False by (auto simp: slots_ok_def maxParallel_def)
    then show ?thesis
      using begin_it [OF m1(2,3)] m1(1,4) r(1) \<open>j \<noteq> i\<close> by (simp add: fun_upd_other) (meson converse_rtranclp_into_rtranclp r_into_rtranclp)
  qed
qed

lemma waiting_step:
  assumes inv: "minv m" and "\<not> m_done m" and r: "m_runners m i = Some r" "r_phase r \<noteq> Exited"
  shows "\<exists>m' r'. (mstep mail)\<^sup>*\<^sup>* m m' \<and> minv m' \<and> \<not> m_done m' \<and> m_runners m' i = Some r' \<and> r_phase r' = Waiting"
proof -
  have return_it: "\<exists>m' r'. (mstep mail)\<^sup>*\<^sup>* m m' \<and> minv m' \<and> \<not> m_done m' \<and> m_runners m' i = Some r' \<and> r_phase r' = Waiting"
    if "(mstep mail)\<^sup>*\<^sup>* m m1" "minv m1" "\<not> m_done m1" "m_runners m1 i = Some r1" "r_phase r1 = Checking att" for m1 r1 att
    using return_step [OF that(2-5), of mail undefined] that(1) by (auto dest: rtranclp.rtrancl_into_rtrancl)
  show ?thesis
  proof (cases "r_phase r")
    case Starting
    obtain st m1 where re: "restore (r_target r) m = (st, m1)" by fastforce
    then show ?thesis
      using mstep.restored [OF r(1) Starting, of mail] minv_run_restore [OF inv r(1) Starting] restore_rows [OF re] assms(2)
      by (intro exI [of _ "run_restore i r m"]) (auto simp: run_restore_def set_runner_def)
  next
    case Queued
    obtain m1 r1 where "(mstep mail)\<^sup>*\<^sup>* m m1" "minv m1" "\<not> m_done m1" "m_runners m1 i = Some r1" "r_phase r1 = Checking 0"
      using queued_step [OF inv assms(2) r(1) Queued, of mail 0] by blast
    then show ?thesis by (rule return_it)
  next
    case (Checking att)
    then show ?thesis using return_it [OF _ inv assms(2) r(1)] by blast
  qed (use assms r in auto)
qed

text \<open>C31: While the service runs nothing keeps a target from being checked: from every state it can be in and for
  every runner, whatever phase it is in and however many slots are taken, there are steps after which a check
  of its target, begun at any given time and with any result, has returned and is shown by the gauge, and
  the runner waits for its next turn.\<close>

theorem runner_can_check:
  fixes res :: Result
  assumes "reachable mail m" and "\<not> m_done m" and "m_runners m i = Some r"
  shows "\<exists>m' r' st. (mstep mail)\<^sup>*\<^sup>* m m' \<and> \<not> m_done m' \<and> m_runners m' i = Some r' \<and> r_phase r' = Waiting \<and>
    m_stats m' i = Some st \<and> stat_Checked st \<and> stat_OK st = res_OK res \<and> stat_At st = att"
proof -
  have "r_phase r \<noteq> Exited" using reachable_kept [OF assms(1)] assms(2,3) by (auto simp: kept_def)
  then obtain m1 r1 where m1: "(mstep mail)\<^sup>*\<^sup>* m m1" "minv m1" "\<not> m_done m1" "m_runners m1 i = Some r1" "r_phase r1 = Waiting"
    using waiting_step [OF minv_reachable [OF assms(1)] assms(2,3)] by blast
  let ?m2 = "run_tick i r1 m1"
  have m2: "mstep mail m1 ?m2" "minv ?m2" "\<not> m_done ?m2" "m_runners ?m2 i = Some (r1\<lparr>r_phase := Queued\<rparr>)"
    using mstep.ticked [OF m1(4,5), of mail] minv_mstep [OF _ m1(2)] m1(3) by (simp_all add: run_tick_def set_runner_def)
  obtain m3 r3 where m3: "(mstep mail)\<^sup>*\<^sup>* ?m2 m3" "minv m3" "\<not> m_done m3" "m_runners m3 i = Some r3" "r_phase r3 = Checking att"
    using queued_step [OF m2(2-4), of mail att] by auto
  obtain m4 r4 st where m4: "mstep mail m3 m4" "\<not> m_done m4" "m_runners m4 i = Some r4" "r_phase r4 = Waiting"
      "m_stats m4 i = Some st" "stat_Checked st" "stat_OK st = res_OK res" "stat_At st = att"
    using return_step [OF m3(2-5), of mail res] by auto
  have "(mstep mail)\<^sup>*\<^sup>* m m4" using m1(1) m2(1) m3(1) m4(1) by (meson rtranclp_trans rtranclp.rtrancl_into_rtrancl)
  then show ?thesis using m4 by blast
qed

theorem runner_can_check_witness:
  "\<exists>m' st. (mstep (Some demo))\<^sup>*\<^sup>* demo1 m' \<and> m_stats m' 1 = Some st \<and> stat_OK st = False \<and> stat_At st = fromUnix 70"
proof -
  have "m_runners demo1 1 \<noteq> None" "\<not> m_done demo1" "res_OK demo_result = False" by code_simp+
  then show ?thesis using runner_can_check [OF demo1_reachable, of 1 _ demo_result "fromUnix 70"] by fastforce
qed

end
