(* ===== verification/Smtp_Server.thy ===== *)
theory Smtp_Server
  imports Mail_Text Base64
begin

text \<open>
  The SMTP server of \<^verbatim>\<open>internal/alert/smtptest/server.go\<close>, byte for byte: the commands, the login, the message behind
  \<^verbatim>\<open>DATA\<close>, and the failures it can be told to make. It is the other side of the dialogue in \<open>Mailer\<close>: the bytes
  that \<^verbatim>\<open>net/smtp\<close> sends for each command are defined here, with the dot stuffing of \<^verbatim>\<open>net/textproto\<close>, and a mail
  is followed from the mailer into the server's list of messages. One connection is one call of \<open>serve\<close> on
  the bytes the client sent; the listener and the goroutines are in \<open>Smtp_Listener\<close>.
\<close>

section \<open>Lines\<close>

definition dropCR :: "string \<Rightarrow> string" where
  "dropCR l = (if l \<noteq> [] \<and> last l = CHR 0x0D then butlast l else l)"

text \<open>The next line and the rest; a last line without its end is a line, too.\<close>

definition readLine :: "string \<Rightarrow> (string \<times> string) option" where
  "readLine s =
     (if s = [] then None
      else (case dropWhile (\<lambda>c. c \<noteq> CHR 0x0A) s of
              [] \<Rightarrow> Some (s, [])
            | _ # rest \<Rightarrow> Some (dropCR (takeWhile (\<lambda>c. c \<noteq> CHR 0x0A) s), rest)))"

section \<open>Messages with dots\<close>

text \<open>The reader of \<^verbatim>\<open>net/textproto\<close>: up to a line with a single dot, without the stuffed dots and with the ends of
  lines as single line feeds; \<open>None\<close> when the input ends before.\<close>

datatype dot_read = BeginLine | Dot | DotCR | SawCR | InData

definition emit :: "char \<Rightarrow> (string \<times> string) option \<Rightarrow> (string \<times> string) option" where
  "emit c = map_option (map_prod ((#) c) id)"

fun readDot :: "dot_read \<Rightarrow> string \<Rightarrow> (string \<times> string) option" where
  "readDot st [] = None"
| "readDot st (c # s) =
     (let inData = (if c = CHR 0x0D then readDot SawCR s else emit c (readDot (if c = CHR 0x0A then BeginLine else InData) s)) in
      case st of
        BeginLine \<Rightarrow>
          if c = CHR ''.'' then readDot Dot s else if c = CHR 0x0D then readDot SawCR s else emit c (readDot InData s)
      | Dot \<Rightarrow>
          if c = CHR 0x0D then readDot DotCR s else if c = CHR 0x0A then Some ([], s) else emit c (readDot InData s)
      | DotCR \<Rightarrow> if c = CHR 0x0A then Some ([], s) else emit (CHR 0x0D) inData
      | SawCR \<Rightarrow> if c = CHR 0x0A then emit c (readDot BeginLine s) else emit (CHR 0x0D) inData
      | InData \<Rightarrow> inData)"

text \<open>The writer, with the state it is in at the end.\<close>

datatype dot_write = WBegin | WBeginLine | WSawCR | WData

fun dotWrite :: "dot_write \<Rightarrow> string \<Rightarrow> string \<times> dot_write" where
  "dotWrite st [] = ([], st)"
| "dotWrite st (c # s) =
     (if st = WSawCR
      then (case dotWrite (if c = CHR 0x0A then WBeginLine else WData) s of (out, st1) \<Rightarrow> (c # out, st1))
      else let stuff = (if st \<noteq> WData \<and> c = CHR ''.'' then ''.'' else [])
           in if c = CHR 0x0A then (case dotWrite WBeginLine s of (out, st1) \<Rightarrow> (CHR 0x0D # c # out, st1))
              else (case dotWrite (if c = CHR 0x0D then WSawCR else WData) s of (out, st1) \<Rightarrow> (stuff @ c # out, st1)))"

definition dotClose :: "dot_write \<Rightarrow> string" where
  "dotClose st =
     (case st of WBeginLine \<Rightarrow> [] | WSawCR \<Rightarrow> nl | _ \<Rightarrow> crlf) @ ''.'' @ crlf"

section \<open>Padded base 64\<close>

definition encodeStd :: "string \<Rightarrow> string" where
  "encodeStd s = (let e = encode64 stdAlphabet s in e @ replicate ((4 - length e mod 4) mod 4) (CHR ''=''))"

definition decodeStd :: "string \<Rightarrow> string option" where
  "decodeStd s =
     (let t = filter (\<lambda>c. c \<noteq> CHR 0x0D \<and> c \<noteq> CHR 0x0A) s;
          pads = min 2 (length (takeWhile (\<lambda>c. c = CHR ''='') (rev t)))
      in if length t mod 4 = 0 then decode64 stdAlphabet False (take (length t - pads) t) else None)"

section \<open>The server\<close>

record Message =
  msg_From :: string
  msg_To :: "string list"
  msg_Data :: string

text \<open>The channel \<^verbatim>\<open>changed\<close> has room for one token; \<open>sm_changed\<close> says whether it is there.\<close>

record smtp_server =
  sm_user :: string
  sm_pass :: string
  sm_msgs :: "Message list"
  sm_failData :: int
  sm_changed :: bool

definition smtp_start :: "string \<Rightarrow> string \<Rightarrow> smtp_server" where
  "smtp_start user pass = \<lparr>sm_user = user, sm_pass = pass, sm_msgs = [], sm_failData = 0, sm_changed = False\<rparr>"

definition FailData :: "int \<Rightarrow> smtp_server \<Rightarrow> smtp_server" where
  "FailData n s = s\<lparr>sm_failData := n\<rparr>"

definition smtp_addr :: "string \<Rightarrow> string" where
  "smtp_addr arg =
     (case cutAt (CHR ''<'') arg of (_, rest, _) \<Rightarrow> case cutAt (CHR ''>'') rest of (a, _, _) \<Rightarrow> a)"

definition checkPlain :: "string \<Rightarrow> smtp_server \<Rightarrow> bool" where
  "checkPlain resp s \<longleftrightarrow>
     (case decodeStd resp of
        None \<Rightarrow> False
      | Some raw \<Rightarrow>
          let parts = splitAt (CHR 0x00) raw
          in length parts = 3 \<and> parts ! 1 = sm_user s \<and> parts ! 2 = sm_pass s)"

definition smtp_store :: "Message \<Rightarrow> smtp_server \<Rightarrow> bool \<times> smtp_server" where
  "smtp_store m s =
     (if 0 < sm_failData s then (False, s\<lparr>sm_failData := sm_failData s - 1\<rparr>)
      else (True, s\<lparr>sm_msgs := sm_msgs s @ [m], sm_changed := True\<rparr>))"

text \<open>Upper case as far as comparing with a word of ASCII letters sees it: of all other runes only the dotless i
  and the long s have an ASCII upper case.\<close>

definition upperChar :: "char \<Rightarrow> char" where
  "upperChar c = (if 97 \<le> byte c \<and> byte c \<le> 122 then char_of (byte c - 32) else c)"

fun upperVerb :: "string \<Rightarrow> string" where
  "upperVerb (c # d # s) =
     (if c = CHR 0xC4 \<and> d = CHR 0xB1 then CHR ''I'' # upperVerb s
      else if c = CHR 0xC5 \<and> d = CHR 0xBF then CHR ''S'' # upperVerb s
      else upperChar c # upperVerb (d # s))"
| "upperVerb [c] = [upperChar c]"
| "upperVerb [] = []"

text \<open>What one turn of the loop comes to: the lines written and either the end of the connection or the
  variables \<^verbatim>\<open>authed\<close> and \<^verbatim>\<open>msg\<close>, the server and the unread input.\<close>

datatype turn = Hangup "string list" smtp_server | Continue "string list" bool "Message option" smtp_server string

definition auth_turn :: "string list \<Rightarrow> string \<Rightarrow> string \<Rightarrow> bool \<Rightarrow> Message option \<Rightarrow> smtp_server \<Rightarrow> turn" where
  "auth_turn out resp rest authed msg s =
     (if checkPlain resp s then Continue (out @ [''235 ok'']) True msg s rest
      else Continue (out @ [''535 falsche zugangsdaten'']) authed msg s rest)"

definition serve_cmd :: "string \<Rightarrow> string \<Rightarrow> bool \<Rightarrow> Message option \<Rightarrow> smtp_server \<Rightarrow> turn" where
  "serve_cmd line rest authed msg s =
     (case cutAt (CHR '' '') line of (verb, arg, _) \<Rightarrow>
      let v = upperVerb verb in
      if v = ''EHLO'' then Continue [''250-smtptest'', ''250 AUTH PLAIN''] authed msg s rest
      else if v = ''HELO'' then Continue [''250 smtptest''] authed msg s rest
      else if v = ''AUTH''
      then (case cutAt (CHR '' '') arg of (mech, resp, _) \<Rightarrow>
              if map upperChar mech \<noteq> ''PLAIN'' then Continue [''504 nur PLAIN''] authed msg s rest
              else if resp = []
              then (case readLine rest of
                      None \<Rightarrow> Hangup [''334 ''] s
                    | Some (resp1, rest1) \<Rightarrow> auth_turn [''334 ''] resp1 rest1 authed msg s)
              else auth_turn [] resp rest authed msg s)
      else if v = ''MAIL''
      then if \<not> authed then Continue [''530 erst anmelden''] authed msg s rest
           else Continue [''250 ok''] authed (Some \<lparr>msg_From = smtp_addr arg, msg_To = [], msg_Data = []\<rparr>) s rest
      else if v = ''RCPT''
      then (case msg of
              None \<Rightarrow> Continue [''503 erst MAIL''] authed msg s rest
            | Some m \<Rightarrow> Continue [''250 ok''] authed (Some (m\<lparr>msg_To := msg_To m @ [smtp_addr arg]\<rparr>)) s rest)
      else if v = ''DATA''
      then (case msg of
              None \<Rightarrow> Continue [''503 erst MAIL und RCPT''] authed msg s rest
            | Some m \<Rightarrow>
                if msg_To m = [] then Continue [''503 erst MAIL und RCPT''] authed msg s rest
                else (case readDot BeginLine rest of
                        None \<Rightarrow> Hangup [''354 ende mit <CRLF>.<CRLF>''] s
                      | Some (data, rest1) \<Rightarrow>
                          (case smtp_store (m\<lparr>msg_Data := data\<rparr>) s of (ok, s1) \<Rightarrow>
                             Continue [''354 ende mit <CRLF>.<CRLF>'', if ok then ''250 ok'' else ''451 voruebergehend nicht moeglich'']
                               authed None s1 rest1)))
      else if v = ''RSET'' then Continue [''250 ok''] authed None s rest
      else if v = ''NOOP'' then Continue [''250 ok''] authed msg s rest
      else if v = ''QUIT'' then Hangup [''221 bye''] s
      else Continue [''502 unbekannt''] authed msg s rest)"

lemma readLine_less: "readLine s = Some (l, rest) \<Longrightarrow> length rest < length s"
proof -
  assume r: "readLine s = Some (l, rest)"
  have "length (dropWhile (\<lambda>c. c \<noteq> CHR 0x0A) s) \<le> length s" by (rule length_dropWhile_le)
  then show ?thesis using r by (auto simp: readLine_def split: if_splits list.splits)
qed

lemma readDot_less: "readDot st s = Some (d, rest) \<Longrightarrow> length rest < length s"
proof (induction s arbitrary: st d)
  case (Cons c s)
  have e: "length rest < length s" if "emit x r = Some (d', rest)" "\<And>d. r = Some (d, rest) \<Longrightarrow> length rest < length s" for x r d'
    using that by (auto simp: emit_def)
  show ?case
    using Cons.prems Cons.IH
    by (auto simp: Let_def split: dot_read.splits if_splits dest!: e; fastforce simp: emit_def)
qed simp

lemma serve_cmd_less: "serve_cmd line rest a m s = Continue out a1 m1 s1 rest1 \<Longrightarrow> length rest1 \<le> length rest"
  using readLine_less [of rest] readDot_less [of BeginLine rest]
  by (auto simp: serve_cmd_def auth_turn_def Let_def split: prod.splits if_splits option.splits dest!: less_imp_le)

function serve_loop :: "bool \<Rightarrow> Message option \<Rightarrow> smtp_server \<Rightarrow> string \<Rightarrow> string list \<times> smtp_server" where
  "serve_loop authed msg s input =
     (case readLine input of
        None \<Rightarrow> ([], s)
      | Some (line, rest) \<Rightarrow>
          (case serve_cmd line rest authed msg s of
             Hangup out s1 \<Rightarrow> (out, s1)
           | Continue out a1 m1 s1 rest1 \<Rightarrow> (case serve_loop a1 m1 s1 rest1 of (out2, s2) \<Rightarrow> (out @ out2, s2))))"
  by pat_completeness auto
termination
  by (relation "measure (\<lambda>(_, _, _, input). length input)") (auto dest!: readLine_less serve_cmd_less)

declare serve_loop.simps [simp del]

definition serve :: "smtp_server \<Rightarrow> string \<Rightarrow> string list \<times> smtp_server" where
  "serve s input = (case serve_loop False None s input of (out, s1) \<Rightarrow> (''220 smtptest ESMTP'' # out, s1))"

section \<open>The client\<close>

text \<open>What \<^verbatim>\<open>net/smtp\<close> writes for each command of the mailer, and the state of the dot writer. The greeting \<^verbatim>\<open>EHLO\<close> goes
  out before the first command.\<close>

definition ehlo :: string where "ehlo = ''EHLO localhost'' @ crlf"

fun cmdBytes :: "Mailer \<Rightarrow> dot_write \<Rightarrow> smtp_cmd \<Rightarrow> string \<times> dot_write" where
  "cmdBytes m w Auth = (ehlo @ ''AUTH PLAIN '' @ encodeStd (CHR 0x00 # User m @ CHR 0x00 # Pass m) @ crlf, w)"
| "cmdBytes m w (MailFrom a) = ((if User m = [] then ehlo else []) @ ''MAIL FROM:<'' @ a @ ''>'' @ crlf, w)"
| "cmdBytes m w (Rcpt a) = (''RCPT TO:<'' @ a @ ''>'' @ crlf, w)"
| "cmdBytes m w Data = (''DATA'' @ crlf, WBegin)"
| "cmdBytes m w (Write t) = dotWrite w t"
| "cmdBytes m w CloseData = (dotClose w, w)"
| "cmdBytes m w Quit = (''QUIT'' @ crlf, w)"
| "cmdBytes m w _ = ([], w)"

text \<open>The code a command waits for: that of the last line the server wrote.\<close>

fun cmdWant :: "smtp_cmd \<Rightarrow> string" where
  "cmdWant NewClient = ''220''"
| "cmdWant Auth = ''235''"
| "cmdWant Data = ''354''"
| "cmdWant (Write t) = ''354''"
| "cmdWant Quit = ''221''"
| "cmdWant _ = ''250''"

text \<open>The commands one after the other, each sent only after the answer to the one before was the right one:
  which of them the server refuses, and the server in the end. What was sent so far is \<open>out\<close>.\<close>

fun refuses :: "smtp_server \<Rightarrow> Mailer \<Rightarrow> string \<Rightarrow> dot_write \<Rightarrow> smtp_cmd list \<Rightarrow> bool list \<times> smtp_server" where
  "refuses s m out w [] = ([], snd (serve s out))"
| "refuses s m out w (c # cs) =
     (case cmdBytes m w c of (b, w1) \<Rightarrow>
        if take 3 (last (fst (serve s (out @ b)))) = cmdWant c
        then (case refuses s m (out @ b) w1 cs of (fs, s1) \<Rightarrow> (False # fs, s1))
        else ([True], snd (serve s (out @ b))))"

section \<open>Messages survive the dots\<close>

text \<open>Every carriage return ends a line, as in the messages the mailer builds.\<close>

fun properCR :: "string \<Rightarrow> bool" where
  "properCR [] \<longleftrightarrow> True"
| "properCR (c # s) \<longleftrightarrow> (c = CHR 0x0D \<longrightarrow> s \<noteq> [] \<and> hd s = CHR 0x0A) \<and> properCR s"

definition arrived :: "string \<Rightarrow> string" where
  "arrived t = filter (\<lambda>c. c \<noteq> CHR 0x0D) t @ (if t \<noteq> [] \<and> last t = CHR 0x0A then [] else nl)"

fun reading :: "dot_write \<Rightarrow> dot_read" where
  "reading WSawCR = SawCR"
| "reading WData = InData"
| "reading _ = BeginLine"

definition behind :: "string \<Rightarrow> (string \<times> string) option \<Rightarrow> (string \<times> string) option" where
  "behind p = map_option (map_prod ((@) p) id)"

lemma behind_simps [simp]:
  "emit c r = behind [c] r" "behind [] r = r" "behind p (behind q r) = behind (p @ q) r"
  "behind p None = None" "behind p (Some (d, x)) = Some (p @ d, x)"
  by (cases r; auto simp: behind_def emit_def)+

lemma dot_prefix:
  "properCR s \<Longrightarrow> (w = WSawCR \<longrightarrow> s \<noteq> [] \<and> hd s = CHR 0x0A) \<Longrightarrow> dotWrite w s = (out, w1) \<Longrightarrow>
   readDot (reading w) (out @ X) = behind (filter (\<lambda>c. c \<noteq> CHR 0x0D) s) (readDot (reading w1) X) \<and>
   w1 = (if s = [] then w else if last s = CHR 0x0A then WBeginLine else WData)"
proof (induction s arbitrary: w out)
  case Nil
  then show ?case by simp
next
  case (Cons c s)
  show ?case
  proof (cases "c = CHR 0x0A")
    case True
    then obtain out1 where one: "dotWrite WBeginLine s = (out1, w1)" "out = (if w = WSawCR then c # out1 else CHR 0x0D # c # out1)"
      using Cons.prems(3) by (auto split: if_splits prod.splits)
    show ?thesis
      using Cons.IH [OF _ _ one(1)] Cons.prems(1) True one(2)
      by (cases w) auto
  next
    case False
    then have w: "w \<noteq> WSawCR" using Cons.prems(2) by auto
    show ?thesis
    proof (cases "c = CHR 0x0D")
      case True
      then obtain out1 where one: "dotWrite WSawCR s = (out1, w1)" "out = c # out1"
        using Cons.prems(3) w by (auto split: prod.splits)
      have "s \<noteq> []" "hd s = CHR 0x0A" "properCR s" using Cons.prems(1) True by auto
      then show ?thesis using Cons.IH [OF _ _ one(1)] True one(2) w by (cases w) auto
    next
      case no: False
      obtain out1 where one: "dotWrite WData s = (out1, w1)" "out = (if w \<noteq> WData \<and> c = CHR ''.'' then ''..'' else [c]) @ out1"
        using Cons.prems(3) w no False by (auto split: prod.splits)
      show ?thesis
        using Cons.IH [OF _ _ one(1)] Cons.prems(1) False no one(2) w by (cases w) auto
    qed
  qed
qed

lemma dot_roundtrip:
  assumes "properCR t" and "dotWrite WBegin t = (out, w)"
  shows "readDot BeginLine out = None" and "readDot BeginLine (out @ dotClose w @ X) = Some (arrived t, X)"
proof -
  have w: "w = (if t = [] then WBegin else if last t = CHR 0x0A then WBeginLine else WData)"
    using dot_prefix [OF assms(1) _ assms(2), of "[]"] by simp
  then show "readDot BeginLine out = None" using dot_prefix [OF assms(1) _ assms(2), of "[]"] by simp
  have "readDot (reading w) (dotClose w @ X) = Some (if w = WBeginLine then [] else nl, X)"
    using w by (auto simp: dotClose_def crlf_def nl_def)
  then show "readDot BeginLine (out @ dotClose w @ X) = Some (arrived t, X)"
    using dot_prefix [OF assms(1) _ assms(2), of "dotClose w @ X"] w by (auto simp: arrived_def)
qed

section \<open>The login\<close>

lemma sextets_length: "length (sextets bs) mod 4 \<noteq> 1"
  by (induction bs rule: sextets.induct) simp_all

lemma padding_length:
  fixes n :: nat
  assumes "n mod 4 \<noteq> 1"
  shows "(4 - n mod 4) mod 4 \<le> 2 \<and> (n + (4 - n mod 4) mod 4) mod 4 = 0"
proof -
  define r where "r = n mod 4"
  have "r < 4" "r \<noteq> 1" using assms by (simp_all add: r_def)
  then have "r = 0 \<or> r = 2 \<or> r = 3" by arith
  then have "(4 - r) mod 4 \<le> 2 \<and> (r + (4 - r) mod 4) mod 4 = 0" by auto
  moreover have "(n + (4 - r) mod 4) mod 4 = (r + (4 - r) mod 4) mod 4" unfolding r_def by (rule mod_add_left_eq [symmetric])
  ultimately show ?thesis unfolding r_def by simp
qed

lemma decodeStd_encodeStd: "decodeStd (encodeStd s) = Some s"
proof -
  define e where "e = encode64 stdAlphabet s"
  define k where "k = (4 - length e mod 4) mod 4"
  have chars: "set e \<subseteq> set stdAlphabet" unfolding e_def by (rule encode64_chars) simp
  moreover have "CHR ''='' \<notin> set stdAlphabet" "CHR 0x0D \<notin> set stdAlphabet" "CHR 0x0A \<notin> set stdAlphabet" by code_simp+
  ultimately have no: "CHR ''='' \<notin> set e" "CHR 0x0D \<notin> set e" "CHR 0x0A \<notin> set e" by blast+
  have "length e mod 4 \<noteq> 1" using sextets_length [of "map byte s"] by (simp add: e_def encode64_def)
  then have k: "k \<le> 2" "(length e + k) mod 4 = 0" unfolding k_def using padding_length by blast+
  have "filter (\<lambda>c. c \<noteq> CHR 0x0D \<and> c \<noteq> CHR 0x0A) (e @ replicate k (CHR ''='')) = e @ replicate k (CHR ''='')"
    using no by (auto simp: filter_id_conv)
  moreover have "takeWhile (\<lambda>c. c = CHR ''='') (rev (e @ replicate k (CHR ''=''))) = replicate k (CHR ''='')"
  proof -
    have "takeWhile (\<lambda>c. c = CHR ''='') (rev e) = []" using no(1) by (cases "rev e") (auto simp flip: set_rev [of e])
    then show ?thesis by (subst rev_append, subst rev_replicate, subst takeWhile_append2) auto
  qed
  ultimately show ?thesis
    using k by (simp add: decodeStd_def encodeStd_def Let_def e_def [symmetric] k_def [symmetric] min_def)
      (simp add: e_def decode64_encode64)
qed

definition noNUL :: "string \<Rightarrow> bool" where "noNUL s \<longleftrightarrow> CHR 0x00 \<notin> set s"

lemma checkPlain_client:
  assumes "noNUL user" and "noNUL pass"
  shows "checkPlain (encodeStd (CHR 0x00 # user @ CHR 0x00 # pass)) s \<longleftrightarrow> user = sm_user s \<and> pass = sm_pass s"
proof -
  have "splitAt (CHR 0x00) (CHR 0x00 # user @ CHR 0x00 # pass) = [[], user, pass]"
    using assms by (simp add: noNUL_def splitAt_append splitAt_single)
  then show ?thesis by (simp add: checkPlain_def decodeStd_encodeStd Let_def)
qed

section \<open>Commands in a row\<close>

type_synonym smtp_conn = "bool \<times> Message option \<times> smtp_server"

definition loop_from :: "smtp_conn \<Rightarrow> string \<Rightarrow> string list \<times> smtp_server" where
  "loop_from c X = (case c of (a, m, s) \<Rightarrow> serve_loop a m s X)"

text \<open>The bytes \<open>P\<close> are whole commands, which the server answers with \<open>out\<close>, whatever comes behind them.\<close>

definition handles :: "string \<Rightarrow> smtp_conn \<Rightarrow> string list \<Rightarrow> smtp_conn \<Rightarrow> bool" where
  "handles P c out c1 \<longleftrightarrow> (\<forall>X. loop_from c (P @ X) = (out @ fst (loop_from c1 X), snd (loop_from c1 X)))"

lemma loop_Nil [simp]: "loop_from (a, m, s) [] = ([], s)"
  by (simp add: loop_from_def serve_loop.simps readLine_def)

lemma handles_Nil [simp]: "handles [] c [] c"
  by (simp add: handles_def)

lemma handles_append: "handles P c out c1 \<Longrightarrow> handles Q c1 out1 c2 \<Longrightarrow> handles (P @ Q) c (out @ out1) c2"
  by (simp add: handles_def)

lemma readLine_line: "CHR 0x0A \<notin> set l \<Longrightarrow> readLine (l @ crlf @ X) = Some (l, X)"
proof -
  assume l: "CHR 0x0A \<notin> set l"
  have "takeWhile (\<lambda>c. c \<noteq> CHR 0x0A) ((l @ [CHR 0x0D]) @ CHR 0x0A # X) = l @ [CHR 0x0D]" using l by (intro takeWhile_upto) simp
  moreover have "dropWhile (\<lambda>c. c \<noteq> CHR 0x0A) (l @ CHR 0x0D # CHR 0x0A # X) = CHR 0x0A # X" using l by (subst dropWhile_append2) auto
  ultimately show ?thesis by (simp add: readLine_def crlf_def dropCR_def)
qed

lemma loop_line:
  "CHR 0x0A \<notin> set l \<Longrightarrow>
   loop_from (a, m, s) (l @ crlf @ X) =
     (case serve_cmd l X a m s of
        Hangup out s1 \<Rightarrow> (out, s1)
      | Continue out a1 m1 s1 X1 \<Rightarrow> (out @ fst (loop_from (a1, m1, s1) X1), snd (loop_from (a1, m1, s1) X1)))"
  by (simp add: loop_from_def serve_loop.simps [of a m s] readLine_line split: turn.split prod.split)

lemma handles_line:
  assumes "CHR 0x0A \<notin> set l" and "\<And>X. serve_cmd l X a m s = Continue out a1 m1 s1 X"
  shows "handles (l @ crlf) (a, m, s) out (a1, m1, s1)"
  using assms by (simp add: handles_def loop_line)

lemma upperVerb_words [simp]:
  "upperVerb ''EHLO'' = ''EHLO''" "upperVerb ''AUTH'' = ''AUTH''" "upperVerb ''MAIL'' = ''MAIL''" "upperVerb ''RCPT'' = ''RCPT''"
  "upperVerb ''DATA'' = ''DATA''" "upperChar (CHR ''P'') = CHR ''P''" "upperChar (CHR ''L'') = CHR ''L''" "upperChar (CHR ''A'') = CHR ''A''"
  "upperChar (CHR ''I'') = CHR ''I''" "upperChar (CHR ''N'') = CHR ''N''"
  by code_simp+

declare upperVerb.simps [simp del]

lemma cutAt_word [simp]:
  "cutAt (CHR '' '') (''EHLO '' @ t) = (''EHLO'', t, True)" "cutAt (CHR '' '') (''AUTH '' @ t) = (''AUTH'', t, True)"
  "cutAt (CHR '' '') (''MAIL '' @ t) = (''MAIL'', t, True)" "cutAt (CHR '' '') (''RCPT '' @ t) = (''RCPT'', t, True)"
  "cutAt (CHR '' '') (''PLAIN '' @ t) = (''PLAIN'', t, True)" "cutAt (CHR '' '') ''DATA'' = (''DATA'', [], False)"
  by (simp_all add: cutAt_def)

definition plainAddr :: "string \<Rightarrow> bool" where
  "plainAddr a \<longleftrightarrow> CHR 0x0A \<notin> set a \<and> CHR 0x0D \<notin> set a \<and> CHR ''>'' \<notin> set a"

lemma addr_plain: "plainAddr a \<Longrightarrow> smtp_addr (''FROM:<'' @ a @ ''>'') = a \<and> smtp_addr (''TO:<'' @ a @ ''>'') = a"
proof -
  assume "plainAddr a"
  then have "cutAt (CHR ''>'') (a @ CHR ''>'' # []) = (a, [], True)" by (intro cutAt_append) (simp add: plainAddr_def)
  moreover have "cutAt (CHR ''<'') (''FROM:<'' @ t) = (''FROM:'', t, True)" "cutAt (CHR ''<'') (''TO:<'' @ t) = (''TO:'', t, True)" for t
    by (simp_all add: cutAt_def)
  ultimately show ?thesis by (simp add: smtp_addr_def)
qed


lemma handles_ehlo: "handles ehlo (a, m, s) [''250-smtptest'', ''250 AUTH PLAIN''] (a, m, s)"
  unfolding ehlo_def using cutAt_word(1) [of "''localhost''"] by (intro handles_line) (simp_all add: serve_cmd_def Let_def)

lemma encodeStd_line: "CHR 0x0A \<notin> set (encodeStd s)"
proof -
  have "set (encode64 stdAlphabet s) \<subseteq> set stdAlphabet" by (rule encode64_chars) simp
  moreover have "CHR 0x0A \<notin> set stdAlphabet" by code_simp
  ultimately have "CHR 0x0A \<notin> set (encode64 stdAlphabet s)" by blast
  then show ?thesis by (auto simp: encodeStd_def Let_def)
qed

lemma handles_auth:
  assumes "noNUL user" and "noNUL pass"
  shows "handles (''AUTH PLAIN '' @ encodeStd (CHR 0x00 # user @ CHR 0x00 # pass) @ crlf) (False, m, s)
    [if user = sm_user s \<and> pass = sm_pass s then ''235 ok'' else ''535 falsche zugangsdaten'']
    (user = sm_user s \<and> pass = sm_pass s, m, s)"
proof -
  define e ok where "e = encodeStd (CHR 0x00 # user @ CHR 0x00 # pass)" and "ok \<longleftrightarrow> user = sm_user s \<and> pass = sm_pass s"
  have e: "e \<noteq> []" "CHR 0x0A \<notin> set e" "checkPlain e s = ok"
    using decodeStd_encodeStd [of "CHR 0x00 # user @ CHR 0x00 # pass"] encodeStd_line checkPlain_client [OF assms, of s]
    by (auto simp: e_def ok_def decodeStd_def decode64_def)
  have "serve_cmd (''AUTH '' @ ''PLAIN '' @ e) X False m s = Continue [if ok then ''235 ok'' else ''535 falsche zugangsdaten''] ok m s X" for X
    using e cutAt_word(2) [of "''PLAIN '' @ e"] cutAt_word(5) [of e] by (simp add: serve_cmd_def Let_def auth_turn_def)
  then have "handles ((''AUTH '' @ ''PLAIN '' @ e) @ crlf) (False, m, s) [if ok then ''235 ok'' else ''535 falsche zugangsdaten''] (ok, m, s)"
    using e(2) by (intro handles_line) simp_all
  then show ?thesis unfolding e_def ok_def by simp
qed

lemma handles_mail:
  assumes "plainAddr x"
  shows "handles (''MAIL FROM:<'' @ x @ ''>'' @ crlf) (a, m, s) (if a then [''250 ok''] else [''530 erst anmelden''])
    (a, if a then Some \<lparr>msg_From = x, msg_To = [], msg_Data = []\<rparr> else m, s)"
  using handles_line [of "''MAIL '' @ ''FROM:<'' @ x @ ''>''" a m s] cutAt_word(3) [of "''FROM:<'' @ x @ ''>''"] addr_plain [OF assms] assms
  by (simp add: serve_cmd_def Let_def plainAddr_def)

lemma handles_rcpt:
  assumes "plainAddr x"
  shows "handles (''RCPT TO:<'' @ x @ ''>'' @ crlf) (a, Some m, s) [''250 ok''] (a, Some (m\<lparr>msg_To := msg_To m @ [x]\<rparr>), s)"
  using handles_line [of "''RCPT '' @ ''TO:<'' @ x @ ''>''" a "Some m" s] cutAt_word(4) [of "''TO:<'' @ x @ ''>''"] addr_plain [OF assms] assms
  by (simp add: serve_cmd_def Let_def plainAddr_def)

lemma loop_data:
  "msg_To m \<noteq> [] \<Longrightarrow>
   loop_from (a, Some m, s) (''DATA'' @ crlf @ X) =
     (case readDot BeginLine X of
        None \<Rightarrow> ([''354 ende mit <CRLF>.<CRLF>''], s)
      | Some (d, X1) \<Rightarrow>
          (case smtp_store (m\<lparr>msg_Data := d\<rparr>) s of (ok, s1) \<Rightarrow>
            (''354 ende mit <CRLF>.<CRLF>'' # (if ok then ''250 ok'' else ''451 voruebergehend nicht moeglich'') # fst (loop_from (a, None, s1) X1),
             snd (loop_from (a, None, s1) X1))))"
  using loop_line [of "''DATA''" a "Some m" s X] by (simp add: serve_cmd_def Let_def split: option.split prod.split)

section \<open>Following a mail\<close>

text \<open>After the bytes \<open>out\<close> the last line of the server is \<open>l\<close> and the loop goes on from \<open>c\<close>.\<close>

definition talked :: "smtp_server \<Rightarrow> string \<Rightarrow> string \<Rightarrow> smtp_conn \<Rightarrow> bool" where
  "talked s0 out l c \<longleftrightarrow> (\<exists>ls. handles out (False, None, s0) ls c \<and> last (''220 smtptest ESMTP'' # ls) = l)"

lemma serve_talked:
  assumes "talked s0 out l c"
  shows "last (fst (serve s0 (out @ X))) = (if fst (loop_from c X) = [] then l else last (fst (loop_from c X)))"
    and "snd (serve s0 (out @ X)) = snd (loop_from c X)"
proof -
  obtain ls where h: "handles out (False, None, s0) ls c" and l: "last (''220 smtptest ESMTP'' # ls) = l" using assms by (auto simp: talked_def)
  have "serve_loop False None s0 (out @ X) = (ls @ fst (loop_from c X), snd (loop_from c X))"
    using h by (simp add: handles_def loop_from_def [of "(False, None, s0)"])
  then show "last (fst (serve s0 (out @ X))) = (if fst (loop_from c X) = [] then l else last (fst (loop_from c X)))"
    "snd (serve s0 (out @ X)) = snd (loop_from c X)"
    using l by (auto simp: serve_def split: if_splits)
qed

lemma talked_step: "talked s0 out l c \<Longrightarrow> handles b c ls c1 \<Longrightarrow> ls \<noteq> [] \<Longrightarrow> talked s0 (out @ b) (last ls) c1"
  unfolding talked_def by (elim exE conjE, rule exI, rule conjI, erule (1) handles_append) simp

lemma refuses_accept:
  assumes "cmdBytes m w c = (b, w1)" and "talked s0 (out @ b) l (a, mm, s)" and "take 3 l = cmdWant c"
  shows "refuses s0 m out w (c # cs) = (False # fst (refuses s0 m (out @ b) w1 cs), snd (refuses s0 m (out @ b) w1 cs))"
  using assms serve_talked(1) [OF assms(2), of "[]"] by (simp split: prod.split)

lemma refuses_deny:
  assumes "cmdBytes m w c = (b, w1)" and "talked s0 (out @ b) l (a, mm, s)" and "take 3 l \<noteq> cmdWant c"
  shows "refuses s0 m out w (c # cs) = ([True], s)"
  using assms serve_talked [OF assms(2), of "[]"] by simp

lemma refuses_rcpts:
  "\<forall>a \<in> set ts. plainAddr a \<Longrightarrow> talked s0 out l (True, Some mm, s) \<Longrightarrow>
   \<exists>out1 l1. talked s0 out1 l1 (True, Some (mm\<lparr>msg_To := msg_To mm @ ts\<rparr>), s) \<and>
     refuses s0 m out w (map Rcpt ts @ cs) =
       (replicate (length ts) False @ fst (refuses s0 m out1 w cs), snd (refuses s0 m out1 w cs))"
proof (induction ts arbitrary: out l mm)
  case Nil
  then show ?case by auto
next
  case (Cons a ts)
  let ?b = "''RCPT TO:<'' @ a @ ''>'' @ crlf" and ?m = "mm\<lparr>msg_To := msg_To mm @ [a]\<rparr>"
  have t: "talked s0 (out @ ?b) ''250 ok'' (True, Some ?m, s)"
    using talked_step [OF Cons.prems(2) handles_rcpt [of a True mm s]] Cons.prems(1) by simp
  obtain out1 l1 where rest: "talked s0 out1 l1 (True, Some (?m\<lparr>msg_To := msg_To ?m @ ts\<rparr>), s)"
      "refuses s0 m (out @ ?b) w (map Rcpt ts @ cs) = (replicate (length ts) False @ fst (refuses s0 m out1 w cs), snd (refuses s0 m out1 w cs))"
    using Cons.IH [OF _ t] Cons.prems(1) by auto
  have "refuses s0 m out w (Rcpt a # map Rcpt ts @ cs) =
      (False # fst (refuses s0 m (out @ ?b) w (map Rcpt ts @ cs)), snd (refuses s0 m (out @ ?b) w (map Rcpt ts @ cs)))"
    using t by (intro refuses_accept [of _ _ _ _ w]) auto
  then show ?case using rest by (intro exI [of _ out1] exI [of _ l1]) simp
qed

lemma refuses_data:
  assumes t: "talked s0 out l (True, Some mm, s)" and "msg_To mm \<noteq> []" and "properCR txt"
  shows "refuses s0 m out w [Data, Write txt, CloseData] =
    ([False, False, 0 < sm_failData s], snd (smtp_store (mm\<lparr>msg_Data := arrived txt\<rparr>) s))"
proof -
  obtain body w1 where dots: "dotWrite WBegin txt = (body, w1)" by fastforce
  note rt = dot_roundtrip [OF assms(3) dots]
  have n: "readDot BeginLine [] = None" by simp
  note one = serve_talked [OF t, of "''DATA'' @ crlf"] loop_data [OF assms(2), of True s "[]"]
  note two = serve_talked [OF t, of "''DATA'' @ crlf @ body"] loop_data [OF assms(2), of True s body]
  note three = serve_talked [OF t, of "''DATA'' @ crlf @ body @ dotClose w1"] loop_data [OF assms(2), of True s "body @ dotClose w1"]
  have a: "take 3 (last (fst (serve s0 (out @ ''DATA'' @ crlf)))) = ''354''" using one by simp
  have b: "take 3 (last (fst (serve s0 (out @ ''DATA'' @ crlf @ body)))) = ''354''" using two rt(1) by simp
  have c: "take 3 (last (fst (serve s0 (out @ ''DATA'' @ crlf @ body @ dotClose w1)))) = (if 0 < sm_failData s then ''451'' else ''250'')"
    "snd (serve s0 (out @ ''DATA'' @ crlf @ body @ dotClose w1)) = snd (smtp_store (mm\<lparr>msg_Data := arrived txt\<rparr>) s)"
    using three rt(2) [of "[]"] by (auto simp: smtp_store_def)
  show ?thesis using a b c dots by simp
qed


lemma talked_begin: "talked s [] ''220 smtptest ESMTP'' (False, None, s)"
  unfolding talked_def by (rule exI [of _ "[]"]) simp

lemma refuses_new: "refuses s m [] w (NewClient # cs) = (False # fst (refuses s m [] w cs), snd (refuses s m [] w cs))"
  using refuses_accept [of m w NewClient "[]" w s "[]", OF _ _, of "''220 smtptest ESMTP''"] talked_begin [of s] by simp

text \<open>Whether the server takes the mail, and what it has then.\<close>

definition takes :: "smtp_server \<Rightarrow> Mailer \<Rightarrow> bool" where
  "takes s m \<longleftrightarrow> User m \<noteq> [] \<and> User m = sm_user s \<and> Pass m = sm_pass s \<and> \<not> 0 < sm_failData s"

lemma refuses_dialogue:
  assumes "noNUL (User m)" and "noNUL (Pass m)" and "\<forall>a \<in> set (sender # To m). plainAddr a" and "To m \<noteq> []" and "properCR txt"
    and run: "refuses s m [] WBegin (drop 2 (dialogue sender txt m)) = (fs, s1)"
  shows "length fs \<le> length (drop 2 (dialogue sender txt m)) \<and> (True \<in> set fs \<longleftrightarrow> \<not> takes s m) \<and>
    sm_msgs s1 = sm_msgs s @ (if takes s m then [\<lparr>msg_From = sender, msg_To = To m, msg_Data = arrived txt\<rparr>] else [])"
proof (cases "User m = []")
  case True
  let ?b = "ehlo @ ''MAIL FROM:<'' @ sender @ ''>'' @ crlf"
  have "handles ?b (False, None, s) ([''250-smtptest'', ''250 AUTH PLAIN''] @ [''530 erst anmelden'']) (False, None, s)"
    using handles_append [OF handles_ehlo handles_mail [of sender False None s]] assms(3) by simp
  from talked_step [OF talked_begin this] have "refuses s m [] WBegin (MailFrom sender # cs) = ([True], s)" for cs
    using True by (intro refuses_deny [of _ _ _ ?b WBegin s "[]" "''530 erst anmelden''"]) simp_all
  then show ?thesis using run True refuses_new [of s m WBegin] by (auto simp: dialogue_def takes_def)
next
  case user: False
  let ?ok = "User m = sm_user s \<and> Pass m = sm_pass s"
  let ?a = "fst (cmdBytes m WBegin Auth)" and ?l = "if ?ok then ''235 ok'' else ''535 falsche zugangsdaten''"
  let ?rest = "MailFrom sender # map Rcpt (To m) @ [Data, Write txt, CloseData]"
  have "handles ?a (False, None, s) ([''250-smtptest'', ''250 AUTH PLAIN''] @ [?l]) (?ok, None, s)"
    using handles_append [OF handles_ehlo handles_auth [OF assms(1,2), of None s]] by (simp only: cmdBytes.simps fst_conv append.assoc)
  from talked_step [OF talked_begin this] have t: "talked s ([] @ ?a) ?l (?ok, None, s)" by simp
  have run1: "(fs, s1) = (False # fst (refuses s m [] WBegin (Auth # ?rest)), snd (refuses s m [] WBegin (Auth # ?rest)))"
    using run user refuses_new [of s m WBegin] by (simp add: dialogue_def del: refuses.simps)
  show ?thesis
  proof (cases ?ok)
    case False
    then have "refuses s m [] WBegin (Auth # ?rest) = ([True], s)" using t by (intro refuses_deny [of _ _ _ ?a WBegin]) auto
    then show ?thesis using run1 False user by (auto simp: dialogue_def takes_def)
  next
    case True
    let ?m = "\<lparr>msg_From = sender, msg_To = [], msg_Data = []\<rparr>" and ?b = "''MAIL FROM:<'' @ sender @ ''>'' @ crlf"
    have t1: "talked s (?a @ ?b) ''250 ok'' (True, Some ?m, s)"
      using talked_step [OF t handles_mail [of sender ?ok None s]] assms(3) True by simp
    obtain out l where t2: "talked s out l (True, Some (?m\<lparr>msg_To := To m\<rparr>), s)"
      and rc: "refuses s m (?a @ ?b) WBegin (map Rcpt (To m) @ [Data, Write txt, CloseData]) =
        (replicate (length (To m)) False @ fst (refuses s m out WBegin [Data, Write txt, CloseData]),
         snd (refuses s m out WBegin [Data, Write txt, CloseData]))"
      using refuses_rcpts [OF _ t1, of "To m" m WBegin "[Data, Write txt, CloseData]"] assms(3) by auto
    have mail: "refuses s m ?a WBegin ?rest =
        (False # fst (refuses s m (?a @ ?b) WBegin (tl ?rest)), snd (refuses s m (?a @ ?b) WBegin (tl ?rest)))"
      using t1 user by (simp only: list.sel) (intro refuses_accept [of _ _ _ ?b WBegin s ?a "''250 ok''"], simp_all)
    have "refuses s m [] WBegin (Auth # ?rest) = (False # fst (refuses s m ?a WBegin ?rest), snd (refuses s m ?a WBegin ?rest))"
      using refuses_accept [of m WBegin Auth ?a WBegin s "[]" ?l ?ok None s ?rest] t True by simp
    moreover have "refuses s m out WBegin [Data, Write txt, CloseData] =
        ([False, False, 0 < sm_failData s], snd (smtp_store (?m\<lparr>msg_To := To m, msg_Data := arrived txt\<rparr>) s))"
      using refuses_data [OF t2 _ assms(5), of m WBegin] assms(4) by simp
    ultimately show ?thesis
      using run1 mail rc True user by (auto simp: dialogue_def takes_def smtp_store_def)
  qed
qed

lemma send_scripted:
  assumes "prep (From m) = Some (sender, txt)" and "send prep test now m = (r, m1, tr)"
  shows "r = Inl ErrLimit \<and> tr = [] \<or>
    r = (if True \<in> set (take (length (dialogue sender txt m)) (wire m)) then Inl ErrMail else Inr ())"
proof (cases "fst (reserve test now m)")
  case (Inl e)
  then obtain m2 where "reserve test now m = (Inl ErrLimit, m2)" by (auto simp: reserve_eq Let_def split: if_splits)
  then show ?thesis using assms by (simp add: send_def)
next
  case (Inr u)
  define m2 where "m2 = snd (reserve test now m)"
  have res: "reserve test now m = (Inr (), m2)" using Inr by (simp add: m2_def prod_eq_iff)
  have "wire m2 = wire m" "dialogue sender txt m2 = dialogue sender txt m" unfolding m2_def by (auto simp: dialogue_def reserve_eq Let_def)
  then show ?thesis
    using assms res smtp_talk_result [of "dialogue sender txt m" m2] by (auto simp: send_def split: prod.splits sum.splits if_splits)
qed


text \<open>C11: A mail that passes the quota and is sent to the server, command by command, is reported as sent exactly
  when the server has stored it. Then the server has one message more, with the sender, all recipients in
  their order and the text, line ends as line feeds, whatever dots its lines begin with; and this happens
  exactly when the mailer logs in with the server's user and password and the server was not told to fail.
  Otherwise the mail is reported as failed and the server has the messages it had.\<close>

theorem smtp_delivery:
  assumes "noNUL (User m)" and "noNUL (Pass m)" and "\<forall>a \<in> set (sender # To m). plainAddr a" and "To m \<noteq> []" and "properCR txt"
    and prep: "prep (From m) = Some (sender, txt)"
    and run: "refuses s m [] WBegin (drop 2 (dialogue sender txt m)) = (fs, s1)"
    and sent: "wire m = [False, False] @ fs" "send prep test now m = (r, m1, tr)"
  shows "r = Inl ErrLimit \<and> tr = [] \<or>
    r = (if takes s m then Inr () else Inl ErrMail) \<and>
    sm_msgs s1 = sm_msgs s @ (if takes s m then [\<lparr>msg_From = sender, msg_To = To m, msg_Data = arrived txt\<rparr>] else [])"
proof -
  note dlg = refuses_dialogue [OF assms(1-5) run]
  have "2 \<le> length (dialogue sender txt m)" by (simp add: dialogue_def)
  then have "length (wire m) \<le> length (dialogue sender txt m)" using dlg sent(1) by simp linarith
  then have "take (length (dialogue sender txt m)) (wire m) = wire m" by simp
  then show ?thesis using send_scripted [OF prep sent(2)] dlg sent(1) by auto
qed

theorem smtp_delivery_witness:
  "let s = smtp_start ''u'' ''p''; txt = ''a'' @ crlf @ ''.b'' @ crlf; q = refuses s sample_mailer [] WBegin (drop 2 (dialogue ''a@b'' txt sample_mailer));
       m = sample_mailer\<lparr>wire := [False, False] @ fst q\<rparr>
   in fst (send (\<lambda>a. Some (a, txt)) False 5 m) = Inr () \<and>
      sm_msgs (snd q) = [\<lparr>msg_From = ''a@b'', msg_To = [''c@d''], msg_Data = ''a'' @ nl @ ''.b'' @ nl\<rparr>]"
proof -
  define s t where "s = smtp_start ''u'' ''p''" and "t = ''a'' @ crlf @ ''.b'' @ crlf"
  define q where "q = refuses s sample_mailer [] WBegin (drop 2 (dialogue ''a@b'' t sample_mailer))"
  define m where "m = sample_mailer\<lparr>wire := [False, False] @ fst q\<rparr>"
  have same: "cmdBytes m = cmdBytes sample_mailer" "dialogue ''a@b'' t m = dialogue ''a@b'' t sample_mailer"
    by (intro ext, rename_tac w c, case_tac c) (simp_all add: m_def dialogue_def)
  have "refuses s m out w cs = refuses s sample_mailer out w cs" for out w cs
    by (induction cs arbitrary: out w) (simp_all add: same(1) split: prod.split)
  then have run: "refuses s m [] WBegin (drop 2 (dialogue ''a@b'' t m)) = (fst q, snd q)" by (simp add: q_def same(2))
  have m: "noNUL (User m)" "noNUL (Pass m)" "\<forall>a \<in> set (''a@b'' # To m). plainAddr a" "To m \<noteq> []" "properCR t" "takes s m"
    by (auto simp: m_def sample_mailer_def noNUL_def plainAddr_def t_def crlf_def takes_def s_def smtp_start_def)
  obtain r m1 tr where r: "send (\<lambda>a. Some (a, t)) False 5 m = (r, m1, tr)" by (rule prod_cases3)
  have "reserve False 5 m = (Inr (), m\<lparr>sent := [5]\<rparr>)" by (simp add: reserve_eq m_def sample_mailer_def perHour_def Let_def)
  then have "r \<noteq> Inl ErrLimit"
    using r smtp_talk_result [of "dialogue (From m) t (m\<lparr>sent := [5]\<rparr>)" "m\<lparr>sent := [5]\<rparr>"]
    by (auto simp: send_def split: prod.splits sum.splits if_splits)
  moreover have "From m = ''a@b''" "wire m = [False, False] @ fst q" by (simp_all add: m_def sample_mailer_def)
  ultimately have "r = Inr ()" "sm_msgs (snd q) = sm_msgs s @ [\<lparr>msg_From = ''a@b'', msg_To = To m, msg_Data = arrived t\<rparr>]"
    using smtp_delivery [OF m(1-5) _ run _ r] m(6) by auto
  then show ?thesis
    using r unfolding Let_def s_def [symmetric] t_def [symmetric] q_def [symmetric] m_def [symmetric]
    by (simp add: m_def sample_mailer_def s_def smtp_start_def arrived_def t_def crlf_def nl_def)
qed

end
