(* ===== verification/Smtp_Listener.thy ===== *)
theory Smtp_Listener
  imports Smtp_Server
begin

text \<open>
  The goroutines of \<^verbatim>\<open>internal/alert/smtptest/server.go\<close>: the accept loop, one goroutine per connection, the
  test that waits for messages and the cleanup at its end. Each step is what one of them does between two
  points where others can be scheduled; the bytes a client sends are any. A connection that the
  goroutine of another side has closed delivers no further lines, which is one of the choices of a step.
  Certificates and addresses are not modelled.
\<close>

section \<open>State\<close>

type_synonym conn = nat

text \<open>Where the accept loop is: before \<^verbatim>\<open>Accept\<close>, with a connection, with a connection noted in \<^verbatim>\<open>conns\<close>, or gone.\<close>

datatype accepting = AtAccept | HasConn conn | NotedConn conn | AcceptGone

text \<open>Where the goroutine of a connection is: in \<^verbatim>\<open>serve\<close> with its variables, behind it, or behind the removal from \<^verbatim>\<open>conns\<close>.\<close>

datatype serving = InServe bool "Message option" | Served | Removed

text \<open>Where the test is in \<^verbatim>\<open>Wait\<close>: before reading the messages, in the \<^verbatim>\<open>select\<close>, back with messages, or failed.\<close>

datatype waiting = NoWait | Looking nat | InSelect nat | Returned "Message list" | TooLate

text \<open>Where the cleanup is: not called, behind closing the listener, behind closing the connections, or over.\<close>

datatype cleaning = NotCalled | ListenerClosed | ConnsClosed | CleanedUp

record listener =
  li_server :: smtp_server
  li_open :: bool
  li_accept :: accepting
  li_conns :: "conn set"
  li_seen :: "conn set"
  li_closed :: "conn set"
  li_run :: "conn \<rightharpoonup> serving"
  li_wg :: nat
  li_wait :: waiting
  li_clean :: cleaning

definition listen_start :: "string \<Rightarrow> string \<Rightarrow> listener" where
  "listen_start user pass =
     \<lparr>li_server = smtp_start user pass, li_open = True, li_accept = AtAccept, li_conns = {}, li_seen = {}, li_closed = {},
      li_run = Map.empty, li_wg = 1, li_wait = NoWait, li_clean = NotCalled\<rparr>"

section \<open>Operations\<close>

definition Messages :: "smtp_server \<Rightarrow> Message list" where "Messages s = sm_msgs s"

text \<open>The accept loop: a connection, an error, and what is done with a connection.\<close>

definition accept_conn :: "conn \<Rightarrow> listener \<Rightarrow> listener" where
  "accept_conn c l = l\<lparr>li_accept := HasConn c, li_seen := insert c (li_seen l)\<rparr>"

definition accept_err :: "listener \<Rightarrow> listener" where
  "accept_err l = l\<lparr>li_accept := AcceptGone, li_wg := li_wg l - 1\<rparr>"

definition accept_note :: "conn \<Rightarrow> listener \<Rightarrow> listener" where
  "accept_note c l = l\<lparr>li_accept := NotedConn c, li_conns := insert c (li_conns l)\<rparr>"

definition accept_go :: "conn \<Rightarrow> listener \<Rightarrow> listener" where
  "accept_go c l = l\<lparr>li_accept := AtAccept, li_wg := li_wg l + 1, li_run := (li_run l)(c \<mapsto> InServe False None)\<rparr>"

text \<open>One turn of the loop in \<^verbatim>\<open>serve\<close> on what the client has sent.\<close>

definition conn_turn :: "conn \<Rightarrow> string \<Rightarrow> bool \<Rightarrow> Message option \<Rightarrow> listener \<Rightarrow> listener" where
  "conn_turn c input authed msg l =
     (case readLine input of
        None \<Rightarrow> l\<lparr>li_run := (li_run l)(c \<mapsto> Served)\<rparr>
      | Some (line, rest) \<Rightarrow>
          (case serve_cmd line rest authed msg (li_server l) of
             Hangup _ s1 \<Rightarrow> l\<lparr>li_server := s1, li_run := (li_run l)(c \<mapsto> Served)\<rparr>
           | Continue _ a1 m1 s1 _ \<Rightarrow> l\<lparr>li_server := s1, li_run := (li_run l)(c \<mapsto> InServe a1 m1)\<rparr>))"

definition conn_remove :: "conn \<Rightarrow> listener \<Rightarrow> listener" where
  "conn_remove c l = l\<lparr>li_conns := li_conns l - {c}, li_run := (li_run l)(c \<mapsto> Removed)\<rparr>"

definition conn_close :: "conn \<Rightarrow> listener \<Rightarrow> listener" where
  "conn_close c l = l\<lparr>li_closed := insert c (li_closed l), li_run := (li_run l)(c := None), li_wg := li_wg l - 1\<rparr>"

text \<open>\<^verbatim>\<open>Wait\<close>: a look at the messages, the token of a change, and the deadline.\<close>

definition wait_look :: "nat \<Rightarrow> listener \<Rightarrow> listener" where
  "wait_look n l =
     (let msgs = Messages (li_server l)
      in l\<lparr>li_wait := (if n \<le> length msgs then Returned msgs else InSelect n)\<rparr>)"

definition wait_token :: "nat \<Rightarrow> listener \<Rightarrow> listener" where
  "wait_token n l = l\<lparr>li_server := (li_server l)\<lparr>sm_changed := False\<rparr>, li_wait := Looking n\<rparr>"

text \<open>The cleanup of the test.\<close>

definition clean_listener :: "listener \<Rightarrow> listener" where
  "clean_listener l = l\<lparr>li_open := False, li_clean := ListenerClosed\<rparr>"

definition clean_conns :: "listener \<Rightarrow> listener" where
  "clean_conns l = l\<lparr>li_closed := li_closed l \<union> li_conns l, li_clean := ConnsClosed\<rparr>"

section \<open>Steps\<close>

inductive lstep :: "listener \<Rightarrow> listener \<Rightarrow> bool" where
  arrives: "li_accept l = AtAccept \<Longrightarrow> li_open l \<Longrightarrow> c \<notin> li_seen l \<Longrightarrow> lstep l (accept_conn c l)"
| refused: "li_accept l = AtAccept \<Longrightarrow> lstep l (accept_err l)"
| noted: "li_accept l = HasConn c \<Longrightarrow> lstep l (accept_note c l)"
| goes: "li_accept l = NotedConn c \<Longrightarrow> lstep l (accept_go c l)"
| turns: "li_run l c = Some (InServe a m) \<Longrightarrow> lstep l (conn_turn c input a m l)"
| removes: "li_run l c = Some Served \<Longrightarrow> lstep l (conn_remove c l)"
| closes: "li_run l c = Some Removed \<Longrightarrow> lstep l (conn_close c l)"
| told: "lstep l (l\<lparr>li_server := FailData k (li_server l)\<rparr>)"
| called: "li_wait l = NoWait \<or> li_wait l = Returned ms \<Longrightarrow> lstep l (l\<lparr>li_wait := Looking n\<rparr>)"
| looks: "li_wait l = Looking n \<Longrightarrow> lstep l (wait_look n l)"
| token: "li_wait l = InSelect n \<Longrightarrow> sm_changed (li_server l) \<Longrightarrow> lstep l (wait_token n l)"
| late: "li_wait l = InSelect n \<Longrightarrow> lstep l (l\<lparr>li_wait := TooLate\<rparr>)"
| unlistens: "li_clean l = NotCalled \<Longrightarrow> lstep l (clean_listener l)"
| hangs: "li_clean l = ListenerClosed \<Longrightarrow> lstep l (clean_conns l)"
| cleaned: "li_clean l = ConnsClosed \<Longrightarrow> li_wg l = 0 \<Longrightarrow> lstep l (l\<lparr>li_clean := CleanedUp\<rparr>)"

inductive listening :: "listener \<Rightarrow> bool" where
  start: "listening (listen_start user pass)"
| step: "listening l \<Longrightarrow> lstep l l' \<Longrightarrow> listening l'"

section \<open>Invariant\<close>

text \<open>The wait group counts the accept loop and the goroutines of the connections; \<^verbatim>\<open>conns\<close> holds the
  connections whose goroutine has not removed them; every connection that was accepted and has no goroutine yet or any more is accounted for.\<close>

definition counted :: "listener \<Rightarrow> bool" where
  "counted l \<longleftrightarrow> finite (dom (li_run l)) \<and>
     li_wg l = card (dom (li_run l)) + (if li_accept l = AcceptGone then 0 else 1)"

fun inHand :: "accepting \<Rightarrow> conn set" where
  "inHand (HasConn c) = {c}"
| "inHand (NotedConn c) = {c}"
| "inHand _ = {}"

definition tracked_conns :: "listener \<Rightarrow> bool" where
  "tracked_conns l \<longleftrightarrow>
     li_conns l = {c. \<exists>v. li_run l c = Some v \<and> v \<noteq> Removed} \<union> (case li_accept l of NotedConn c \<Rightarrow> {c} | _ \<Rightarrow> {}) \<and>
     li_seen l \<subseteq> li_closed l \<union> dom (li_run l) \<union> inHand (li_accept l) \<and>
     dom (li_run l) \<union> inHand (li_accept l) \<subseteq> li_seen l \<and> dom (li_run l) \<inter> inHand (li_accept l) = {}"

text \<open>Nobody has a message begun without a login, and a stored message has a recipient.\<close>

definition mail_ok :: "listener \<Rightarrow> bool" where
  "mail_ok l \<longleftrightarrow>
     (\<forall>c a m. li_run l c = Some (InServe a m) \<longrightarrow> m \<noteq> None \<longrightarrow> a) \<and> (\<forall>m \<in> set (sm_msgs (li_server l)). msg_To m \<noteq> [])"

definition awake :: "listener \<Rightarrow> bool" where
  "awake l \<longleftrightarrow> (\<forall>n. li_wait l = InSelect n \<and> n \<le> length (sm_msgs (li_server l)) \<longrightarrow> sm_changed (li_server l))"

definition over :: "listener \<Rightarrow> bool" where
  "over l \<longleftrightarrow> (li_clean l = CleanedUp \<longrightarrow> li_wg l = 0)"

definition linv :: "listener \<Rightarrow> bool" where
  "linv l \<longleftrightarrow> counted l \<and> tracked_conns l \<and> mail_ok l \<and> awake l \<and> over l"

lemma serve_cmd_hangup: "serve_cmd line rest a m s = Hangup out s1 \<Longrightarrow> s1 = s"
  by (auto simp: serve_cmd_def auth_turn_def Let_def split: prod.splits if_splits option.splits)

lemma smtp_store_grows:
  "smtp_store m s = (ok, s1) \<Longrightarrow> (\<exists>ms. sm_msgs s1 = sm_msgs s @ ms \<and> (\<forall>x \<in> set ms. msg_To x = msg_To m) \<and> (ms \<noteq> [] \<longrightarrow> sm_changed s1)) \<and>
   (sm_changed s \<longrightarrow> sm_changed s1)"
  by (auto simp: smtp_store_def split: if_splits)

lemma serve_cmd_grows:
  assumes "serve_cmd line rest a m s = Continue out a1 m1 s1 rest1" and "m \<noteq> None \<longrightarrow> a"
  shows "(m1 \<noteq> None \<longrightarrow> a1) \<and> (sm_changed s \<longrightarrow> sm_changed s1) \<and>
    (\<exists>ms. sm_msgs s1 = sm_msgs s @ ms \<and> (\<forall>x \<in> set ms. msg_To x \<noteq> []) \<and> (ms \<noteq> [] \<longrightarrow> sm_changed s1))"
  using assms
  by (auto simp: serve_cmd_def auth_turn_def Let_def split: prod.splits if_splits option.splits dest!: smtp_store_grows)

lemma conn_turn_cases:
  assumes "li_run l c = Some (InServe a m)" and "mail_ok l"
  obtains s1 v ms where "conn_turn c input a m l = l\<lparr>li_server := s1, li_run := (li_run l)(c \<mapsto> v)\<rparr>" "v \<noteq> Removed"
    "\<And>a1 m1. v = InServe a1 m1 \<Longrightarrow> m1 \<noteq> None \<Longrightarrow> a1" "sm_changed (li_server l) \<Longrightarrow> sm_changed s1"
    "sm_msgs s1 = sm_msgs (li_server l) @ ms" "\<forall>x \<in> set ms. msg_To x \<noteq> []" "ms \<noteq> [] \<Longrightarrow> sm_changed s1"
proof (cases "readLine input")
  case None
  then show ?thesis using that [of Served "li_server l" "[]"] by (simp add: conn_turn_def)
next
  case (Some lr)
  obtain line rest where lr: "lr = (line, rest)" by fastforce
  have am: "m \<noteq> None \<longrightarrow> a" using assms unfolding mail_ok_def by blast
  show ?thesis
  proof (cases "serve_cmd line rest a m (li_server l)")
    case (Hangup out s1)
    then show ?thesis using Some lr serve_cmd_hangup [OF Hangup] that [of Served "li_server l" "[]"] by (simp add: conn_turn_def)
  next
    case (Continue out a1 m1 s1 rest1)
    obtain ms where "sm_msgs s1 = sm_msgs (li_server l) @ ms" "\<forall>x \<in> set ms. msg_To x \<noteq> []" "ms \<noteq> [] \<longrightarrow> sm_changed s1"
      using serve_cmd_grows [OF Continue am] by blast
    then show ?thesis
      using Some lr Continue serve_cmd_grows [OF Continue am] that [of "InServe a1 m1" s1 ms] by (simp add: conn_turn_def)
  qed
qed

lemma counted_step: "lstep l l' \<Longrightarrow> linv l \<Longrightarrow> counted l'"
proof (induction rule: lstep.induct)
  case (goes l c)
  then show ?case by (auto simp: linv_def counted_def tracked_conns_def accept_go_def)
next
  case (turns l c a m input)
  then have ok: "mail_ok l" and n: "counted l" by (simp_all add: linv_def)
  have c: "c \<in> dom (li_run l)" using turns(1) by blast
  show ?case by (rule conn_turn_cases [OF turns(1) ok, of input]) (use n c in \<open>simp add: counted_def insert_absorb\<close>)
next
  case (removes l c)
  then show ?case by (auto simp: linv_def counted_def conn_remove_def insert_absorb domI)
next
  case (closes l c)
  then have c: "c \<in> dom (li_run l)" by blast
  moreover have "finite (dom (li_run l))" using closes by (simp add: linv_def counted_def)
  ultimately have "card (dom (li_run l)) = Suc (card (dom (li_run l) - {c}))" by (rule card.remove [rotated])
  then show ?case using closes by (auto simp: linv_def counted_def conn_close_def)
qed (auto simp: linv_def counted_def accept_conn_def accept_err_def accept_note_def wait_look_def wait_token_def
    clean_listener_def clean_conns_def Let_def)

lemma tracked_step: "lstep l l' \<Longrightarrow> linv l \<Longrightarrow> tracked_conns l'"
proof (induction rule: lstep.induct)
  case (turns l c a m input)
  then have ok: "mail_ok l" and t: "tracked_conns l" by (simp_all add: linv_def)
  show ?case
    by (rule conn_turn_cases [OF turns(1) ok, of input])
      (use turns(1) t in \<open>auto simp: tracked_conns_def split: if_splits accepting.splits\<close>)
qed (auto simp: linv_def tracked_conns_def accept_conn_def accept_err_def accept_note_def accept_go_def conn_remove_def conn_close_def
    wait_look_def wait_token_def clean_listener_def clean_conns_def Let_def split: if_splits accepting.splits)

lemma mail_step: "lstep l l' \<Longrightarrow> linv l \<Longrightarrow> mail_ok l'"
proof (induction rule: lstep.induct)
  case (turns l c a m input)
  then have ok: "mail_ok l" by (simp add: linv_def)
  show ?case by (rule conn_turn_cases [OF turns(1) ok, of input]) (use ok in \<open>auto simp: mail_ok_def split: if_splits; blast\<close>)
qed (auto simp: linv_def mail_ok_def accept_conn_def accept_err_def accept_note_def accept_go_def conn_remove_def conn_close_def
    wait_look_def wait_token_def clean_listener_def clean_conns_def FailData_def Let_def split: if_splits)

lemma awake_step: "lstep l l' \<Longrightarrow> linv l \<Longrightarrow> awake l'"
proof (induction rule: lstep.induct)
  case (turns l c a m input)
  then have ok: "mail_ok l" and w: "awake l" by (simp_all add: linv_def)
  show ?case
    by (rule conn_turn_cases [OF turns(1) ok, of input]) (use w in \<open>auto simp: awake_def; metis add.right_neutral list.size(3)\<close>)
qed (auto simp: linv_def awake_def accept_conn_def accept_err_def accept_note_def accept_go_def conn_remove_def conn_close_def
    wait_look_def wait_token_def clean_listener_def clean_conns_def FailData_def Messages_def Let_def split: if_splits)

lemma over_step: "lstep l l' \<Longrightarrow> linv l \<Longrightarrow> over l'"
proof (induction rule: lstep.induct)
  case (turns l c a m input)
  then have ok: "mail_ok l" and o: "over l" by (simp_all add: linv_def)
  show ?case by (rule conn_turn_cases [OF turns(1) ok, of input]) (use o in \<open>auto simp: over_def\<close>)
qed (auto simp: linv_def over_def counted_def accept_conn_def accept_err_def accept_note_def accept_go_def conn_remove_def conn_close_def
    wait_look_def wait_token_def clean_listener_def clean_conns_def Let_def split: if_splits)

lemma listening_inv: "listening l \<Longrightarrow> linv l"
proof (induction rule: listening.induct)
  case (step l l')
  then show ?case using counted_step tracked_step mail_step awake_step over_step by (simp add: linv_def)
qed (simp add: linv_def listen_start_def smtp_start_def counted_def tracked_conns_def mail_ok_def awake_def over_def)

section \<open>What the tests rely on\<close>

text \<open>After the cleanup of a test the accept loop and the goroutines of all connections are gone, the map is empty and
  every connection that was ever accepted is closed.\<close>

lemma cleaned_up:
  assumes "listening l" and "li_clean l = CleanedUp"
  shows "li_accept l = AcceptGone" and "li_run l = Map.empty" and "li_conns l = {}" and "li_seen l \<subseteq> li_closed l"
proof -
  have inv: "counted l" "tracked_conns l" "li_wg l = 0" using listening_inv [OF assms(1)] assms(2) by (simp_all add: linv_def over_def)
  then show "li_accept l = AcceptGone" "li_run l = Map.empty" by (auto simp: counted_def split: if_splits)
  then show "li_conns l = {}" "li_seen l \<subseteq> li_closed l" using inv(2) by (simp_all add: tracked_conns_def)
qed

text \<open>\<^verbatim>\<open>Wait\<close> does not sleep over the messages it waits for: once they are there its \<^verbatim>\<open>select\<close> finds the token, and the next
  look returns them.\<close>

lemma wait_returns:
  assumes "listening l" and "li_wait l = InSelect n" and "n \<le> length (sm_msgs (li_server l))"
  shows "lstep l (wait_token n l)" and "lstep (wait_token n l) (wait_look n (wait_token n l))"
    and "li_wait (wait_look n (wait_token n l)) = Returned (sm_msgs (li_server l))"
proof -
  have "sm_changed (li_server l)" using listening_inv [OF assms(1)] assms(2,3) by (simp add: linv_def awake_def)
  then show "lstep l (wait_token n l)" using assms(2) by (rule lstep.token [rotated])
  show "lstep (wait_token n l) (wait_look n (wait_token n l))" by (rule lstep.looks) (simp add: wait_token_def)
  show "li_wait (wait_look n (wait_token n l)) = Returned (sm_msgs (li_server l))"
    using assms(3) by (simp add: wait_look_def wait_token_def Messages_def Let_def)
qed

lemma stored_have_recipient: "listening l \<Longrightarrow> m \<in> set (sm_msgs (li_server l)) \<Longrightarrow> msg_To m \<noteq> []"
  using listening_inv [of l] by (simp add: linv_def mail_ok_def)

text \<open>A connection that \<^verbatim>\<open>Accept\<close> has returned but the accept loop has not yet noted when the cleanup closes the noted ones is
  served afterwards, and the cleanup waits until the client hangs up.\<close>

lemma cleanup_misses_connection:
  "\<exists>l. listening l \<and> li_clean l = ConnsClosed \<and> li_run l 0 = Some (InServe False None) \<and> 0 \<notin> li_closed l \<and> li_wg l \<noteq> 0"
proof -
  let ?l1 = "accept_conn 0 (listen_start [] [])"
  let ?l2 = "clean_conns (clean_listener ?l1)"
  let ?l3 = "accept_go 0 (accept_note 0 ?l2)"
  have "listening ?l1" by (rule listening.step [OF listening.start], rule lstep.arrives) (simp_all add: listen_start_def)
  then have "listening (clean_listener ?l1)" by (rule listening.step) (rule lstep.unlistens, simp add: accept_conn_def listen_start_def)
  then have "listening ?l2" by (rule listening.step) (rule lstep.hangs, simp add: clean_listener_def)
  then have "listening (accept_note 0 ?l2)"
    by (rule listening.step) (rule lstep.noted, simp add: clean_conns_def clean_listener_def accept_conn_def)
  then have "listening ?l3" by (rule listening.step) (rule lstep.goes, simp add: accept_note_def)
  then show ?thesis
    by (intro exI [of _ ?l3] conjI) (simp_all add: accept_go_def accept_note_def clean_conns_def clean_listener_def accept_conn_def listen_start_def)
qed

end
