(* ===== verification/Test_Support.thy ===== *)
theory Test_Support
  imports Validate "HOL-Library.AList"
begin

text \<open>
  What tests and manual trials use: the clock of \<^verbatim>\<open>internal/testutil/clock.go\<close>, and the FiveM server of
  \<^verbatim>\<open>internal/check/fakefx/main.go\<close>, whose answers are followed into the result of the check. The data of its
  two embedded files is written out as far as its code or the checker looks at it; the JSON library is an argument.
\<close>

section \<open>The clock\<close>

record Clock = cl_now :: time

definition NewClock :: "time \<Rightarrow> Clock" where "NewClock t = \<lparr>cl_now = t\<rparr>"
definition Now :: "Clock \<Rightarrow> time" where "Now c = cl_now c"
definition Advance :: "duration \<Rightarrow> Clock \<Rightarrow> Clock" where "Advance d c = c\<lparr>cl_now := cl_now c + d\<rparr>"
definition Set_clock :: "time \<Rightarrow> Clock \<Rightarrow> Clock" where "Set_clock t c = c\<lparr>cl_now := t\<rparr>"

text \<open>The clock shows the time it was last set to and what it was advanced by since.\<close>

lemma Now_Advance: "Now (fold Advance ds (Set_clock t c)) = t + sum_list ds"
proof -
  have "Now (fold Advance ds c) = Now c + sum_list ds" for c
    by (induction ds arbitrary: c) (simp_all add: Now_def Advance_def)
  then show ?thesis by (simp add: Now_def Set_clock_def)
qed

section \<open>The list of players\<close>

datatype json = JNum int | JStr string | JList "json list"

type_synonym player = "(string \<times> json) list"

text \<open>The embedded \<^verbatim>\<open>players.json\<close>.\<close>

definition players :: "player list" where
  "players =
     [[(''endpoint'', JStr ''203.0.113.17:52110''), (''id'', JNum 1),
       (''identifiers'', JList [JStr ''license:0000000000000000000000000000000000000001'', JStr ''discord:000000000000000001'']),
       (''name'', JStr ''Testspieler Eins''), (''ping'', JNum 38)],
      [(''endpoint'', JStr ''198.51.100.42:61024''), (''id'', JNum 4),
       (''identifiers'', JList [JStr ''license:0000000000000000000000000000000000000002'']),
       (''name'', JStr ''Max Mustermann''), (''ping'', JNum 71)],
      [(''endpoint'', JStr ''192.0.2.9:49877''), (''id'', JNum 7),
       (''identifiers'', JList [JStr ''license:0000000000000000000000000000000000000003'', JStr ''discord:000000000000000003'']),
       (''name'', JStr (''J'' @ oe @ ''rg Beispiel'')), (''ping'', JNum 124)]]"

text \<open>Every name in the file is a string.\<close>

definition nameText :: "player \<Rightarrow> string" where
  "nameText p = (case map_of p ''name'' of Some (JStr s) \<Rightarrow> s | _ \<Rightarrow> [])"

definition onePlayer :: "nat \<Rightarrow> player" where
  "onePlayer i =
     (let p = AList.update ''id'' (JNum (int i + 1)) (players ! (i mod length players)) in
      if length players \<le> i then AList.update ''name'' (JStr (nameText p @ '' '' @ Itoa (int i + 1))) p else p)"

definition playerList :: "int \<Rightarrow> player list" where
  "playerList n = map onePlayer [0..<nat (max n 0)]"

text \<open>As many players as asked for, none for a negative number, numbered from one; those behind the ones of the
  file repeat them under names with the number.\<close>

lemma playerList_length [simp]: "length (playerList n) = nat n"
  by (simp add: playerList_def)

lemma playerList_ids: "map (\<lambda>p. map_of p ''id'') (playerList n) = map (\<lambda>i. Some (JNum (int i + 1))) [0..<nat n]"
  by (auto simp: playerList_def onePlayer_def Let_def update_conv max_def)

lemma playerList_name:
  assumes "i < nat n"
  shows "nameText (playerList n ! i) =
    nameText (players ! (i mod 3)) @ (if 3 \<le> i then '' '' @ Itoa (int i + 1) else [])"
proof -
  have "length players = 3" by (simp add: players_def)
  then show ?thesis using assms by (simp add: playerList_def onePlayer_def Let_def nameText_def update_conv)
qed

section \<open>The server\<close>

record fx_reply =
  fx_Status :: int
  fx_Type :: string
  fx_Body :: string

definition writeJSON :: "string \<Rightarrow> fx_reply" where
  "writeJSON b = \<lparr>fx_Status = 200, fx_Type = ''application/json'', fx_Body = b\<rparr>"

definition fx_error :: "int \<Rightarrow> string \<Rightarrow> fx_reply" where
  "fx_error code msg = \<lparr>fx_Status = code, fx_Type = ''text/plain; charset=utf-8'', fx_Body = msg @ [CHR 0x0A]\<rparr>"

definition fx_mux :: "string \<Rightarrow> string \<Rightarrow> string \<Rightarrow> string \<Rightarrow> fx_reply" where
  "fx_mux info list meth path =
     (if path \<notin> {''/info.json'', ''/players.json''} then fx_error 404 ''404 page not found''
      else if meth \<notin> {''GET'', ''HEAD''} then fx_error 405 ''Method Not Allowed''
      else if path = ''/info.json'' then writeJSON info else writeJSON list)"

definition fx_handler :: "bool \<Rightarrow> string \<Rightarrow> string \<Rightarrow> string \<Rightarrow> string \<Rightarrow> fx_reply" where
  "fx_handler down info list meth path =
     (if down then fx_error 503 ''service unavailable'' else fx_mux info list meth path)"

text \<open>With a delay a client that has left before it is over gets no answer.\<close>

definition delay :: "duration \<Rightarrow> bool \<Rightarrow> fx_reply \<Rightarrow> fx_reply option" where
  "delay d gone r = (if d \<le> 0 then Some r else if gone then None else Some r)"

text \<open>The whole program for its flags \<^verbatim>\<open>players\<close>, \<^verbatim>\<open>down\<close> and \<^verbatim>\<open>slow\<close>.\<close>

definition fakefx :: "(player list \<Rightarrow> string) \<Rightarrow> string \<Rightarrow> int \<Rightarrow> bool \<Rightarrow> duration \<Rightarrow> bool \<Rightarrow> string \<Rightarrow> string \<Rightarrow> fx_reply option" where
  "fakefx marshal info n down slow gone meth path = delay slow gone (fx_handler down info (marshal (playerList n)) meth path)"

section \<open>A check of the server\<close>

text \<open>The network has the server at the target's address: a request gets its answer in time.\<close>

definition serves :: "network \<Rightarrow> 'a target_cols_scheme \<Rightarrow> (string \<Rightarrow> fx_reply option) \<Rightarrow> bool" where
  "serves net t srv \<longleftrightarrow>
     (\<forall>p \<in> {''/info.json'', ''/players.json''}. newRequest net (''http://'' @ Address t @ p) = None \<and>
        (\<exists>r d. srv p = Some r \<and> clientDo net (ConnectTo t) (''http://'' @ Address t @ p) =
           Inr \<lparr>rs_StatusCode = fx_Status r, rs_Body = (fx_Body r, None), rs_First = d\<rparr>))"

text \<open>What the decoder reads from the embedded \<^verbatim>\<open>info.json\<close>.\<close>

definition fx_info :: fivemInfo where
  "fx_info = \<lparr>fi_Server = ''FXServer-master SERVER v1.0.0.7290 linux'', fi_MaxClients = [CHR 0x22] @ ''64'' @ [CHR 0x22]\<rparr>"

text \<open>A short line of printable characters is its own version.\<close>

lemma version_plain:
  assumes "list_all (\<lambda>c. 32 \<le> byte c \<and> byte c < 127) s" and "s = [] \<or> \<not> isSpace (byte (hd s)) \<and> \<not> isSpace (byte (last s))"
    and "length s \<le> maxVersion"
  shows "version s = s"
proof -
  have a: "ascii s" using assms(1) by (auto simp: ascii_def list_all_iff)
  have "mapDrop hidden (runes s) = runes s"
    using assms(1) unfolding mapDrop_def runes_ascii [OF a]
    by (induction s) (auto simp: hidden_ascii runeError_def)
  then have "TrimSpace (runeBytes (mapDrop hidden (runes s))) = s" using TrimSpace_id [OF a assms(2)] by simp
  moreover have "length (runes s) = length s" by (simp add: runes_ascii [OF a])
  ultimately show ?thesis using assms(3) by (simp add: version_def Let_def)
qed

text \<open>A check of the server that is told to be down fails with its status. Otherwise it succeeds with the version and the
  maximum of the file, and, as long as the list fits into the limit of the reader, with the number of players.\<close>

lemma fakefx_down:
  assumes "serves net t (fakefx marshal info n True slow gone ''GET'')"
  shows "checkFiveM net t = failed (millis (infoTime net)) 503 ''status 503''"
proof -
  have "Itoa 503 = ''503''" by code_simp
  then show ?thesis
    using assms
    by (auto simp: serves_def fakefx_def delay_def fx_handler_def fx_error_def checkFiveM_def getJSON_def failed_def statusText_def split: if_splits)
qed

lemma fakefx_up:
  assumes "serves net t (fakefx marshal info n False slow gone ''GET'')"
    and "length info < fivemLimit" and "decodeInfo net (info, None) = Inr fx_info"
    and "length (marshal (playerList n)) < fivemLimit"
    and "\<And>ps. decodePlayers net (marshal ps, None) = Inr (length ps)"
  shows "checkFiveM net t =
    (failed (millis (infoTime net)) 200 [])\<lparr>res_OK := True, res_Version := ''FXServer-master SERVER v1.0.0.7290 linux'',
       res_MaxPlayers := Some 64, res_Players := Some (max n 0)\<rparr>"
proof -
  have v: "version (fi_Server fx_info) = ''FXServer-master SERVER v1.0.0.7290 linux''"
    by (subst version_plain) (simp_all add: fx_info_def byte_def maxVersion_def isSpace_def)
  have m: "Atoi (trimQuotes (fi_MaxClients fx_info)) = Some 64" by code_simp
  have "fi_Server fx_info \<noteq> []" by (simp add: fx_info_def)
  then show ?thesis
    using assms v m
    by (auto simp: serves_def fakefx_def delay_def fx_handler_def fx_mux_def writeJSON_def checkFiveM_def getJSON_def
        limitReader_def split: if_splits)
qed

end
