(* ===== verification/Preview.thy ===== *)
theory Preview
  imports Web_Server
begin

text \<open>
  The preview of the templates, \<^verbatim>\<open>internal/web/preview.go\<close>, which a development build serves: sample pages with
  invented data, built with the charts and texts of the real ones. The clock is read once per request. As in the
  other pages a \<^verbatim>\<open>float64\<close> is the exact rational; \<^verbatim>\<open>math.Sin\<close>, the text of a template's error and the file server are
  arguments. The lemmas compare the samples with what the real code would show.
\<close>

record previewenv =
  pv_ctx :: webctx
  pv_err :: "page \<Rightarrow> string"
  pv_sin :: "rat \<Rightarrow> rat"
  pv_static :: "string \<Rightarrow> run"

section \<open>Invented data\<close>

definition demoDown :: "int \<Rightarrow> int \<Rightarrow> int \<Rightarrow> bool" where
  "demoDown i k n \<longleftrightarrow>
     (if i = 1 then 80 < n \<and> k = n sdiv 3
      else if i = 2 then k = n - 1 \<or> k = n sdiv 2
      else if i = 4 then k = n - 27
      else False)"

definition demoHours :: "time \<Rightarrow> nat \<Rightarrow> duration \<Rightarrow> (int \<Rightarrow> State) \<Rightarrow> HourCell list" where
  "demoHours now n step state =
     (let start = addTime (truncTime now step) (- ((int n - 1) * step)) in
      map (\<lambda>k. let s = state (int k) in
             \<lparr>hc_Start = addTime start (int k * step), hc_State = s,
              hc_Uptime = (case s of StateDown \<Rightarrow> 1 / 4 + of_nat (k mod 3) * (1 / 5) | StateUnknown \<Rightarrow> - 1 | _ \<Rightarrow> 1)\<rparr>) [0..<n])"

definition truncRat :: "rat \<Rightarrow> int" where "truncRat v = (if v < 0 then \<lceil>v\<rceil> else \<lfloor>v\<rfloor>)"

definition demoMs :: "(rat \<Rightarrow> rat) \<Rightarrow> int \<Rightarrow> nat \<Rightarrow> int" where
  "demoMs sine i k =
     (let ms = (case map_of [(1, 140), (2, 260), (3, 36), (4, 205), (5, 90)] i of Some b \<Rightarrow> b | None \<Rightarrow> 0);
          v = ms + ms * (18 / 100) * sine (of_nat k / 5) + ms * (7 / 100) * sine (of_nat k * (17 / 10))
      in truncRat (if k mod 37 = 11 then v * (24 / 10) else v))"

text \<open>The rows of the sample page: what they say, and the states of their hours.\<close>

definition demoRow :: "int \<Rightarrow> string \<Rightarrow> string \<Rightarrow> State \<Rightarrow> rat \<times> rat \<times> rat \<Rightarrow> int \<Rightarrow> Players option \<Rightarrow> TargetRow" where
  "demoRow i name kind st up ms pl =
     \<lparr>tr_ID = i, tr_Name = name, tr_Kind = kind, tr_State = st, tr_Uptime24h = fst up, tr_Uptime7d = fst (snd up),
      tr_Uptime30d = snd (snd up), tr_LatencyMs = ms, tr_Players = pl, tr_Hours = []\<rparr>"

definition demoRows :: "TargetRow list" where
  "demoRows =
     [demoRow 1 ''Website'' ''http'' StateUp (1, 99982 / 100000, 99951 / 100000) 142 None,
      demoRow 2 ''Bewerbungsportal'' ''http'' StateDown (9583 / 10000, 9917 / 10000, 99702 / 100000) 0 None,
      demoRow 3 ''API'' ''tcp'' StateUp (1, 1, 99993 / 100000) 38 None,
      demoRow 4 ''FiveM Testserver'' ''fivem'' StateUp (99305 / 100000, 9981 / 10000, 9964 / 10000) 211
        (Some \<lparr>pl_Count = 12, pl_Max = 64, pl_Version = ''7290''\<rparr>),
      demoRow 5 ''Archiv der Bewerbungsunterlagen (Backup)'' ''http'' StatePaused (- 1, 9876 / 10000, 9932 / 10000) 0 None,
      demoRow 6 ''Neues Ziel'' ''tcp'' StateUnknown (- 1, - 1, - 1) 0 None]"

definition demoState :: "TargetRow \<Rightarrow> int \<Rightarrow> State" where
  "demoState t h =
     (if tr_State t = StateUnknown then StateUnknown
      else if tr_State t = StatePaused \<and> 70 < h then StateUnknown
      else if tr_ID t = 4 \<and> 30 < h \<and> h < 34 then StateUnknown
      else if demoDown (tr_ID t) h 90 then StateDown
      else StateUp)"

definition demoTargets :: "time \<Rightarrow> TargetRow list" where
  "demoTargets now = map (\<lambda>t. t\<lparr>tr_Hours := demoHours now 90 hourDur (demoState t)\<rparr>) demoRows"

definition demoIncidents :: "time \<Rightarrow> IncidentRow list" where
  "demoIncidents now =
     (let ended = addTime now (- (26 * hourDur) - 12 * minute); ended2 = addTime now (- (9 * 24 * hourDur) + 2 * hourDur) in
      [\<lparr>ir_TargetID = 2, ir_TargetName = ''Bewerbungsportal'', ir_StartedAt = addTime now (- (47 * minute)), ir_EndedAt = None,
        ir_Duration = 47 * minute, ir_Cause = []\<rparr>,
       \<lparr>ir_TargetID = 4, ir_TargetName = ''FiveM Testserver'', ir_StartedAt = addTime ended (- (12 * minute)), ir_EndedAt = Some ended,
        ir_Duration = 12 * minute, ir_Cause = []\<rparr>,
       \<lparr>ir_TargetID = 1, ir_TargetName = ''Website'', ir_StartedAt = addTime ended2 (- (2 * hourDur + 5 * minute)), ir_EndedAt = Some ended2,
        ir_Duration = 2 * hourDur + 5 * minute, ir_Cause = []\<rparr>])"

definition demoStatus :: "time \<Rightarrow> StatusPage" where
  "demoStatus now =
     \<lparr>sp_Overall = StateDown, sp_CheckedAt = addTime now (- (40 * second)), sp_Targets = demoTargets now, sp_Incidents = demoIncidents now\<rparr>"

definition pv_page :: "string \<Rightarrow> string \<Rightarrow> string \<Rightarrow> string \<Rightarrow> Page" where
  "pv_page title lang alt path =
     \<lparr>pg_Title = title, pg_Lang = lang, pg_AltURL = alt, pg_Path = path, pg_Version = ''dev'', pg_CSRF = [], pg_Admin = False,
      pg_Flash = [], pg_FlashWarn = False\<rparr>"

definition pv_adminPage :: "string \<Rightarrow> string \<Rightarrow> Page" where
  "pv_adminPage title path = (pv_page title ''de'' [] path)\<lparr>pg_CSRF := ''vorschau'', pg_Admin := True\<rparr>"

definition demoAddr :: "int \<Rightarrow> string" where
  "demoAddr i =
     (case map_of [(1, ''https://dmn-software.com/''), (2, ''https://bewerbungen.dmn-software.com/api/health''), (3, ''10.0.0.12:5432''),
                   (4, ''fivem.example.org:30120''),
                   (5, ''https://intern.example.org/ein/ziemlich/langer/pfad/zum/healthcheck?format=json''), (6, ''example.org:443'')] i of
        Some a \<Rightarrow> a | None \<Rightarrow> [])"

definition demoAdminRow :: "time \<Rightarrow> TargetRow \<Rightarrow> AdminTargetRow" where
  "demoAdminRow now t =
     \<lparr>ar_Row = t, ar_Address = demoAddr (tr_ID t), ar_Paused = (tr_ID t = 5), ar_Public = (tr_ID t < 5),
      ar_LastError = (if tr_ID t = 2 then ''status 502'' else []),
      ar_LastCheck = (if tr_ID t = 5 then addTime now (- (20 * hourDur)) else if tr_ID t = 6 then zeroTime else addTime now (- (35 * second)))\<rparr>"

definition demoAdmin :: "time \<Rightarrow> AdminListPage" where
  "demoAdmin now =
     \<lparr>al_Page = pv_adminPage ''Ziele'' ''/admin/'', al_Targets = map (demoAdminRow now) (sp_Targets (demoStatus now)), al_MailOK = True\<rparr>"

section \<open>Pages\<close>

definition show_page :: "previewenv \<Rightarrow> page \<Rightarrow> run" where
  "show_page e p = (case Render (pv_ctx e) 200 p of Some r \<Rightarrow> Sent r | None \<Rightarrow> Sent (http_Error 500 (pv_err e p)))"

definition pv_notFound :: "previewenv \<Rightarrow> http_req \<Rightarrow> run" where
  "pv_notFound e q =
     (let lang = (if hasPrefix (urlPath q) ''/en/'' then ''en'' else ''de'') in
      case Render (pv_ctx e) 404 (NotFoundTmpl (pv_page (T lang ''nf.title'') lang [] (urlPath q))) of
        Some r \<Rightarrow> Sent r | None \<Rightarrow> Silent)"

definition status_page :: "previewenv \<Rightarrow> string \<Rightarrow> string \<Rightarrow> StatusPage \<Rightarrow> page" where
  "status_page e lang path p =
     StatusTmpl (pv_page ''Status'' lang (if lang = ''en'' then ''/'' else ''/en/'') path) p
       (map (\<lambda>r. HourBars (x_berlin (pv_ctx e)) (tr_Hours r) hourDur lang) (sp_Targets p))"

text \<open>The variants: nothing configured yet, targets without a check, and a quiet day.\<close>

definition leer :: "time \<Rightarrow> StatusPage" where
  "leer now = (demoStatus now)\<lparr>sp_Targets := [], sp_Incidents := [], sp_Overall := StateUnknown\<rparr>"

definition neu :: "time \<Rightarrow> StatusPage" where
  "neu now =
     (demoStatus now)\<lparr>sp_Targets := map (\<lambda>t. t\<lparr>tr_State := StateUnknown, tr_Uptime24h := - 1, tr_Uptime7d := - 1, tr_Uptime30d := - 1,
         tr_LatencyMs := 0, tr_Players := None, tr_Hours := demoHours now 90 hourDur (\<lambda>_. StateUnknown)\<rparr>) (sp_Targets (demoStatus now)),
       sp_Overall := StateUnknown, sp_Incidents := [], sp_CheckedAt := zeroTime\<rparr>"

definition ruhig :: "time \<Rightarrow> StatusPage" where
  "ruhig now = (demoStatus now)\<lparr>sp_Targets := take 2 (sp_Targets (demoStatus now)), sp_Overall := StateUp, sp_Incidents := []\<rparr>"

text \<open>\<^verbatim>\<open>strconv.ParseInt\<close> with its error ignored: no number is 0; a number out of range is the nearest bound, which like 0
  is the number of no sample.\<close>

definition pathNum :: "string \<Rightarrow> int" where
  "pathNum v = (case Atoi v of Some i \<Rightarrow> i | None \<Rightarrow> 0)"

definition pv_period :: "string \<Rightarrow> string \<times> nat \<times> duration \<times> nat" where
  "pv_period r =
     (if r = ''7d'' then (r, 168, hourDur, 168) else if r = ''30d'' then (r, 30, 24 * hourDur, 180) else (''24h'', 24, hourDur, 96))"

definition pv_detailState :: "TargetRow \<Rightarrow> int \<Rightarrow> int \<Rightarrow> State" where
  "pv_detailState t n k =
     (if tr_State t = StateUnknown then StateUnknown
      else if tr_State t = StatePaused \<and> n - 6 < k then StateUnknown
      else if demoDown (tr_ID t) k n then StateDown
      else StateUp)"

definition pv_ms :: "previewenv \<Rightarrow> TargetRow \<Rightarrow> nat \<Rightarrow> int list" where
  "pv_ms e t points =
     map (\<lambda>k. if tr_State t = StateUnknown \<or> (tr_ID t = 2 \<and> int points - 4 < int k) then - 1
              else demoMs (pv_sin e) (tr_ID t) k) [0..<points]"

definition pv_detail :: "previewenv \<Rightarrow> time \<Rightarrow> string \<Rightarrow> string \<Rightarrow> http_req \<Rightarrow> run" where
  "pv_detail e now lang pid q =
     (case List.find (\<lambda>t. tr_ID t = pathNum pid) (sp_Targets (demoStatus now)) of
        None \<Rightarrow> pv_notFound e q
      | Some t \<Rightarrow>
          (case pv_period (hq_range q) of (rng, n, step, points) \<Rightarrow>
             let ms = pv_ms e t points in
             show_page e (DetailTmpl
               (pv_page (tr_Name t) lang ((if lang = ''en'' then ''/ziel/'' else ''/en/ziel/'') @ pid) (urlPath q))
               \<lparr>dp_Target = t, dp_Range = rng, dp_Latency = ms,
                dp_Incidents = filter (\<lambda>i. ir_TargetID i = pathNum pid) (sp_Incidents (demoStatus now))\<rparr>
               (HourBars (x_berlin (pv_ctx e)) (demoHours now n step (pv_detailState t (int n))) step lang)
               (LatencyLine (x_fmt (pv_ctx e)) ms lang))))"

definition demoForm :: "string \<Rightarrow> string \<Rightarrow> TargetForm" where
  "demoForm title path =
     \<lparr>tf_Page = pv_adminPage title path, tf_ID = 0, tf_Name = [], tf_Kind = ''http'', tf_Address = [], tf_ExpectStatus = ''200-399'',
      tf_Keyword = [], tf_ConnectTo = [], tf_IntervalS = 60, tf_TimeoutMs = 10000, tf_FailThreshold = 3, tf_Public = False,
      tf_Paused = False, tf_Errors = Map.empty\<rparr>"

definition wrongForm :: "string \<Rightarrow> TargetForm" where
  "wrongForm path =
     (demoForm ''Ziel anlegen'' path)\<lparr>tf_Kind := ''tcp'', tf_Address := ''localhost'', tf_Keyword := ''ok'', tf_IntervalS := 10,
        tf_Errors := [''name'' \<mapsto> ''1 bis 60 Zeichen'', ''address'' \<mapsto> ''Adresse als host:port erwartet'', ''keyword'' \<mapsto> ''Nur bei HTTP'',
                      ''interval_s'' \<mapsto> ''Liegt au'' @ sz @ ''erhalb von 30 bis 86400'']\<rparr>"

definition pv_edit :: "previewenv \<Rightarrow> time \<Rightarrow> string \<Rightarrow> http_req \<Rightarrow> run" where
  "pv_edit e now pid q =
     (case List.find (\<lambda>r. tr_ID (ar_Row r) = pathNum pid) (al_Targets (demoAdmin now)) of
        None \<Rightarrow> pv_notFound e q
      | Some r \<Rightarrow>
          show_page e (FormTmpl ((demoForm ''Ziel bearbeiten'' (urlPath q))
            \<lparr>tf_ID := tr_ID (ar_Row r), tf_Name := tr_Name (ar_Row r), tf_Kind := tr_Kind (ar_Row r), tf_Address := ar_Address r,
             tf_Public := ar_Public r, tf_Paused := ar_Paused r\<rparr>)))"

definition pv_login :: "previewenv \<Rightarrow> string \<Rightarrow> http_req \<Rightarrow> run" where
  "pv_login e fehler q =
     (let p = \<lparr>lp_Page = (pv_page ''Anmelden'' ''de'' [] (urlPath q))\<lparr>pg_CSRF := ''vorschau''\<rparr>, lp_Username = [], lp_Error = []\<rparr>;
          (p1, status) =
            (if fehler = ''1'' then (p\<lparr>lp_Username := ''leon'', lp_Error := T ''de'' ''adm.login.bad''\<rparr>, 401)
             else if fehler = ''429'' then (p\<lparr>lp_Username := ''leon'', lp_Error := T ''de'' ''adm.login.locked''\<rparr>, 429)
             else (p, 200))
      in case Render (pv_ctx e) status (LoginTmpl p1) of Some r \<Rightarrow> Sent r | None \<Rightarrow> Silent)"

text \<open>The routes; \<^verbatim>\<open>fehler\<close> is the parameter of that name in the query.\<close>

definition Preview_get :: "previewenv \<Rightarrow> time \<Rightarrow> string \<Rightarrow> http_req \<Rightarrow> run" where
  "Preview_get e now fehler q =
     (let segs = hq_segs q; p = urlPath q in
      if segs = [[]] then show_page e (status_page e ''de'' p (demoStatus now))
      else if segs = [''en'', []] then show_page e (status_page e ''en'' p (demoStatus now))
      else if segs = [''leer''] then show_page e (status_page e ''de'' p (leer now))
      else if segs = [''neu''] then show_page e (status_page e ''de'' p (neu now))
      else if segs = [''ruhig''] then show_page e (status_page e ''de'' p (ruhig now))
      else if length segs = 2 \<and> segs ! 0 = ''ziel'' \<and> segs ! 1 \<noteq> [] then pv_detail e now ''de'' (segs ! 1) q
      else if length segs = 3 \<and> take 2 segs = [''en'', ''ziel''] \<and> segs ! 2 \<noteq> [] then pv_detail e now ''en'' (segs ! 2) q
      else if segs = [''admin'', []]
      then show_page e (ListTmpl ((demoAdmin now)\<lparr>al_Page := (al_Page (demoAdmin now))\<lparr>pg_Flash := T ''de'' ''adm.saved''\<rparr>\<rparr>))
      else if segs = [''admin'', ''leer''] then show_page e (ListTmpl ((demoAdmin now)\<lparr>al_Targets := [], al_MailOK := False\<rparr>))
      else if segs = [''admin'', ''ziel'', ''neu''] then show_page e (FormTmpl (demoForm ''Ziel anlegen'' p))
      else if segs = [''admin'', ''ziel'', ''fehler''] then show_page e (FormTmpl (wrongForm p))
      else if length segs = 3 \<and> take 2 segs = [''admin'', ''ziel''] \<and> segs ! 2 \<noteq> [] then pv_edit e now (segs ! 2) q
      else if segs = [''admin'', ''login''] then pv_login e fehler q
      else if 2 \<le> length segs \<and> segs ! 0 = ''static'' then pv_static e (joinSlash (tl segs))
      else if segs = [''en''] \<or> segs = [''static''] \<or> segs = [''admin'']
      then Sent (redirect q (p @ ''/'') 307 ''Temporary Redirect'')
      else pv_notFound e q)"

definition Preview_run :: "previewenv \<Rightarrow> time \<Rightarrow> string \<Rightarrow> http_req \<Rightarrow> run" where
  "Preview_run e now fehler q =
     (if hq_method q = ''GET'' \<or> hq_method q = ''HEAD'' then Preview_get e now fehler q else pv_notFound e q)"

section \<open>The samples against the real pages\<close>

text \<open>The samples show what the real page would show for their targets: the overall state, and for every target that is
  down, and no other, an incident that is open.\<close>

lemmas demo_states = demoTargets_def demoRows_def demoRow_def overallState_def demoStatus_def

lemma demo_overall:
  "overallState (sp_Targets (demoStatus now)) = sp_Overall (demoStatus now)"
  "overallState (sp_Targets (leer now)) = sp_Overall (leer now)"
  "overallState (sp_Targets (neu now)) = sp_Overall (neu now)"
  by (simp_all add: demo_states leer_def neu_def)

lemma demo_incidents:
  assumes "t \<in> set (sp_Targets (demoStatus now))"
  shows "tr_State t = StateDown \<longleftrightarrow> (\<exists>i \<in> set (sp_Incidents (demoStatus now)). ir_TargetID i = tr_ID t \<and> ir_EndedAt i = None)"
  using assms by (auto simp: demo_states demoIncidents_def Let_def)

lemma demo_durations:
  assumes "i \<in> set (sp_Incidents (demoStatus now))"
  shows "ir_Duration i = subTime (case ir_EndedAt i of None \<Rightarrow> now | Some t \<Rightarrow> t) (ir_StartedAt i)"
  using assms by (auto simp: demo_states demoIncidents_def Let_def time_defs)

text \<open>The quiet day is the exception: its page says that all is well, and the second of its two targets is down.\<close>

lemma ruhig_contradicts: "sp_Overall (ruhig now) = StateUp" "overallState (sp_Targets (ruhig now)) = StateDown"
  by (simp_all add: demo_states ruhig_def)

text \<open>The bars: one cell per step up to the current one, an uptime exactly where there were checks, and at the end the
  state of the row.\<close>

lemma demoHours_cells:
  "length (demoHours now n step f) = n"
  "k < n \<Longrightarrow> hc_Start (demoHours now n step f ! k) = truncTime now step - (int n - 1 - int k) * step"
  "c \<in> set (demoHours now n step f) \<Longrightarrow> hc_Uptime c = - 1 \<longleftrightarrow> hc_State c = StateUnknown"
  by (auto simp: demoHours_def Let_def addTime_def algebra_simps add_nonneg_eq_0_iff split: State.splits)

lemma demo_last_hour:
  "t \<in> set demoRows \<Longrightarrow> demoState t 89 = (if tr_State t = StatePaused then StateUnknown else tr_State t)"
  by (auto simp: demoRows_def demoRow_def demoState_def demoDown_def)

text \<open>The line: with a sine between -1 and 1 no value is negative, so the gaps are where the code puts them.\<close>

lemma demoMs_nonneg:
  assumes "\<And>x. - 1 \<le> sine x" and "\<And>x. sine x \<le> 1"
  shows "0 \<le> demoMs sine i k"
proof -
  have "0 \<le> b + b * (18 / 100) * sine x + b * (7 / 100) * sine y" if "0 \<le> b" for b x y :: rat
  proof -
    have "0 \<le> 1 + 18 / 100 * sine x + 7 / 100 * sine y" using assms(1) [of x] assms(1) [of y] by simp
    then have "0 \<le> b * (1 + 18 / 100 * sine x + 7 / 100 * sine y)" using that by simp
    then show ?thesis by (simp add: algebra_simps)
  qed
  moreover have "0 \<le> truncRat (if b then v * (24 / 10) else v)" if "0 \<le> v" for v b using that by (simp add: truncRat_def)
  moreover have "0 \<le> (case map_of [(1, 140), (2, 260), (3, 36), (4, 205), (5, 90)] i of Some b \<Rightarrow> b | None \<Rightarrow> (0 :: rat))" by simp
  ultimately show ?thesis unfolding demoMs_def Let_def by blast
qed

text \<open>The forms: the empty one is the form of a new target, and the messages of the faulty one are those of the
  validation.\<close>

lemma demoForm_new: "demoForm title path = form (pv_adminPage title path) newTarget Map.empty"
  by (simp add: demoForm_def form_def newTarget_def KindHTTP_def)

lemma wrongForm_errors:
  "wrongForm path = form (pv_adminPage ''Ziel anlegen'' path) t (Validate parseURL t)"
  if "t = newTarget\<lparr>Kind := KindTCP, Address := ''localhost'', Keyword := ''ok'', IntervalS := 10\<rparr>"
proof -
  have a: "ascii ''localhost''" "ascii ''ok''" "ascii []" by code_simp+
  have "TrimSpace [] = []" "\<not> hostPort ''localhost''" "runeCount ''ok'' = 2" by code_simp+
  moreover have "\<not> containsFunc [] hidden" "\<not> containsFunc ''localhost'' hidden" "\<not> containsFunc ''ok'' hidden"
    by (simp_all add: containsFunc_ascii a hidden_ascii byte_def)
  ultimately have "Validate parseURL t =
      [''name'' \<mapsto> ''1 bis 60 Zeichen'', ''address'' \<mapsto> ''Adresse als host:port erwartet'', ''keyword'' \<mapsto> ''Nur bei HTTP'',
       ''interval_s'' \<mapsto> ''Liegt au'' @ sz @ ''erhalb von 30 bis 86400'']"
    by (simp add: that Validate_def newTarget_def noteIf_def checkKind_def checkKeyword_def checkConnectTo_def checkNumbers_def
        checkHidden_def KindTCP_def KindHTTP_def KindFiveM_def Let_def)
  then show ?thesis
    by (simp add: wrongForm_def demoForm_def form_def that newTarget_def KindTCP_def)
qed

end
