(* ===== verification/Spec2Isabelle.thy ===== *)
theory Spec2Isabelle
  imports Command Service Monitor_Live Smtp_Listener Test_Support Preview
begin

text \<open>
  \<^bold>\<open>dmn-status\<close> is a self-hosted status page: it checks targets (HTTP, TCP, FiveM servers) at
  intervals, keeps the results and the outages in an SQLite database, mails the operator when a target
  goes down or comes back, and serves a public page and an admin area. This development models its Go
  code as HOL functions and proves what makes the parts correct, alone and together.

  \<^bold>\<open>Parts and theories.\<close>

  \<^item> Vocabulary. \<open>Prelude\<close>: instants, durations, Go's truncating division, the shapes of SQL statements.
    \<open>Go_Strings\<close>: byte strings, UTF-8 runes, trimming, splitting, numbers. \<open>Base64\<close>: the unpadded
    encodings and the masked form tokens of \<^verbatim>\<open>web/admin.go\<close>. \<open>Netaddr\<close>, \<open>Netaddr_Text\<close>: addresses, ports
    and prefixes as text, and that reading an address undoes writing it.
  \<^item> Store (\<^verbatim>\<open>internal/store\<close>). \<open>Table\<close>: rowid tables and token tables as locales. \<open>Targets_Model\<close>,
    \<open>Database\<close>: the rows, the whole database as one record with the constraints of the migrations
    (\<open>db_ok\<close>), statements, transactions. \<open>Store_Targets\<close> (\<^verbatim>\<open>targets.go\<close>, \<^verbatim>\<open>checks.go\<close>),
    \<open>Store_Incidents\<close> (\<^verbatim>\<open>incidents.go\<close>), \<open>Store_Sessions\<close> (\<^verbatim>\<open>sessions.go\<close>, \<^verbatim>\<open>devices.go\<close>, \<^verbatim>\<open>admin.go\<close>),
    \<open>Store_Rollup\<close>, \<open>Store_Uptime\<close> (\<^verbatim>\<open>rollup.go\<close>, \<^verbatim>\<open>retention.go\<close>), \<open>Migrate\<close> (\<^verbatim>\<open>db.go\<close>: files, migrations, backup).
  \<^item> Monitor (\<^verbatim>\<open>internal/monitor\<close>). \<open>Incident_State\<close>: the machine of \<^verbatim>\<open>state.go\<close>. \<open>Monitor\<close>: the manager
    of \<^verbatim>\<open>scheduler.go\<close> and \<^verbatim>\<open>maintenance.go\<close> with its runners as a step relation \<open>mstep\<close> and the reachable
    states. \<open>Monitor_Inv\<close>, \<open>Monitor_Props\<close>, \<open>Monitor_Restart\<close>, \<open>Monitor_Ops\<close>: its properties. \<open>Monitor_Live\<close>: the sleeps,
    the tickers, the end of the service, and that every runner gets its turn.
  \<^item> Checker (\<^verbatim>\<open>internal/check\<close>). \<open>Checker\<close>: \<^verbatim>\<open>check.go\<close>, \<^verbatim>\<open>http.go\<close>, \<^verbatim>\<open>tcp.go\<close>, \<^verbatim>\<open>fivem.go\<close>. \<open>Dial\<close>, \<open>Dialer\<close>:
    \<^verbatim>\<open>dial.go\<close>. \<open>Validate\<close>: \<^verbatim>\<open>validate.go\<close>.
  \<^item> Mails (\<^verbatim>\<open>internal/alert\<close>). \<open>Mailer\<close>: the quota and the SMTP dialogue of \<^verbatim>\<open>smtp.go\<close>. \<open>Mail_Text\<close>:
    \<^verbatim>\<open>mail.go\<close> and the mail function that \<^verbatim>\<open>monitor.New\<close> builds. \<open>Smtp_Server\<close>: the server of \<^verbatim>\<open>smtptest/server.go\<close>
    at the other end of the dialogue. \<open>Smtp_Listener\<close>: its goroutines as a step relation \<open>lstep\<close>.
  \<^item> Passwords (\<^verbatim>\<open>internal/auth\<close>). \<open>Password\<close>.
  \<^item> Web (\<^verbatim>\<open>internal/web\<close>). \<open>Web_Public\<close>: the data of the public pages, \<^verbatim>\<open>public.go\<close>. \<open>Metrics\<close>: its metrics text.
    \<open>Limiter\<close>, \<open>Client_IP\<close>: \<^verbatim>\<open>limit.go\<close>. \<open>Web_Admin\<close>, \<open>Web_Admin_Props\<close>: \<^verbatim>\<open>admin.go\<close> and the routes, path numbers and
    cookie names of \<^verbatim>\<open>server.go\<close>. \<open>I18n\<close>: the texts and formats of \<^verbatim>\<open>i18n.go\<close>. \<open>Chart\<close>: the charts of \<^verbatim>\<open>chart.go\<close>.
    \<open>Web_Server\<close>: the whole handler of \<^verbatim>\<open>server.go\<close> with routes, headers, errors, static files and the cached pages.
    \<open>Service\<close>: the manager and the web server as one system. \<open>Preview\<close>: the sample pages of \<^verbatim>\<open>preview.go\<close>.
  \<^item> Configuration and commands. \<open>Config\<close>: \<^verbatim>\<open>internal/config\<close>. \<open>Command\<close>: \<^verbatim>\<open>cmd/dmn-status/main.go\<close>, which puts the parts
    together.
  \<^item> Test support. \<open>Test_Support\<close>: the settable clock of \<^verbatim>\<open>internal/testutil\<close> and the FiveM server of \<^verbatim>\<open>check/fakefx\<close>, checked by
    the model of the checker.

  \<^bold>\<open>How code becomes definitions.\<close> A Go struct is a record, a method that changes it a function that
  returns the new record. An operation of the store is a function \<open>db \<Rightarrow> 'a result \<times> db\<close>, its error a
  value of \<open>store_err\<close>. The driver may fail any statement: the field \<open>faults\<close> of the database scripts
  which of the coming statements fail, an exhausted script means that none does (\<open>healthy\<close>); theorems
  without that hypothesis hold for every script. In the same way \<open>wire\<close> scripts the failures of SMTP
  commands; \<open>Smtp_Server\<close> derives that script from a server. The clock, random tokens, hash functions, Argon2, name resolution, connections, the HTTP
  client, the JSON coder, the template engine, embedded files, \<^verbatim>\<open>url.Parse\<close>, time zones and MIME encodings are arguments. Instants are
  nanoseconds as \<open>int\<close>; ratios, \<^verbatim>\<open>float64\<close> in the code, are exact rationals; counters of checks are 64 bit
  words; addresses are 32 and 128 bit words. Loops are recursions that terminate (\<open>cut_loop\<close>, \<open>cells_loop\<close>,
  \<open>runes\<close>, \<open>v6_loop\<close>, \<open>serve_loop\<close> by a measure, the rest structurally); no fuel is needed.

  A runner's goroutine is modelled by the phases between its blocking points; one step does all that
  lies between two of them. What it writes in such a step concerns its own target, and every manager
  operation that touches a target's incidents first stops its runner, so that no other step of the
  same target can fall in between. A request of the web server is one step as well.

  \<^bold>\<open>What is shown.\<close>

  \<^item> The machine computes the streak of failures and reports each outage and its end once (C1, C2);
    through the runner, the store and any failures of mails, the incidents of a target are those of its
    history of checks (C3); in every reachable state of the service the slots, runners and stored
    incidents agree, also when requests of any kind come in between (C4); a restart forgets nothing (C5). While the
    service runs every runner can get to its next check (C31), and its end terminates under every schedule (C30):
    three steps per runner at most, by a measure over the phases.
  \<^item> The aggregates are exact and give the same uptime as the raw checks (C6 to C8); cells and charts show
    the hours and slots they should (lemmas of \<open>Store_Uptime\<close>, \<open>Web_Public\<close>, \<open>Chart\<close>); pruning deletes nothing
    younger than it may (C29).
  \<^item> At most twenty alert mails and three test mails an hour reach the network, a mail counts as sent
    exactly when the dialogue succeeded and the server has stored it unchanged, no text of a target breaks
    out of its line, and mails are retried once (C9 to C11, C28, C37).
  \<^item> A session was opened by a login within its limits (C12), logins are limited per client (C13, C24),
    a login needs the right password (C19, C27, C33), and without a session and its form token, or from another
    site, no request of any kind changes anything (C18). Every response is protected by its headers and
    cached only where it may be (C23). Saving a form stores what was validated (C20, C21).
  \<^item> Checks contact only allowed addresses (C14, C15, C22); their results are well-formed and decide as
    the settings say (C25, C26). The public pages show public targets only (C16, C17), the metrics need
    their token and are well-formed for any name (C36).
  \<^item> A database file is migrated step by step and never loses rows (C34), the configuration is within its
    bounds (C35), and a started service runs every active target and keeps its account (C32).
  \<^item> Three places where the code leaves something behind when a statement fails or the service was down
    (C38 to C40).
  \<^item> Lemmas of \<open>Smtp_Listener\<close>: a test's cleanup leaves no goroutine and no open connection behind once it returns, though it may
    wait for a connection it missed, and a test that waits for messages is woken by the last of them. Lemmas of
    \<open>Test_Support\<close> and \<open>Preview\<close>: a check of the FiveM server reports what its flags say; the sample pages agree with what the
    real ones would show, but for one.

  The interfaces are locales, each interpreted on the definitions of the model: \<open>rowid_table\<close>, \<open>token_table\<close>,
  \<open>table_property\<close> and \<open>incident_log\<close> for the store, \<open>migration_set\<close> for its migrations, \<open>mail_quota\<close> for the mailer.

  \<^bold>\<open>Not modelled.\<close> The HTML templates and assets, which only present the data the model gives them. When exactly a
  timer fires: any order of steps is allowed instead, and the sleeps have their bounds. Timeouts of the HTTP
  server, signals, log lines, the flags of the test programs and the terminal. The certificates and addresses of
  the SMTP server, and \<^verbatim>\<open>cmd/preview\<close>, which only opens a port.
\<close>

end
